(* ===== verification/Prelude.thy ===== *)
theory Prelude
  imports Main "HOL-Library.Word" "HOL-Library.Multiset"
begin

text \<open>
  Shared vocabulary of the development: fixed-width integers, Go error values, results of
  fallible functions, and the effectful computations that talk to services outside the
  repository.

  \<^item> A Go \<^verbatim>\<open>error\<close> is a value of \<open>goerr\<close>. \<open>ErrNew\<close> and \<open>ErrFmt\<close> are fresh errors made by
    \<^verbatim>\<open>errors.New\<close> and \<^verbatim>\<open>fmt.Errorf\<close> (with the arguments of the format kept), \<open>ErrWrap\<close> is
    \<^verbatim>\<open>fmt.Errorf\<close> with a \<^verbatim>\<open>%w\<close> verb. Sentinel errors, which the program compares by identity,
    are constructors of their own, so \<open>errors_Is\<close> decides them the way \<^verbatim>\<open>errors.Is\<close> does.
  \<^item> A function that returns \<^verbatim>\<open>(T, error)\<close> is of type \<open>'a result\<close>, the left summand being the
    failure. A run-time panic (an index or slice out of range, a nil dereference) is a failure
    too, kept apart from an error because no caller can handle it but \<^verbatim>\<open>recover\<close>.
  \<^item> A computation that calls services is a function of the world they live in, \<open>('w, 'a) io\<close>.
\<close>

named_theorems result_simps \<open>success and failure of result and io computations\<close>
named_theorems codec_simps \<open>encoding and decoding of byte strings\<close>
named_theorems bounds_intros \<open>bounds of fixed-width values\<close>

section \<open>Fixed-width integers\<close>

type_synonym byte = "8 word"
type_synonym u16 = "16 word"
type_synonym u32 = "32 word"
type_synonym u64 = "64 word"

text \<open>
  \<open>i64\<close> holds the 64 bits of an \<^verbatim>\<open>int64\<close>: the conversions \<^verbatim>\<open>int64(u)\<close> and \<^verbatim>\<open>uint64(i)\<close> keep the
  bits, \<open>sint\<close> reads them as two's complement, and the arithmetic wraps.
\<close>

type_synonym i64 = "64 word"
type_synonym bytes = "byte list"

section \<open>Errors and results\<close>

datatype goarg = ArgInt int | ArgStr string

datatype goerr =
    ErrNew string
  | ErrFmt string "goarg list"
  | ErrWrap string "goarg list" goerr
  | ErrExt string
  | ErrSkip
  | ErrExtensionNotFound
  | ErrPairNotFound
  | Canceled

fun errors_Is :: "goerr \<Rightarrow> goerr \<Rightarrow> bool" where
  "errors_Is (ErrWrap m as e) t = (ErrWrap m as e = t \<or> errors_Is e t)"
| "errors_Is e t = (e = t)"

datatype failure = Error goerr | Panic string

type_synonym 'a result = "failure + 'a"

definition bindR :: "'a result \<Rightarrow> ('a \<Rightarrow> 'b result) \<Rightarrow> 'b result" where
  "bindR m f = (case m of Inl e \<Rightarrow> Inl e | Inr x \<Rightarrow> f x)"

definition wrapR :: "string \<Rightarrow> 'a result \<Rightarrow> 'a result" where
  "wrapR msg m = (case m of Inl (Error e) \<Rightarrow> Inl (Error (ErrWrap msg [] e)) | _ \<Rightarrow> m)"

abbreviation failR :: "goerr \<Rightarrow> 'a result" where
  "failR e \<equiv> Inl (Error e)"

lemma bindR_Inl [simp]: "bindR (Inl e) f = Inl e"
  and bindR_Inr [simp]: "bindR (Inr x) f = f x"
  by (simp_all add: bindR_def)

lemma bindR_eq_Inr [result_simps]: "bindR m f = Inr y \<longleftrightarrow> (\<exists>x. m = Inr x \<and> f x = Inr y)"
  by (auto simp: bindR_def split: sum.splits)

lemma bindR_eq_Inl [result_simps]:
  "bindR m f = Inl e \<longleftrightarrow> m = Inl e \<or> (\<exists>x. m = Inr x \<and> f x = Inl e)"
  by (auto simp: bindR_def split: sum.splits)

lemma wrapR_Inr [simp]: "wrapR msg (Inr x) = Inr x"
  and wrapR_Error [simp]: "wrapR msg (Inl (Error e)) = failR (ErrWrap msg [] e)"
  and wrapR_Panic [simp]: "wrapR msg (Inl (Panic p)) = Inl (Panic p)"
  by (simp_all add: wrapR_def)

lemma wrapR_eq_Inr [result_simps]: "wrapR msg m = Inr y \<longleftrightarrow> m = Inr y"
  by (auto simp: wrapR_def split: sum.splits failure.splits)

lemma wrapR_eq_Panic [result_simps]: "wrapR msg m = Inl (Panic p) \<longleftrightarrow> m = Inl (Panic p)"
  by (auto simp: wrapR_def split: sum.splits failure.splits)

lemma case_option_eq_Inr [result_simps]:
  "(case x of None \<Rightarrow> Inl e | Some y \<Rightarrow> f y) = Inr z \<longleftrightarrow> (\<exists>y. x = Some y \<and> f y = Inr z)"
  by (cases x) auto

lemma case_option_eq_Inr_Some [result_simps]:
  "(case x of None \<Rightarrow> Inr None | Some y \<Rightarrow> f y) = Inr (Some z) \<longleftrightarrow> (\<exists>y. x = Some y \<and> f y = Inr (Some z))"
  by (cases x) auto

lemma case_list_eq_Inr [result_simps]:
  "(case xs of [] \<Rightarrow> Inl e | y # ys \<Rightarrow> f y ys) = Inr z \<longleftrightarrow> (\<exists>y ys. xs = y # ys \<and> f y ys = Inr z)"
  by (cases xs) auto

lemma errors_Is_ErrWrap [simp]:
  "t = ErrSkip \<or> t = ErrExtensionNotFound \<or> t = ErrPairNotFound \<or> t = Canceled \<Longrightarrow>
   errors_Is (ErrWrap m as e) t = errors_Is e t"
  by auto

section \<open>Computations over an outside world\<close>

type_synonym ('w, 'a) io = "'w \<Rightarrow> 'a result \<times> 'w"

definition retI :: "'a \<Rightarrow> ('w, 'a) io" where
  "retI x = (\<lambda>w. (Inr x, w))"

definition bindI :: "('w, 'a) io \<Rightarrow> ('a \<Rightarrow> ('w, 'b) io) \<Rightarrow> ('w, 'b) io" where
  "bindI m f = (\<lambda>w. case m w of (Inl e, w') \<Rightarrow> (Inl e, w') | (Inr x, w') \<Rightarrow> f x w')"

definition liftI :: "'a result \<Rightarrow> ('w, 'a) io" where
  "liftI r = (\<lambda>w. (r, w))"

definition wrapI :: "string \<Rightarrow> ('w, 'a) io \<Rightarrow> ('w, 'a) io" where
  "wrapI msg m = (\<lambda>w. apfst (wrapR msg) (m w))"

definition guardI :: "bool \<Rightarrow> goerr \<Rightarrow> ('w, unit) io" where
  "guardI b e = liftI (if b then Inr () else failR e)"

lemma bindI_eq_Inr [result_simps]:
  "bindI m f w = (Inr y, w') \<longleftrightarrow> (\<exists>x w1. m w = (Inr x, w1) \<and> f x w1 = (Inr y, w'))"
  by (auto simp: bindI_def split: prod.splits sum.splits)

lemma retI_eq [result_simps]: "retI x w = (r, w') \<longleftrightarrow> r = Inr x \<and> w' = w"
  by (auto simp: retI_def)

lemma liftI_eq [result_simps]: "liftI r w = (r', w') \<longleftrightarrow> r = r' \<and> w' = w"
  by (auto simp: liftI_def)

lemma wrapI_eq_Inr [result_simps]: "wrapI msg m w = (Inr y, w') \<longleftrightarrow> m w = (Inr y, w')"
  by (cases "m w") (auto simp: wrapI_def wrapR_eq_Inr)

lemma case_option_io_eq_Inr [result_simps]:
  "(case x of None \<Rightarrow> liftI (Inl e) | Some y \<Rightarrow> f y) w = (Inr z, w') \<longleftrightarrow>
   (\<exists>y. x = Some y \<and> f y w = (Inr z, w'))"
  by (cases x) (auto simp: liftI_def)

lemma guardI_eq_Inr [result_simps]: "guardI b e w = (Inr u, w') \<longleftrightarrow> b \<and> w' = w"
  by (auto simp: guardI_def liftI_def)

text \<open>Induction over a loop of effectful steps that stops at the first failure.\<close>

fun mapI :: "('a \<Rightarrow> ('w, 'b) io) \<Rightarrow> 'a list \<Rightarrow> ('w, 'b list) io" where
  "mapI f [] = retI []"
| "mapI f (x # xs) = bindI (f x) (\<lambda>y. bindI (mapI f xs) (\<lambda>ys. retI (y # ys)))"

fun mapR :: "('a \<Rightarrow> 'b result) \<Rightarrow> 'a list \<Rightarrow> 'b list result" where
  "mapR f [] = Inr []"
| "mapR f (x # xs) = bindR (f x) (\<lambda>y. bindR (mapR f xs) (\<lambda>ys. Inr (y # ys)))"

lemma mapR_eq_Inr:
  "mapR f xs = Inr ys \<longleftrightarrow> list_all2 (\<lambda>x y. f x = Inr y) xs ys"
  by (induction xs arbitrary: ys) (auto simp: bindR_eq_Inr list_all2_Cons1)

lemma mapR_length: "mapR f xs = Inr ys \<Longrightarrow> length ys = length xs"
  by (auto simp: mapR_eq_Inr dest: list_all2_lengthD)

section \<open>Computations that respect a preorder\<close>

text \<open>\<open>moves R m\<close>: whatever its outcome, the computation takes a world to one related to it. For a
  preorder the relation is kept by sequencing.\<close>

definition moves :: "('w \<Rightarrow> 'w \<Rightarrow> bool) \<Rightarrow> ('w, 'a) io \<Rightarrow> bool" where
  "moves R m \<longleftrightarrow> (\<forall>w. R w (snd (m w)))"

locale io_preorder =
  fixes R :: "'w \<Rightarrow> 'w \<Rightarrow> bool"
  assumes refl: "R w w"
    and trans: "R u v \<Longrightarrow> R v w \<Longrightarrow> R u w"
begin

lemma moved: "moves R m \<Longrightarrow> m w = (r, w') \<Longrightarrow> R w w'"
  unfolding moves_def by (metis snd_conv)

lemma moves_basic: "moves R (liftI r)" "moves R (retI x)" "moves R (guardI b e)"
  by (simp_all add: moves_def liftI_def retI_def guardI_def refl)

lemma moves_wrapI: "moves R m \<Longrightarrow> moves R (wrapI msg m)"
  by (simp add: moves_def wrapI_def)

lemma moves_bindI:
  assumes "moves R m" and "\<And>x. moves R (f x)"
  shows "moves R (bindI m f)"
proof -
  have "R w (snd (bindI m f w))" for w
  proof (cases "m w")
    case (Pair r w1)
    with moved [OF assms(1) Pair] show ?thesis
      using assms(2) unfolding moves_def bindI_def by (cases r) (auto intro: trans)
  qed
  then show ?thesis by (simp add: moves_def)
qed

lemma moves_mapI: "(\<And>x. moves R (f x)) \<Longrightarrow> moves R (mapI f xs)"
  by (induction xs) (auto intro!: moves_bindI moves_basic)

end

section \<open>Reachable states\<close>

text \<open>
  A component with state promises an initial invariant and its preservation by every step; a
  client gets the invariant in every reachable state.
\<close>

locale invariant_system =
  fixes init :: "'s \<Rightarrow> bool"
    and step :: "'s \<Rightarrow> 's \<Rightarrow> bool"
    and inv :: "'s \<Rightarrow> bool"
  assumes inv_init: "init s \<Longrightarrow> inv s"
    and inv_step: "inv s \<Longrightarrow> step s t \<Longrightarrow> inv t"
begin

lemma inv_steps:
  assumes "inv s" and "step\<^sup>*\<^sup>* s t"
  shows "inv t"
  using assms(2,1) by (induction rule: rtranclp_induct) (auto intro: inv_step)

lemma inv_reachable:
  assumes "init s" and "step\<^sup>*\<^sup>* s t"
  shows "inv t"
  using inv_steps [OF inv_init [OF assms(1)] assms(2)] .

end

section \<open>Words\<close>

lemma unat_lt2p [bounds_intros]: "unat (w :: 'a::len word) < 2 ^ LENGTH('a)"
  by (rule unsigned_less)

lemma unat_of_nat_less [bounds_intros]:
  "n < 2 ^ LENGTH('a) \<Longrightarrow> unat (of_nat n :: 'a::len word) = n"
  by (simp add: unat_of_nat take_bit_nat_eq_self)

lemma uint_less_63: "unat (w :: u64) < 2 ^ 63 \<Longrightarrow> uint w < 2 ^ 63"
proof -
  assume "unat w < 2 ^ 63"
  then have "int (unat w) < int (2 ^ 63)" by (simp only: of_nat_less_iff)
  then show ?thesis by simp
qed

lemma sint_eq_uint_u64: "unat (w :: u64) < 2 ^ 63 \<Longrightarrow> sint w = int (unat w)"
proof -
  assume "unat w < 2 ^ 63"
  then have "int (unat w) < int (2 ^ 63)" by (simp only: of_nat_less_iff)
  then have "uint w < 2 ^ 63" by simp
  moreover have "- (2 ^ 63) \<le> uint w" by (rule order_trans [of _ 0]) simp_all
  ultimately show ?thesis
    using signed_take_bit_int_eq_self [of 63 "uint w"] by (simp add: sint_uint)
qed

lemma word_of_int_sint_u64 [simp]: "word_of_int (sint (w :: u64)) = w"
  by simp

lemma sint_eq_iff_u64 [simp]: "sint (a :: u64) = sint b \<longleftrightarrow> a = b"
  by (metis word_of_int_sint_u64)

lemma sint_sub_u64:
  "- (2 ^ 63) \<le> sint a - sint b \<Longrightarrow> sint a - sint b < 2 ^ 63 \<Longrightarrow>
   sint (a - b :: u64) = sint a - sint b"
  using signed_take_bit_int_eq_self [of 63 "sint a - sint b"] by (simp add: sint_word_ariths)

lemma sint_add_u64:
  "- (2 ^ 63) \<le> sint a + sint b \<Longrightarrow> sint a + sint b < 2 ^ 63 \<Longrightarrow>
   sint (a + b :: u64) = sint a + sint b"
  using signed_take_bit_int_eq_self [of 63 "sint a + sint b"] by (simp add: sint_word_ariths)

lemma sint_u64_high: "2 ^ 63 \<le> unat (w :: u64) \<Longrightarrow> sint w = int (unat w) - 2 ^ 64"
proof -
  assume "2 ^ 63 \<le> unat w"
  then have "int (2 ^ 63) \<le> int (unat w)" by (simp only: of_nat_le_iff)
  then have lo: "2 ^ 63 \<le> uint w" by simp
  have hi: "uint w < 2 ^ 64" using uint_lt2p [of w] by simp
  have "sint w = signed_take_bit 63 (uint w)" by (simp add: sint_uint)
  also have "\<dots> = signed_take_bit 63 (uint w - 2 ^ 64)"
    by (simp only: signed_take_bit_eq_iff_take_bit_eq) (simp add: take_bit_eq_mod)
  also have "\<dots> = uint w - 2 ^ 64"
    using signed_take_bit_int_eq_self [of 63 "uint w - 2 ^ 64"] lo hi by simp
  finally show ?thesis by simp
qed

end
