(* ===== verification/GoLib.thy ===== *)
theory GoLib
  imports Prelude
begin

text \<open>
  The parts of the Go standard library the program computes with: \<^verbatim>\<open>encoding/binary\<close> (big
  endian), \<^verbatim>\<open>encoding/hex\<close>, \<^verbatim>\<open>strings.SplitN\<close>, \<^verbatim>\<open>strings.TrimSpace\<close> and \<^verbatim>\<open>strconv.Atoi\<close>. A Go
  string is its list of bytes, so \<^typ>\<open>char\<close> (eight bits) is one byte of it.
\<close>

section \<open>Codecs\<close>

text \<open>
  The contract of an encoder and a decoder: on the values the encoder is used for, decoding what
  was encoded gives the value back. Clients get injectivity from it.
\<close>

locale byte_codec =
  fixes enc :: "'a \<Rightarrow> 'b list"
    and dec :: "'b list \<Rightarrow> 'a result"
    and ok :: "'a \<Rightarrow> bool"
  assumes dec_enc: "ok x \<Longrightarrow> dec (enc x) = Inr x"
begin

lemma enc_inj:
  assumes "ok x" and "ok y" and "enc x = enc y"
  shows "x = y"
proof -
  have "Inr x = dec (enc x)" using dec_enc [OF assms(1)] by simp
  also have "\<dots> = Inr y" using dec_enc [OF assms(2)] assms(3) by simp
  finally show ?thesis by simp
qed

end

section \<open>Big-endian integers\<close>

fun be_val :: "bytes \<Rightarrow> nat" where
  "be_val [] = 0"
| "be_val (b # bs) = unat b * 256 ^ length bs + be_val bs"

fun be_digits :: "nat \<Rightarrow> nat \<Rightarrow> bytes" where
  "be_digits 0 n = []"
| "be_digits (Suc k) n = of_nat (n div 256 ^ k) # be_digits k n"

definition Uint16 :: "bytes \<Rightarrow> u16" where
  "Uint16 bs = of_nat (be_val (take 2 bs))"

definition Uint64 :: "bytes \<Rightarrow> u64" where
  "Uint64 bs = of_nat (be_val (take 8 bs))"

definition PutUint16 :: "u16 \<Rightarrow> bytes" where
  "PutUint16 v = be_digits 2 (unat v)"

definition PutUint64 :: "u64 \<Rightarrow> bytes" where
  "PutUint64 v = be_digits 8 (unat v)"

lemma length_be_digits [simp]: "length (be_digits k n) = k"
  by (induction k) auto

lemma length_PutUint16 [simp]: "length (PutUint16 v) = 2"
  and length_PutUint64 [simp]: "length (PutUint64 w) = 8"
  by (simp_all add: PutUint16_def PutUint64_def)

lemma be_val_less [bounds_intros]: "be_val bs < 256 ^ length bs"
proof (induction bs)
  case (Cons b bs)
  have "unat b < 256" using unat_lt2p [of b] by simp
  then have "(unat b + 1) * 256 ^ length bs \<le> 256 * 256 ^ length bs"
    by (intro mult_right_mono) auto
  then have "unat b * 256 ^ length bs + 256 ^ length bs \<le> 256 * 256 ^ length bs"
    by (simp only: add_mult_distrib mult_1)
  with Cons.IH show ?case unfolding be_val.simps length_Cons power_Suc by linarith
qed simp

lemma unat_byte_of_nat: "unat (of_nat n :: byte) = n mod 256"
  by (simp add: unat_of_nat take_bit_eq_mod)

lemma be_val_be_digits: "be_val (be_digits k n) = n mod 256 ^ k"
proof (induction k)
  case (Suc k)
  have "n mod 256 ^ Suc k = 256 ^ k * (n div 256 ^ k mod 256) + n mod 256 ^ k"
    using mod_mult2_eq [of n "256 ^ k" 256] by (simp add: mult.commute)
  with Suc show ?case by (simp add: unat_byte_of_nat mult.commute)
qed simp

lemma be_digits_add_multiple: "be_digits k (m * 256 ^ k + n) = be_digits k n"
proof (induction k arbitrary: m)
  case (Suc k)
  have "m * 256 ^ Suc k + n = (m * 256) * 256 ^ k + n" by simp
  then have "be_digits k (m * 256 ^ Suc k + n) = be_digits k n"
    by (simp only: Suc.IH)
  moreover have "(of_nat ((m * 256 ^ Suc k + n) div 256 ^ k) :: byte) = of_nat (n div 256 ^ k)"
  proof -
    have "(m * 256 ^ Suc k + n) div 256 ^ k = m * 256 + n div 256 ^ k"
      using div_mult_self1 [of "256 ^ k" n "m * 256"] by (simp add: algebra_simps)
    moreover have "unat (of_nat (m * 256) :: byte) = 0"
      by (simp only: unat_byte_of_nat mod_mult_self2_is_0)
    then have "(of_nat (m * 256) :: byte) = 0"
      by (simp only: unsigned_eq_0_iff)
    ultimately show ?thesis by (simp del: of_nat_mult)
  qed
  ultimately show ?case by simp
qed simp

lemma be_digits_be_val: "be_digits (length bs) (be_val bs) = bs"
proof (induction bs)
  case (Cons b bs)
  have "(unat b * 256 ^ length bs + be_val bs) div 256 ^ length bs = unat b"
    using be_val_less [of bs] by simp
  with Cons show ?case by (simp add: be_digits_add_multiple)
qed simp

lemma Uint16_PutUint16 [codec_simps]: "Uint16 (PutUint16 v) = v"
proof -
  have "unat v < 256 ^ 2" using unat_lt2p [of v] by simp
  then show ?thesis by (simp add: Uint16_def PutUint16_def be_val_be_digits)
qed

lemma Uint64_PutUint64 [codec_simps]: "Uint64 (PutUint64 v) = v"
proof -
  have "unat v < 256 ^ 8" using unat_lt2p [of v] by simp
  then show ?thesis by (simp add: Uint64_def PutUint64_def be_val_be_digits)
qed

lemma PutUint64_Uint64 [codec_simps]:
  assumes "length bs = 8"
  shows "PutUint64 (Uint64 bs) = bs"
proof -
  have "be_val bs < 2 ^ LENGTH(64)" using be_val_less [of bs] assms by simp
  then have "unat (of_nat (be_val bs) :: u64) = be_val bs" by (rule unat_of_nat_less)
  then show ?thesis using be_digits_be_val [of bs] assms by (simp add: PutUint64_def Uint64_def)
qed

lemma unat_Uint16_less: "unat (Uint16 bs) < 65536"
  using unat_lt2p [of "Uint16 bs"] by simp

interpretation be64: byte_codec PutUint64 "\<lambda>bs. Inr (Uint64 bs)" "\<lambda>_. True"
  by unfold_locales (simp add: Uint64_PutUint64)

section \<open>Hexadecimal\<close>

definition hexdigit :: "nat \<Rightarrow> char" where
  "hexdigit n = (if n < 10 then char_of (48 + n) else char_of (87 + n))"

definition fromHexChar :: "char \<Rightarrow> nat option" where
  "fromHexChar c = (let n = of_char c :: nat in
     if 48 \<le> n \<and> n \<le> 57 then Some (n - 48)
     else if 97 \<le> n \<and> n \<le> 102 then Some (n - 87)
     else if 65 \<le> n \<and> n \<le> 70 then Some (n - 55)
     else None)"

fun EncodeToString :: "bytes \<Rightarrow> string" where
  "EncodeToString [] = []"
| "EncodeToString (b # bs) = hexdigit (unat b div 16) # hexdigit (unat b mod 16) # EncodeToString bs"

definition InvalidByteError :: "char \<Rightarrow> goerr" where
  "InvalidByteError c = ErrFmt ''encoding/hex: invalid byte: %#U'' [ArgStr [c]]"

definition ErrLength :: goerr where
  "ErrLength = ErrNew ''encoding/hex: odd length hex string''"

fun DecodeString :: "string \<Rightarrow> bytes result" where
  "DecodeString [] = Inr []"
| "DecodeString [p] =
     (case fromHexChar p of None \<Rightarrow> failR (InvalidByteError p) | Some _ \<Rightarrow> failR ErrLength)"
| "DecodeString (p # q # s) =
     (case fromHexChar p of None \<Rightarrow> failR (InvalidByteError p)
      | Some a \<Rightarrow> (case fromHexChar q of None \<Rightarrow> failR (InvalidByteError q)
         | Some b \<Rightarrow> bindR (DecodeString s) (\<lambda>bs. Inr (of_nat (a * 16 + b) # bs))))"

lemma fromHexChar_hexdigit [simp]: "n < 16 \<Longrightarrow> fromHexChar (hexdigit n) = Some n"
  by (auto simp: fromHexChar_def hexdigit_def Let_def)

lemma DecodeString_EncodeToString [codec_simps]: "DecodeString (EncodeToString bs) = Inr bs"
proof (induction bs)
  case (Cons b bs)
  have "unat b div 16 < 16" using unat_lt2p [of b] by simp
  moreover have "(of_nat (unat b div 16 * 16 + unat b mod 16) :: byte) = b"
    by (simp only: div_mult_mod_eq) simp
  ultimately show ?case using Cons by (simp del: of_nat_add of_nat_mult)
qed simp

interpretation hex: byte_codec EncodeToString DecodeString "\<lambda>_. True"
  by unfold_locales (simp add: DecodeString_EncodeToString)

section \<open>Strings\<close>

text \<open>\<^verbatim>\<open>strings.SplitN(s, sep, 2)\<close> for a separator of one byte: at most two parts, cut at the first
  separator.\<close>

fun SplitN2 :: "char \<Rightarrow> string \<Rightarrow> string list" where
  "SplitN2 c [] = [[]]"
| "SplitN2 c (x # xs) =
     (if x = c then [[], xs]
      else (case SplitN2 c xs of p # ps \<Rightarrow> (x # p) # ps | [] \<Rightarrow> [[x]]))"

lemma SplitN2_none: "c \<notin> set s \<Longrightarrow> SplitN2 c s = [s]"
  by (induction s) auto

lemma SplitN2_append: "c \<notin> set a \<Longrightarrow> SplitN2 c (a @ c # b) = [a, b]"
  by (induction a) auto

lemma SplitN2_cases:
  obtains "c \<notin> set s" and "SplitN2 c s = [s]"
  | a b where "s = a @ c # b" and "c \<notin> set a" and "SplitN2 c s = [a, b]"
proof (cases "c \<in> set s")
  case True
  then obtain a b where "s = a @ c # b" and "c \<notin> set a" by (meson split_list_first)
  with that(2) show ?thesis by (simp add: SplitN2_append)
next
  case False
  with that(1) show ?thesis by (simp add: SplitN2_none)
qed

text \<open>\<^verbatim>\<open>strings.TrimSpace\<close>: the white space of Unicode, in UTF-8.\<close>

definition utf8_spaces :: "string list" where
  "utf8_spaces =
     [[CHR 9], [CHR 10], [CHR 11], [CHR 12], [CHR 13], [CHR 32],
      [CHR 0xC2, CHR 0x85], [CHR 0xC2, CHR 0xA0], [CHR 0xE1, CHR 0x9A, CHR 0x80]]
     @ map (\<lambda>n. [CHR 0xE2, CHR 0x80, char_of (n :: nat)]) ([0x80..<0x8B] @ [0xA8, 0xA9, 0xAF])
     @ [[CHR 0xE2, CHR 0x81, CHR 0x9F], [CHR 0xE3, CHR 0x80, CHR 0x80]]"

definition space_prefix :: "string list \<Rightarrow> string \<Rightarrow> string option" where
  "space_prefix sps s = find (\<lambda>p. take (length p) s = p \<and> p \<noteq> []) sps"

lemma space_prefix_drop: "space_prefix sps s = Some p \<Longrightarrow> length (drop (length p) s) < length s"
  by (cases s) (auto simp: space_prefix_def find_Some_iff)

function trim_front :: "string list \<Rightarrow> string \<Rightarrow> string" where
  "trim_front sps s =
     (case space_prefix sps s of None \<Rightarrow> s | Some p \<Rightarrow> trim_front sps (drop (length p) s))"
  by pat_completeness auto
termination
  by (relation "measure (\<lambda>(sps, s). length s)") (auto dest: space_prefix_drop)

declare trim_front.simps [simp del]

definition TrimSpace :: "string \<Rightarrow> string" where
  "TrimSpace s = rev (trim_front (map rev utf8_spaces) (rev (trim_front utf8_spaces s)))"

lemma trim_front_no_space: "space_prefix sps (trim_front sps s) = None"
proof (induction sps s rule: trim_front.induct)
  case (1 sps s)
  then show ?case by (cases "space_prefix sps s") (simp_all add: trim_front.simps [of sps s])
qed

section \<open>Decimal integers\<close>

definition ErrSyntax :: "string \<Rightarrow> goerr" where
  "ErrSyntax s = ErrFmt ''strconv.Atoi: parsing %q: invalid syntax'' [ArgStr s]"

definition ErrRange :: "string \<Rightarrow> goerr" where
  "ErrRange s = ErrFmt ''strconv.Atoi: parsing %q: value out of range'' [ArgStr s]"

text \<open>The digit loop of \<^verbatim>\<open>ParseUint\<close>, with its early exit on overflow; \<open>s0\<close> is the whole input,
  which the error quotes.\<close>

fun parse_uint :: "string \<Rightarrow> nat \<Rightarrow> string \<Rightarrow> nat result" where
  "parse_uint s0 acc [] = Inr acc"
| "parse_uint s0 acc (c # cs) =
     (let n = of_char c :: nat in
      if n < 48 \<or> 57 < n then failR (ErrSyntax s0)
      else let acc' = acc * 10 + (n - 48) in
           if 2 ^ 64 \<le> acc' then failR (ErrRange s0) else parse_uint s0 acc' cs)"

definition Atoi :: "string \<Rightarrow> int result" where
  "Atoi s =
     (let neg = (s \<noteq> [] \<and> hd s = CHR ''-'');
          t = (if s \<noteq> [] \<and> (hd s = CHR ''-'' \<or> hd s = CHR ''+'') then tl s else s)
      in if t = [] then failR (ErrSyntax s)
         else bindR (parse_uint s 0 t) (\<lambda>n.
           if neg then (if 2 ^ 63 < n then failR (ErrRange s) else Inr (- int n))
           else (if 2 ^ 63 \<le> n then failR (ErrRange s) else Inr (int n))))"

lemma Atoi_bounds:
  assumes "Atoi s = Inr n"
  shows "- (2 ^ 63) \<le> n" and "n < 2 ^ 63"
  using assms by (auto simp: Atoi_def Let_def bindR_eq_Inr split: if_splits)

end
