(* ===== verification/Offer.thy ===== *)
theory Offer
  imports GoLib
begin

text \<open>
  The swap offer and its wire format: \<^verbatim>\<open>pkg/contract/offer.go\<close>.

  An offer is the record \<open>offer\<close>; \<open>Serialize\<close> writes it as a sequence of type-length-value fields
  and \<open>DeserializeOffer\<close> reads them back with the checks of the source, in the source's order.
  \<open>FulfillScript\<close> and \<open>VtxoScript\<close> are the scripts that lock the deposit.

  Asset identifiers, public keys, the script builder, key tweaking and extension packets belong to
  libraries outside the repository. They are the fields of \<open>contract_lib\<close>, an argument of every
  definition that uses them; the types \<open>'aid\<close> (asset identifier), \<open>'pk\<close> (public key) and \<open>'x\<close> (a
  packet of another protocol) stay abstract.
\<close>

section \<open>Data\<close>

datatype locktime_type = LocktimeTypeBlock | LocktimeTypeSecond

record relative_locktime =
  lt_Type :: locktime_type
  lt_Value :: u32

record ('aid, 'pk) offer =
  SwapPkScript :: bytes
  WantAmount :: u64
  WantAsset :: "'aid option"
  OfferAsset :: "'aid option"
  RatioNum :: u64
  RatioDen :: u64
  CancelAt :: u64
  MakerPkScript :: bytes
  MakerPublicKey :: "'pk option"
  IntrospectorPubkey :: "'pk option"
  ExitDelay :: "relative_locktime option"

definition zero_offer :: "('aid, 'pk) offer" where
  "zero_offer = \<lparr>SwapPkScript = [], WantAmount = 0, WantAsset = None, OfferAsset = None,
     RatioNum = 0, RatioDen = 0, CancelAt = 0, MakerPkScript = [], MakerPublicKey = None,
     IntrospectorPubkey = None, ExitDelay = None\<rparr>"

datatype 'x packet = UnknownPacket byte bytes | OtherPacket 'x

type_synonym 'x extension = "'x packet list"

datatype opcode =
    OP_0 | OP_1 | OP_EQUAL | OP_EQUALVERIFY | OP_VERIFY | OP_GREATERTHANOREQUAL
  | OP_INSPECTOUTPUTSCRIPTPUBKEY | OP_INSPECTOUTPUTVALUE | OP_INSPECTOUTASSETLOOKUP

datatype sbop = AddOp opcode | AddData bytes | AddInt64 int

datatype 'pk closure =
    MultisigClosure "'pk option list"
  | CLTVMultisigClosure "'pk option list" nat
  | CSVMultisigClosure "'pk option list" relative_locktime

record ('aid, 'pk, 'x) contract_lib =
  NewAssetIdFromBytes :: "bytes \<Rightarrow> 'aid result"
  NewAssetIdFromString :: "string \<Rightarrow> 'aid result"
  assetId_Serialize :: "'aid \<Rightarrow> bytes result"
  assetId_Txid :: "'aid \<Rightarrow> bytes"
  assetId_String :: "'aid \<Rightarrow> string"
  schnorr_ParsePubKey :: "bytes \<Rightarrow> 'pk result"
  schnorr_SerializePubKey :: "'pk \<Rightarrow> bytes"
  Script :: "sbop list \<Rightarrow> bytes result"
  ArkadeScriptHash :: "bytes \<Rightarrow> bytes"
  ComputeArkadeScriptPublicKey :: "'pk option \<Rightarrow> bytes \<Rightarrow> 'pk result"
  AbsoluteLocktime :: "u64 \<Rightarrow> nat"
  GetPacketByType :: "'x extension \<Rightarrow> byte \<Rightarrow> 'x packet option"

abbreviation PacketType :: byte where "PacketType \<equiv> 0x03"

abbreviation tlvSwapPkScript :: byte where "tlvSwapPkScript \<equiv> 0x01"
abbreviation tlvWantAmount :: byte where "tlvWantAmount \<equiv> 0x02"
abbreviation tlvWantAsset :: byte where "tlvWantAsset \<equiv> 0x03"
abbreviation tlvCancelDelay :: byte where "tlvCancelDelay \<equiv> 0x04"
abbreviation tlvMakerPkScript :: byte where "tlvMakerPkScript \<equiv> 0x05"
abbreviation tlvMakerPublicKey :: byte where "tlvMakerPublicKey \<equiv> 0x07"
abbreviation tlvIntrospectorPubkey :: byte where "tlvIntrospectorPubkey \<equiv> 0x08"
abbreviation tlvRatioNum :: byte where "tlvRatioNum \<equiv> 0x09"
abbreviation tlvRatioDen :: byte where "tlvRatioDen \<equiv> 0x0a"
abbreviation tlvOfferAsset :: byte where "tlvOfferAsset \<equiv> 0x0b"
abbreviation tlvExitTimelock :: byte where "tlvExitTimelock \<equiv> 0x0c"

section \<open>Decoding\<close>

text \<open>The locals of \<^verbatim>\<open>DeserializeOffer\<close>: the offer being filled and the presence flags.\<close>

record ('aid, 'pk) decode_state =
  ds_offer :: "('aid, 'pk) offer"
  hasSwapPkScript :: bool
  hasWantAmount :: bool
  hasMakerPkScript :: bool
  hasIntrospectorPubkey :: bool

definition init_decode :: "('aid, 'pk) decode_state" where
  "init_decode = \<lparr>ds_offer = zero_offer, hasSwapPkScript = False, hasWantAmount = False,
     hasMakerPkScript = False, hasIntrospectorPubkey = False\<rparr>"

definition upd_offer ::
  "(('aid, 'pk) offer \<Rightarrow> ('aid, 'pk) offer) \<Rightarrow> ('aid, 'pk) decode_state \<Rightarrow> ('aid, 'pk) decode_state"
where "upd_offer f st = st\<lparr>ds_offer := f (ds_offer st)\<rparr>"

definition need_len :: "string \<Rightarrow> nat \<Rightarrow> bytes \<Rightarrow> unit result" where
  "need_len msg n v =
     (if length v \<noteq> n then failR (ErrFmt msg [ArgInt (int (length v))]) else Inr ())"

text \<open>The exit timelock: one byte for the unit (1 is seconds), eight for the delay, of which the
  low 32 bits are kept.\<close>

definition decodeExit :: "bytes \<Rightarrow> relative_locktime result" where
  "decodeExit v = bindR (need_len ''invalid exitTimelock: expected 9 bytes, got %d'' 9 v) (\<lambda>_.
     Inr \<lparr>lt_Type = (if v ! 0 = 1 then LocktimeTypeSecond else LocktimeTypeBlock),
          lt_Value = ucast (Uint64 (drop 1 v))\<rparr>)"

definition applyTLV :: "('aid, 'pk, 'x) contract_lib \<Rightarrow> byte \<Rightarrow> bytes \<Rightarrow>
    ('aid, 'pk) decode_state \<Rightarrow> ('aid, 'pk) decode_state result" where
  "applyTLV L t v st =
     (if t = tlvSwapPkScript then
        Inr (upd_offer (SwapPkScript_update (\<lambda>_. v)) st\<lparr>hasSwapPkScript := True\<rparr>)
      else if t = tlvWantAmount then
        bindR (need_len ''invalid wantAmount: expected 8 bytes, got %d'' 8 v) (\<lambda>_.
          Inr (upd_offer (WantAmount_update (\<lambda>_. Uint64 v)) st\<lparr>hasWantAmount := True\<rparr>))
      else if t = tlvWantAsset then
        bindR (wrapR ''invalid wantAsset'' (NewAssetIdFromBytes L v)) (\<lambda>a.
          Inr (upd_offer (WantAsset_update (\<lambda>_. Some a)) st))
      else if t = tlvCancelDelay then
        bindR (need_len ''invalid cancelDelay: expected 8 bytes, got %d'' 8 v) (\<lambda>_.
          Inr (upd_offer (CancelAt_update (\<lambda>_. Uint64 v)) st))
      else if t = tlvMakerPkScript then
        Inr (upd_offer (MakerPkScript_update (\<lambda>_. v)) st\<lparr>hasMakerPkScript := True\<rparr>)
      else if t = tlvMakerPublicKey then
        bindR (wrapR ''invalid maker public key'' (schnorr_ParsePubKey L v)) (\<lambda>k.
          Inr (upd_offer (MakerPublicKey_update (\<lambda>_. Some k)) st))
      else if t = tlvRatioNum then
        bindR (need_len ''invalid ratioNum: expected 8 bytes, got %d'' 8 v) (\<lambda>_.
          Inr (upd_offer (RatioNum_update (\<lambda>_. Uint64 v)) st))
      else if t = tlvRatioDen then
        bindR (need_len ''invalid ratioDen: expected 8 bytes, got %d'' 8 v) (\<lambda>_.
          Inr (upd_offer (RatioDen_update (\<lambda>_. Uint64 v)) st))
      else if t = tlvOfferAsset then
        bindR (wrapR ''invalid offerAsset'' (NewAssetIdFromBytes L v)) (\<lambda>a.
          Inr (upd_offer (OfferAsset_update (\<lambda>_. Some a)) st))
      else if t = tlvIntrospectorPubkey then
        bindR (need_len ''invalid introspectorPubkey: expected 32 bytes, got %d'' 32 v) (\<lambda>_.
          bindR (wrapR ''invalid introspector public key'' (schnorr_ParsePubKey L v)) (\<lambda>k.
            Inr (upd_offer (IntrospectorPubkey_update (\<lambda>_. Some k)) st
                   \<lparr>hasIntrospectorPubkey := True\<rparr>)))
      else if t = tlvExitTimelock then
        bindR (decodeExit v) (\<lambda>l. Inr (upd_offer (ExitDelay_update (\<lambda>_. Some l)) st))
      else failR (ErrFmt ''unknown TLV type: 0x%02x'' [ArgInt (uint t)]))"

text \<open>The loop over the payload; \<open>data\<close> is what the source's \<^verbatim>\<open>data[offset:]\<close> is.\<close>

function decodeLoop :: "('aid, 'pk, 'x) contract_lib \<Rightarrow> bytes \<Rightarrow> ('aid, 'pk) decode_state \<Rightarrow>
    ('aid, 'pk) decode_state result" where
  "decodeLoop L data st =
     (if data = [] then Inr st
      else if length data < 3 then
        failR (ErrNew ''truncated TLV: not enough bytes for type+length header'')
      else let t = data ! 0; n = unat (Uint16 (drop 1 data)); rest = drop 3 data in
        if length rest < n then
          failR (ErrFmt ''truncated TLV: expected %d bytes for type 0x%02x, got %d''
                  [ArgInt (int n), ArgInt (uint t), ArgInt (int (length rest))])
        else bindR (applyTLV L t (take n rest) st) (\<lambda>st'. decodeLoop L (drop n rest) st'))"
  by pat_completeness auto
termination
  by (relation "measure (\<lambda>(L, data, st). length data)") auto

declare decodeLoop.simps [simp del]

definition checkRequired :: "('aid, 'pk) decode_state \<Rightarrow> ('aid, 'pk) offer result" where
  "checkRequired st =
     (if \<not> hasSwapPkScript st then failR (ErrNew ''missing required field: swapPkScript'')
      else if \<not> hasWantAmount st then failR (ErrNew ''missing required field: wantAmount'')
      else if \<not> hasMakerPkScript st then failR (ErrNew ''missing required field: makerPkScript'')
      else if \<not> hasIntrospectorPubkey st then
        failR (ErrNew ''missing required field: introspectorPubkey'')
      else bindR (need_len ''invalid makerPkScript: expected 34 bytes, got %d'' 34
                    (MakerPkScript (ds_offer st))) (\<lambda>_. Inr (ds_offer st)))"

definition DeserializeOffer :: "('aid, 'pk, 'x) contract_lib \<Rightarrow> bytes \<Rightarrow> ('aid, 'pk) offer result"
where "DeserializeOffer L data = bindR (decodeLoop L data init_decode) checkRequired"

section \<open>Encoding\<close>

definition encodeTLV :: "byte \<Rightarrow> bytes \<Rightarrow> bytes" where
  "encodeTLV t v = t # PutUint16 (of_nat (length v)) @ v"

definition encodeExit :: "relative_locktime \<Rightarrow> bytes" where
  "encodeExit l =
     (if lt_Type l = LocktimeTypeSecond then 1 else 0) # PutUint64 (ucast (lt_Value l))"

definition encodeAsset ::
  "('aid, 'pk, 'x) contract_lib \<Rightarrow> string \<Rightarrow> byte \<Rightarrow> 'aid option \<Rightarrow> bytes result" where
  "encodeAsset L msg t a = (case a of None \<Rightarrow> Inr []
     | Some aid \<Rightarrow> bindR (wrapR msg (assetId_Serialize L aid)) (\<lambda>b. Inr (encodeTLV t b)))"

definition encodeNonzero :: "byte \<Rightarrow> u64 \<Rightarrow> bytes" where
  "encodeNonzero t n = (if n > 0 then encodeTLV t (PutUint64 n) else [])"

definition encodeKey ::
  "('aid, 'pk, 'x) contract_lib \<Rightarrow> byte \<Rightarrow> 'pk option \<Rightarrow> bytes" where
  "encodeKey L t k = (case k of None \<Rightarrow> [] | Some pk \<Rightarrow> encodeTLV t (schnorr_SerializePubKey L pk))"

definition Serialize :: "('aid, 'pk, 'x) contract_lib \<Rightarrow> ('aid, 'pk) offer \<Rightarrow> bytes result" where
  "Serialize L o' =
     bindR (encodeAsset L ''failed to serialize wantAsset'' tlvWantAsset (WantAsset o')) (\<lambda>want.
     bindR (encodeAsset L ''failed to serialize offerAsset'' tlvOfferAsset (OfferAsset o')) (\<lambda>off.
       Inr (encodeTLV tlvSwapPkScript (SwapPkScript o')
          @ encodeTLV tlvWantAmount (PutUint64 (WantAmount o'))
          @ want
          @ encodeNonzero tlvRatioNum (RatioNum o')
          @ encodeNonzero tlvRatioDen (RatioDen o')
          @ off
          @ encodeNonzero tlvCancelDelay (CancelAt o')
          @ encodeTLV tlvMakerPkScript (MakerPkScript o')
          @ encodeKey L tlvMakerPublicKey (MakerPublicKey o')
          @ encodeKey L tlvIntrospectorPubkey (IntrospectorPubkey o')
          @ (case ExitDelay o' of None \<Rightarrow> [] | Some l \<Rightarrow> encodeTLV tlvExitTimelock (encodeExit l)))))"

definition ToPacket :: "('aid, 'pk, 'x) contract_lib \<Rightarrow> ('aid, 'pk) offer \<Rightarrow> 'x packet result" where
  "ToPacket L o' = bindR (Serialize L o') (\<lambda>data. Inr (UnknownPacket PacketType data))"

section \<open>Scripts\<close>

definition scriptPubKeyCheck :: "bytes \<Rightarrow> sbop list" where
  "scriptPubKeyCheck prog =
     [AddOp OP_0, AddOp OP_INSPECTOUTPUTSCRIPTPUBKEY, AddOp OP_1, AddOp OP_EQUALVERIFY,
      AddData prog, AddOp OP_EQUAL]"

definition fulfillOps ::
  "('aid, 'pk, 'x) contract_lib \<Rightarrow> ('aid, 'pk) offer \<Rightarrow> sbop list result" where
  "fulfillOps L o' =
     (if length (MakerPkScript o') < 2 then Inl (Panic ''slice bounds out of range'')
      else let prog = drop 2 (MakerPkScript o') in
        Inr (case WantAsset o' of
          None \<Rightarrow> [AddOp OP_0, AddOp OP_INSPECTOUTPUTVALUE, AddInt64 (sint (WantAmount o')),
                   AddOp OP_GREATERTHANOREQUAL, AddOp OP_VERIFY] @ scriptPubKeyCheck prog
        | Some a \<Rightarrow> [AddOp OP_0, AddData (assetId_Txid L a), AddOp OP_0,
                     AddOp OP_INSPECTOUTASSETLOOKUP, AddOp OP_VERIFY,
                     AddInt64 (sint (WantAmount o')), AddOp OP_GREATERTHANOREQUAL, AddOp OP_VERIFY]
                    @ scriptPubKeyCheck prog))"

definition FulfillScript ::
  "('aid, 'pk, 'x) contract_lib \<Rightarrow> ('aid, 'pk) offer \<Rightarrow> bytes result" where
  "FulfillScript L o' = bindR (fulfillOps L o') (Script L)"

definition VtxoScript ::
  "('aid, 'pk, 'x) contract_lib \<Rightarrow> ('aid, 'pk) offer \<Rightarrow> 'pk option \<Rightarrow> 'pk closure list result" where
  "VtxoScript L s server =
     bindR (FulfillScript L s) (\<lambda>fulfillScript.
     bindR (ComputeArkadeScriptPublicKey L (IntrospectorPubkey s)
              (ArkadeScriptHash L fulfillScript)) (\<lambda>tweakedKey.
       Inr ([MultisigClosure [server, Some tweakedKey]]
          @ (if CancelAt s > 0
             then [CLTVMultisigClosure [MakerPublicKey s, server] (AbsoluteLocktime L (CancelAt s))]
             else [])
          @ (case ExitDelay s of None \<Rightarrow> []
             | Some d \<Rightarrow> [CSVMultisigClosure [MakerPublicKey s, server] d]))))"

fun closure_keys :: "'pk closure \<Rightarrow> 'pk option list" where
  "closure_keys (MultisigClosure ks) = ks"
| "closure_keys (CLTVMultisigClosure ks _) = ks"
| "closure_keys (CSVMultisigClosure ks _) = ks"

definition FindBancoOffer ::
  "('aid, 'pk, 'x) contract_lib \<Rightarrow> 'x extension \<Rightarrow> ('aid, 'pk) offer option result" where
  "FindBancoOffer L ext =
     (case GetPacketByType L ext PacketType of
        None \<Rightarrow> Inr None
      | Some (UnknownPacket _ data) \<Rightarrow> bindR (DeserializeOffer L data) (\<lambda>o'. Inr (Some o'))
      | Some (OtherPacket _) \<Rightarrow>
          failR (ErrFmt ''banco offer packet (type 0x%02x) has unexpected concrete type %T''
                   [ArgInt (uint PacketType)]))"

section \<open>The payload as a sequence of fields\<close>

definition encodeTLVs :: "(byte \<times> bytes) list \<Rightarrow> bytes" where
  "encodeTLVs ts = concat (map (\<lambda>(t, v). encodeTLV t v) ts)"

fun foldTLV :: "('aid, 'pk, 'x) contract_lib \<Rightarrow> (byte \<times> bytes) list \<Rightarrow>
    ('aid, 'pk) decode_state \<Rightarrow> ('aid, 'pk) decode_state result" where
  "foldTLV L [] st = Inr st"
| "foldTLV L ((t, v) # ts) st = bindR (applyTLV L t v st) (foldTLV L ts)"

lemma encodeTLVs_simps [simp]:
  "encodeTLVs [] = []"
  "encodeTLVs ((t, v) # ts) = encodeTLV t v @ encodeTLVs ts"
  by (simp_all add: encodeTLVs_def)

lemma decodeLoop_Nil [simp]: "decodeLoop L [] st = Inr st"
  by (simp add: decodeLoop.simps)

lemma unat_length_u16: "length v < 65536 \<Longrightarrow> unat (of_nat (length v) :: u16) = length v"
  by (rule unat_of_nat_less) simp

lemma Uint16_encoded: "length v < 65536 \<Longrightarrow>
    unat (Uint16 (PutUint16 (of_nat (length v)) @ xs)) = length v"
  using Uint16_PutUint16 [of "of_nat (length v)"] by (simp add: Uint16_def unat_length_u16)

lemma decodeLoop_encodeTLV [codec_simps]:
  assumes "length v < 65536"
  shows "decodeLoop L (encodeTLV t v @ rest) st
       = bindR (applyTLV L t v st) (\<lambda>st'. decodeLoop L rest st')"
proof -
  have drop: "drop 3 (encodeTLV t v @ rest) = v @ rest"
    by (simp add: encodeTLV_def numeral_3_eq_3)
  show ?thesis
    using assms Uint16_encoded [OF assms, of "v @ rest"]
    by (subst decodeLoop.simps) (simp add: Let_def drop, simp add: encodeTLV_def)
qed

lemma decodeLoop_encodeTLVs:
  "\<forall>(t, v) \<in> set ts. length v < 65536 \<Longrightarrow> decodeLoop L (encodeTLVs ts) st = foldTLV L ts st"
proof (induction ts arbitrary: st)
  case (Cons x ts)
  obtain t v where x: "x = (t, v)" by fastforce
  with Cons have "decodeLoop L (encodeTLVs ts) = foldTLV L ts" by auto
  with Cons.prems x show ?case by (simp add: decodeLoop_encodeTLV)
qed simp

text \<open>Conversely, a payload the loop accepts is such a sequence: the header's two length bytes are
  the encoding of the length they denote.\<close>

lemma PutUint16_Uint16: "length bs = 2 \<Longrightarrow> PutUint16 (Uint16 bs) = bs"
proof -
  assume len: "length bs = 2"
  then have "be_val bs < 2 ^ LENGTH(16)" using be_val_less [of bs] by simp
  then have "unat (of_nat (be_val bs) :: u16) = be_val bs" by (rule unat_of_nat_less)
  then show ?thesis using be_digits_be_val [of bs] len by (simp add: PutUint16_def Uint16_def)
qed

lemma Uint16_take: "Uint16 (take 2 bs) = Uint16 bs"
  by (simp add: Uint16_def)

lemma tlv_decompose:
  assumes "3 \<le> length data" and n: "n = unat (Uint16 (drop 1 data))"
    and "n \<le> length (drop 3 data)"
  shows "data = encodeTLV (data ! 0) (take n (drop 3 data)) @ drop n (drop 3 data)"
proof -
  obtain t a b rest where data: "data = t # a # b # rest"
    using assms(1) by (metis Suc_le_length_iff numeral_3_eq_3)
  have "PutUint16 (of_nat n) = [a, b]"
    using PutUint16_Uint16 [of "[a, b]"] Uint16_take [of "drop 1 data"] data n by simp
  then show ?thesis using assms(3) data by (simp add: encodeTLV_def min_def)
qed

lemma decodeLoop_Inr:
  assumes "decodeLoop L data st = Inr st'"
  shows "\<exists>ts. data = encodeTLVs ts \<and> (\<forall>(t, v) \<in> set ts. length v < 65536)"
  using assms
proof (induction L data st rule: decodeLoop.induct)
  case (1 L data st)
  let ?n = "unat (Uint16 (drop 1 data))" and ?rest = "drop 3 data"
  show ?case
  proof (cases "data = []")
    case True
    then show ?thesis by (intro exI [of _ "[]"]) simp
  next
    case False
    with "1.prems" have len: "3 \<le> length data" and n: "?n \<le> length ?rest"
      by (auto simp: decodeLoop.simps [of L data st] Let_def split: if_splits)
    with "1.prems" False obtain st1 where "applyTLV L (data ! 0) (take ?n ?rest) st = Inr st1"
      and "decodeLoop L (drop ?n ?rest) st1 = Inr st'"
      by (auto simp: decodeLoop.simps [of L data st] Let_def bindR_eq_Inr split: if_splits)
    with "1.IH" False len n obtain ts where ts: "drop ?n ?rest = encodeTLVs ts"
      "\<forall>(t, v) \<in> set ts. length v < 65536" by (metis leD)
    have "data = encodeTLVs ((data ! 0, take ?n ?rest) # ts)"
      using tlv_decompose [OF len refl n] ts(1) by simp
    moreover have "length (take ?n ?rest) < 65536"
      using unat_Uint16_less [of "drop 1 data"] by simp
    ultimately show ?thesis using ts(2) by (intro exI [of _ "(data ! 0, take ?n ?rest) # ts"]) auto
  qed
qed

section \<open>Declarative reading of a payload\<close>

text \<open>A payload means the finite map of its fields, the last one of each type winning.\<close>

definition valid_field :: "('aid, 'pk, 'x) contract_lib \<Rightarrow> byte \<Rightarrow> bytes \<Rightarrow> bool" where
  "valid_field L t v \<longleftrightarrow>
     (t = tlvSwapPkScript \<or> t = tlvMakerPkScript)
   \<or> (t \<in> {tlvWantAmount, tlvCancelDelay, tlvRatioNum, tlvRatioDen} \<and> length v = 8)
   \<or> (t \<in> {tlvWantAsset, tlvOfferAsset} \<and> (\<exists>a. NewAssetIdFromBytes L v = Inr a))
   \<or> (t = tlvMakerPublicKey \<and> (\<exists>k. schnorr_ParsePubKey L v = Inr k))
   \<or> (t = tlvIntrospectorPubkey \<and> length v = 32 \<and> (\<exists>k. schnorr_ParsePubKey L v = Inr k))
   \<or> (t = tlvExitTimelock \<and> length v = 9)"

definition offer_of_fields ::
  "('aid, 'pk, 'x) contract_lib \<Rightarrow> (byte \<rightharpoonup> bytes) \<Rightarrow> ('aid, 'pk) offer" where
  "offer_of_fields L m =
     (let bts = \<lambda>t. case_option [] id (m t); num = \<lambda>t. case_option 0 Uint64 (m t);
          aid = \<lambda>t. map_option (projr \<circ> NewAssetIdFromBytes L) (m t);
          key = \<lambda>t. map_option (projr \<circ> schnorr_ParsePubKey L) (m t) in
      \<lparr>SwapPkScript = bts tlvSwapPkScript, WantAmount = num tlvWantAmount,
       WantAsset = aid tlvWantAsset, OfferAsset = aid tlvOfferAsset,
       RatioNum = num tlvRatioNum, RatioDen = num tlvRatioDen, CancelAt = num tlvCancelDelay,
       MakerPkScript = bts tlvMakerPkScript, MakerPublicKey = key tlvMakerPublicKey,
       IntrospectorPubkey = key tlvIntrospectorPubkey,
       ExitDelay = map_option (projr \<circ> decodeExit) (m tlvExitTimelock)\<rparr>)"

definition required_fields :: "(byte \<rightharpoonup> bytes) \<Rightarrow> bool" where
  "required_fields m \<longleftrightarrow> m tlvSwapPkScript \<noteq> None \<and> m tlvWantAmount \<noteq> None
     \<and> m tlvIntrospectorPubkey \<noteq> None \<and> (\<exists>v. m tlvMakerPkScript = Some v \<and> length v = 34)"

definition state_of_fields ::
  "('aid, 'pk, 'x) contract_lib \<Rightarrow> (byte \<rightharpoonup> bytes) \<Rightarrow> ('aid, 'pk) decode_state" where
  "state_of_fields L m =
     \<lparr>ds_offer = offer_of_fields L m, hasSwapPkScript = (m tlvSwapPkScript \<noteq> None),
      hasWantAmount = (m tlvWantAmount \<noteq> None), hasMakerPkScript = (m tlvMakerPkScript \<noteq> None),
      hasIntrospectorPubkey = (m tlvIntrospectorPubkey \<noteq> None)\<rparr>"

lemmas fields_defs = state_of_fields_def offer_of_fields_def upd_offer_def Let_def

lemma state_of_fields_empty: "state_of_fields L Map.empty = init_decode"
  by (simp add: fields_defs init_decode_def zero_offer_def)

lemma need_len_simps [simp]:
  "length v = n \<Longrightarrow> need_len msg n v = Inr ()"
  "length v \<noteq> n \<Longrightarrow> need_len msg n v = failR (ErrFmt msg [ArgInt (int (length v))])"
  by (simp_all add: need_len_def)

lemma applyTLV_valid:
  assumes "valid_field L t v"
  shows "applyTLV L t v (state_of_fields L m) = Inr (state_of_fields L (m(t \<mapsto> v)))"
  using assms unfolding valid_field_def insert_iff empty_iff
  by (elim disjE conjE exE) (simp_all add: applyTLV_def fields_defs decodeExit_def)

lemma applyTLV_invalid: "\<not> valid_field L t v \<Longrightarrow> applyTLV L t v st \<noteq> Inr st'"
  by (auto simp: valid_field_def applyTLV_def decodeExit_def bindR_eq_Inr wrapR_eq_Inr need_len_def
      split: if_splits)

lemma foldTLV_state_of_fields:
  "\<forall>(t, v) \<in> set ts. valid_field L t v \<Longrightarrow>
   foldTLV L ts (state_of_fields L m) = Inr (state_of_fields L (m ++ map_of (rev ts)))"
proof (induction ts arbitrary: m)
  case (Cons x ts)
  obtain t v where x: "x = (t, v)" by fastforce
  have "m ++ map_of (rev (x # ts)) = m(t \<mapsto> v) ++ map_of (rev ts)"
    by (auto simp: x fun_eq_iff map_add_def split: option.splits)
  moreover from Cons.prems x have "valid_field L t v" and "\<forall>(t, v) \<in> set ts. valid_field L t v"
    by auto
  ultimately show ?case by (simp only: x foldTLV.simps applyTLV_valid bindR_Inr Cons.IH)
qed simp

lemma foldTLV_Inr_valid: "foldTLV L ts st = Inr st' \<Longrightarrow> \<forall>(t, v) \<in> set ts. valid_field L t v"
proof (induction L ts st rule: foldTLV.induct)
  case (2 L t v ts st)
  then obtain st1 where "applyTLV L t v st = Inr st1" and "foldTLV L ts st1 = Inr st'"
    by (auto simp: bindR_eq_Inr)
  with "2.IH" applyTLV_invalid [of L t v st] show ?case by auto
qed simp

lemma checkRequired_fields:
  "checkRequired (state_of_fields L m) = Inr o' \<longleftrightarrow> required_fields m \<and> o' = offer_of_fields L m"
  by (auto simp: checkRequired_def required_fields_def state_of_fields_def bindR_eq_Inr need_len_def
      offer_of_fields_def Let_def split: if_splits)

section \<open>Round trip\<close>

text \<open>What a round trip needs of the libraries, for the values in an offer: an asset identifier
  parses back from its serialisation, and a key from its 32-byte x-only form.\<close>

definition asset_roundtrips :: "('aid, 'pk, 'x) contract_lib \<Rightarrow> 'aid \<Rightarrow> bool" where
  "asset_roundtrips L a \<longleftrightarrow> (case assetId_Serialize L a of Inl _ \<Rightarrow> False
     | Inr bs \<Rightarrow> length bs < 65536 \<and> NewAssetIdFromBytes L bs = Inr a)"

definition key_roundtrips :: "('aid, 'pk, 'x) contract_lib \<Rightarrow> 'pk \<Rightarrow> bool" where
  "key_roundtrips L k \<longleftrightarrow> length (schnorr_SerializePubKey L k) = 32
     \<and> schnorr_ParsePubKey L (schnorr_SerializePubKey L k) = Inr k"

definition wf_offer :: "('aid, 'pk, 'x) contract_lib \<Rightarrow> ('aid, 'pk) offer \<Rightarrow> bool" where
  "wf_offer L o' \<longleftrightarrow> length (SwapPkScript o') < 65536 \<and> length (MakerPkScript o') = 34
     \<and> IntrospectorPubkey o' \<noteq> None
     \<and> pred_option (asset_roundtrips L) (WantAsset o')
     \<and> pred_option (asset_roundtrips L) (OfferAsset o')
     \<and> pred_option (key_roundtrips L) (MakerPublicKey o')
     \<and> pred_option (key_roundtrips L) (IntrospectorPubkey o')"

lemma decodeExit_encodeExit [codec_simps]: "decodeExit (encodeExit l) = Inr l"
proof -
  have "(ucast (ucast v :: u64) :: u32) = v" for v :: u32 by transfer simp
  then have "(ucast (Uint64 (PutUint64 (ucast (lt_Value l)))) :: u32) = lt_Value l"
    by (simp only: Uint64_PutUint64)
  moreover have "length (encodeExit l) = 9" by (simp add: encodeExit_def)
  ultimately show ?thesis
    by (cases l; cases "lt_Type l") (simp_all add: decodeExit_def, simp_all add: encodeExit_def)
qed

interpretation exit_codec: byte_codec encodeExit decodeExit "\<lambda>_. True"
  by unfold_locales (simp add: decodeExit_encodeExit)

lemma encodeAsset_ok:
  assumes "pred_option (asset_roundtrips L) a"
  obtains bs where "encodeAsset L msg t a = Inr (case_option [] (\<lambda>_. encodeTLV t bs) a)"
    and "length bs < 65536" and "a \<noteq> None \<Longrightarrow> NewAssetIdFromBytes L bs = Inr (the a)"
proof (cases a)
  case None
  with that [of "[]"] show ?thesis by (simp add: encodeAsset_def)
next
  case (Some aid)
  with assms obtain bs where "assetId_Serialize L aid = Inr bs" "length bs < 65536"
    "NewAssetIdFromBytes L bs = Inr aid" by (auto simp: asset_roundtrips_def split: sum.splits)
  with Some that [of bs] show ?thesis by (simp add: encodeAsset_def)
qed

text \<open>The fields \<open>Serialize\<close> writes, in order and with the absent ones, given the serialised
  assets.\<close>

fun present :: "(byte \<times> bytes option) list \<Rightarrow> (byte \<times> bytes) list" where
  "present [] = []"
| "present ((t, None) # fs) = present fs"
| "present ((t, Some v) # fs) = (t, v) # present fs"

definition nonzero_field :: "u64 \<Rightarrow> bytes option" where
  "nonzero_field n = (if n > 0 then Some (PutUint64 n) else None)"

definition offer_fields :: "('aid, 'pk, 'x) contract_lib \<Rightarrow> ('aid, 'pk) offer \<Rightarrow> bytes \<Rightarrow> bytes \<Rightarrow>
    (byte \<times> bytes option) list" where
  "offer_fields L o' want off =
     [(tlvSwapPkScript, Some (SwapPkScript o')),
      (tlvWantAmount, Some (PutUint64 (WantAmount o'))),
      (tlvWantAsset, map_option (\<lambda>_. want) (WantAsset o')),
      (tlvRatioNum, nonzero_field (RatioNum o')),
      (tlvRatioDen, nonzero_field (RatioDen o')),
      (tlvOfferAsset, map_option (\<lambda>_. off) (OfferAsset o')),
      (tlvCancelDelay, nonzero_field (CancelAt o')),
      (tlvMakerPkScript, Some (MakerPkScript o')),
      (tlvMakerPublicKey, map_option (schnorr_SerializePubKey L) (MakerPublicKey o')),
      (tlvIntrospectorPubkey, map_option (schnorr_SerializePubKey L) (IntrospectorPubkey o')),
      (tlvExitTimelock, map_option encodeExit (ExitDelay o'))]"

lemma set_present: "(t, v) \<in> set (present fs) \<longleftrightarrow> (t, Some v) \<in> set fs"
  by (induction fs rule: present.induct) auto

lemma map_of_present: "distinct (map fst fs) \<Longrightarrow> (t, x) \<in> set fs \<Longrightarrow> map_of (rev (present fs)) t = x"
proof (cases x)
  case None
  assume *: "distinct (map fst fs)" "(t, x) \<in> set fs"
  have "t \<notin> fst ` set (present fs)"
  proof
    assume "t \<in> fst ` set (present fs)"
    then obtain v where "(t, Some v) \<in> set fs" by (auto simp: set_present)
    with * None show False by (auto dest: eq_key_imp_eq_value)
  qed
  then show ?thesis by (simp add: None map_of_eq_None_iff)
next
  case (Some v)
  assume *: "distinct (map fst fs)" "(t, x) \<in> set fs"
  have "distinct (map fst (present fs))" using *(1)
    by (induction fs rule: present.induct) (force simp: set_present image_iff)+
  moreover have "(t, v) \<in> set (present fs)" using * Some by (simp add: set_present)
  ultimately show ?thesis by (simp add: Some map_of_eq_Some_iff rev_map [symmetric])
qed

lemma encodeTLVs_present_Cons:
  "encodeTLVs (present ((t, x) # fs)) = case_option [] (encodeTLV t) x @ encodeTLVs (present fs)"
  by (cases x) simp_all

lemma encodeNonzero_field: "encodeNonzero t n = case_option [] (encodeTLV t) (nonzero_field n)"
  by (simp add: encodeNonzero_def nonzero_field_def)

lemma Serialize_fields:
  assumes "encodeAsset L ''failed to serialize wantAsset'' tlvWantAsset (WantAsset o')
           = Inr (case_option [] (\<lambda>_. encodeTLV tlvWantAsset want) (WantAsset o'))"
    and "encodeAsset L ''failed to serialize offerAsset'' tlvOfferAsset (OfferAsset o')
           = Inr (case_option [] (\<lambda>_. encodeTLV tlvOfferAsset off) (OfferAsset o'))"
  shows "Serialize L o' = Inr (encodeTLVs (present (offer_fields L o' want off)))"
  unfolding Serialize_def offer_fields_def encodeTLVs_present_Cons encodeNonzero_field assms bindR_Inr
  by (simp add: encodeKey_def cong: option.case_cong)

lemma length_encodeExit [simp]: "length (encodeExit l) = 9"
  by (simp add: encodeExit_def)

lemma offer_fields_valid:
  assumes "wf_offer L o'"
    and "WantAsset o' \<noteq> None \<Longrightarrow> NewAssetIdFromBytes L want = Inr (the (WantAsset o'))"
    and "OfferAsset o' \<noteq> None \<Longrightarrow> NewAssetIdFromBytes L off = Inr (the (OfferAsset o'))"
    and "length want < 65536" and "length off < 65536"
  shows "\<forall>(t, v) \<in> set (present (offer_fields L o' want off)). length v < 65536 \<and> valid_field L t v"
proof clarify
  fix t v assume "(t, v) \<in> set (present (offer_fields L o' want off))"
  then have "(t, Some v) \<in> set (offer_fields L o' want off)" by (simp add: set_present)
  with assms show "length v < 65536 \<and> valid_field L t v"
    unfolding offer_fields_def list.set insert_iff empty_iff
    by (elim disjE)
       (auto simp: valid_field_def wf_offer_def key_roundtrips_def nonzero_field_def
         eq_commute [of "Some v"] split: if_splits)
qed

lemma offer_fields_lookup:
  "(t, x) \<in> set (offer_fields L o' want off) \<Longrightarrow>
   map_of (rev (present (offer_fields L o' want off))) t = x"
  by (rule map_of_present) (simp add: offer_fields_def)

lemma offer_of_offer_fields:
  assumes "wf_offer L o'"
    and want: "WantAsset o' \<noteq> None \<Longrightarrow> NewAssetIdFromBytes L want = Inr (the (WantAsset o'))"
    and off: "OfferAsset o' \<noteq> None \<Longrightarrow> NewAssetIdFromBytes L off = Inr (the (OfferAsset o'))"
  defines "m \<equiv> map_of (rev (present (offer_fields L o' want off)))"
  shows "required_fields m" and "offer_of_fields L m = o'"
proof -
  note look = offer_fields_lookup [of _ _ L o' want off, folded m_def, unfolded offer_fields_def]
  show "required_fields m"
    using assms(1) by (auto simp: required_fields_def wf_offer_def look)
  have key: "map_option (projr \<circ> schnorr_ParsePubKey L) (map_option (schnorr_SerializePubKey L) k) = k"
    if "pred_option (key_roundtrips L) k" for k
    using that by (cases k) (auto simp: key_roundtrips_def)
  have num: "case_option 0 Uint64 (nonzero_field n) = n" for n
    by (simp add: nonzero_field_def Uint64_PutUint64 word_gt_0)
  have asset: "map_option (projr \<circ> NewAssetIdFromBytes L) (map_option (\<lambda>_. bs) a) = a"
    if "a \<noteq> None \<Longrightarrow> NewAssetIdFromBytes L bs = Inr (the a)" for a bs
    using that by (cases a) auto
  have exit: "map_option (projr \<circ> decodeExit) (map_option encodeExit d) = d" for d
    by (cases d) (simp_all add: decodeExit_encodeExit)
  show "offer_of_fields L m = o'"
    using assms(1)
    by (simp add: offer_of_fields_def Let_def look key num asset [OF want] asset [OF off] exit
        wf_offer_def Uint64_PutUint64)
qed

section \<open>A concrete library\<close>

text \<open>One instance of the outside libraries, for evaluation: an asset identifier is its 34-byte
  serialisation and a key its 32-byte x-only form.\<close>

definition sample_op :: "sbop \<Rightarrow> bytes" where
  "sample_op x = (case x of AddOp OP_0 \<Rightarrow> [0] | AddOp OP_1 \<Rightarrow> [0x51] | AddOp _ \<Rightarrow> [0xb0]
     | AddData d \<Rightarrow> of_nat (length d) # d | AddInt64 n \<Rightarrow> PutUint64 (word_of_int n))"

definition sample_lib :: "(bytes, bytes, unit) contract_lib" where
  "sample_lib =
     \<lparr>NewAssetIdFromBytes = (\<lambda>v. if length v = 34 then Inr v else failR (ErrExt ''asset id length'')),
      NewAssetIdFromString = (\<lambda>s. bindR (DecodeString s) (\<lambda>v.
        if length v = 34 then Inr v else failR (ErrExt ''asset id length''))),
      assetId_Serialize = (\<lambda>a. Inr a), assetId_Txid = take 32, assetId_String = EncodeToString,
      schnorr_ParsePubKey = (\<lambda>v. if length v = 32 then Inr v else failR (ErrExt ''key length'')),
      schnorr_SerializePubKey = (\<lambda>k. k),
      Script = (\<lambda>ops. Inr (concat (map sample_op ops))),
      ArkadeScriptHash = (\<lambda>s. take 32 s),
      ComputeArkadeScriptPublicKey =
        (\<lambda>k h. case k of None \<Rightarrow> Inl (Panic ''nil public key'') | Some x \<Rightarrow> Inr (x @ h)),
      AbsoluteLocktime = unat,
      GetPacketByType = (\<lambda>ext t. find (\<lambda>p. case p of UnknownPacket u _ \<Rightarrow> u = t | _ \<Rightarrow> False) ext)\<rparr>"

definition sample_offer :: "(bytes, bytes) offer" where
  "sample_offer = zero_offer\<lparr>SwapPkScript := 0x51 # 0x20 # replicate 32 1, WantAmount := 1000,
     WantAsset := Some (replicate 34 7), CancelAt := 1700000000,
     MakerPkScript := 0x51 # 0x20 # replicate 32 2, MakerPublicKey := Some (replicate 32 3),
     IntrospectorPubkey := Some (replicate 32 4),
     ExitDelay := Some \<lparr>lt_Type = LocktimeTypeSecond, lt_Value = 512\<rparr>\<rparr>"

lemma sample_offer_wf: "wf_offer sample_lib sample_offer"
  by (simp add: wf_offer_def sample_offer_def sample_lib_def zero_offer_def asset_roundtrips_def
      key_roundtrips_def)

section \<open>Acceptance and round trip, for use by the clients\<close>

lemma DeserializeOffer_fields:
  assumes "DeserializeOffer L data = Inr o'"
  obtains ts where "data = encodeTLVs ts"
    and "list_all (\<lambda>(t, v). length v < 65536 \<and> valid_field L t v) ts"
    and "required_fields (map_of (rev ts))" and "o' = offer_of_fields L (map_of (rev ts))"
proof -
  from assms obtain st where loop: "decodeLoop L data init_decode = Inr st"
    and req: "checkRequired st = Inr o'"
    by (auto simp: DeserializeOffer_def bindR_eq_Inr)
  from decodeLoop_Inr [OF loop] obtain ts where ts: "data = encodeTLVs ts"
    and len: "\<forall>(t, v) \<in> set ts. length v < 65536" by blast
  have fold: "foldTLV L ts init_decode = Inr st"
    using loop decodeLoop_encodeTLVs [OF len, of L init_decode] ts by simp
  then have valid: "\<forall>(t, v) \<in> set ts. valid_field L t v" by (rule foldTLV_Inr_valid)
  from foldTLV_state_of_fields [OF valid, of Map.empty] fold
  have "st = state_of_fields L (map_of (rev ts))" by (simp add: state_of_fields_empty)
  with req have "required_fields (map_of (rev ts))" "o' = offer_of_fields L (map_of (rev ts))"
    by (simp_all add: checkRequired_fields)
  moreover have "list_all (\<lambda>(t, v). length v < 65536 \<and> valid_field L t v) ts"
    using len valid by (auto simp: list_all_iff)
  ultimately show ?thesis using that ts by blast
qed

lemma DeserializeOffer_encodeTLVs:
  assumes "list_all (\<lambda>(t, v). length v < 65536 \<and> valid_field L t v) ts"
    and "required_fields (map_of (rev ts))"
  shows "DeserializeOffer L (encodeTLVs ts) = Inr (offer_of_fields L (map_of (rev ts)))"
proof -
  from assms(1) have "\<forall>(t, v) \<in> set ts. length v < 65536" "\<forall>(t, v) \<in> set ts. valid_field L t v"
    by (auto simp: list_all_iff)
  then have "decodeLoop L (encodeTLVs ts) init_decode = Inr (state_of_fields L (map_of (rev ts)))"
    using foldTLV_state_of_fields [of ts L Map.empty]
    by (simp add: decodeLoop_encodeTLVs state_of_fields_empty)
  with assms(2) show ?thesis by (simp add: DeserializeOffer_def checkRequired_fields)
qed

lemma serialize_roundtrip:
  assumes "wf_offer L o'"
  obtains data where "Serialize L o' = Inr data" and "DeserializeOffer L data = Inr o'"
proof -
  from assms have "pred_option (asset_roundtrips L) (WantAsset o')"
    "pred_option (asset_roundtrips L) (OfferAsset o')" by (simp_all add: wf_offer_def)
  then obtain want off where
    want: "encodeAsset L ''failed to serialize wantAsset'' tlvWantAsset (WantAsset o')
        = Inr (case_option [] (\<lambda>_. encodeTLV tlvWantAsset want) (WantAsset o'))"
      "length want < 65536"
      "WantAsset o' \<noteq> None \<Longrightarrow> NewAssetIdFromBytes L want = Inr (the (WantAsset o'))"
    and off: "encodeAsset L ''failed to serialize offerAsset'' tlvOfferAsset (OfferAsset o')
        = Inr (case_option [] (\<lambda>_. encodeTLV tlvOfferAsset off) (OfferAsset o'))"
      "length off < 65536"
      "OfferAsset o' \<noteq> None \<Longrightarrow> NewAssetIdFromBytes L off = Inr (the (OfferAsset o'))"
    by (elim encodeAsset_ok) blast
  let ?ts = "present (offer_fields L o' want off)"
  have "list_all (\<lambda>(t, v). length v < 65536 \<and> valid_field L t v) ?ts"
    using offer_fields_valid [OF assms want(3) off(3) want(2) off(2)] by (simp add: list_all_iff)
  then have "DeserializeOffer L (encodeTLVs ?ts) = Inr o'"
    using offer_of_offer_fields [OF assms want(3) off(3)] by (simp add: DeserializeOffer_encodeTLVs)
  with that Serialize_fields [OF want(1) off(1)] show ?thesis by blast
qed

definition sample_data :: bytes where
  "sample_data = projr (Serialize sample_lib sample_offer)"

lemma sample_data_decodes:
  "Serialize sample_lib sample_offer = Inr sample_data"
  "DeserializeOffer sample_lib sample_data = Inr sample_offer"
  using sample_offer_wf by (auto elim!: serialize_roundtrip simp: sample_data_def)

lemma DeserializeOffer_required:
  assumes "DeserializeOffer L data = Inr o'"
  shows "length (MakerPkScript o') = 34" and "IntrospectorPubkey o' \<noteq> None"
  using assms
  by (auto elim!: DeserializeOffer_fields simp: required_fields_def offer_of_fields_def Let_def)

lemma fulfillOps_ok: "2 \<le> length (MakerPkScript o') \<Longrightarrow> \<exists>ops. fulfillOps L o' = Inr ops"
  by (auto simp: fulfillOps_def Let_def)

section \<open>Properties\<close>

text \<open>C12. Every well-formed offer serialises, and deserialising the payload gives exactly the offer
  back: the amounts, assets, scripts, keys, cancel time and exit delay all survive the wire.\<close>

theorem DeserializeOffer_Serialize:
  assumes "wf_offer L o'"
  shows "\<exists>data. Serialize L o' = Inr data \<and> DeserializeOffer L data = Inr o'"
  using assms by (elim serialize_roundtrip) blast

theorem DeserializeOffer_Serialize_witness:
  "wf_offer sample_lib sample_offer \<and>
   (\<exists>data. Serialize sample_lib sample_offer = Inr data
      \<and> DeserializeOffer sample_lib data = Inr sample_offer)"
  using DeserializeOffer_Serialize [OF sample_offer_wf] sample_offer_wf by blast

text \<open>C23. What \<^verbatim>\<open>DeserializeOffer\<close> accepts and what it returns, declaratively: a payload is
  accepted iff it is a concatenation of fields of known type, each one valid for its type, among
  which the four required ones are present and the maker script has 34 bytes; the offer returned
  has in each position the last field of that type, and zero or nil where there is none.\<close>

theorem DeserializeOffer_iff:
  "DeserializeOffer L data = Inr o' \<longleftrightarrow>
   (\<exists>ts. data = encodeTLVs ts \<and> list_all (\<lambda>(t, v). length v < 65536 \<and> valid_field L t v) ts
      \<and> required_fields (map_of (rev ts)) \<and> o' = offer_of_fields L (map_of (rev ts)))"
  by (auto elim!: DeserializeOffer_fields simp: DeserializeOffer_encodeTLVs)

text \<open>C36. Every offer \<^verbatim>\<open>DeserializeOffer\<close> returns has a 34-byte maker script and an introspector
  key, and building its fulfill script slices the maker script within bounds: no payload from the
  wire makes the slice \<^verbatim>\<open>MakerPkScript[2:]\<close> panic.\<close>

theorem DeserializeOffer_fulfillable:
  assumes "DeserializeOffer L data = Inr o'"
  shows "length (MakerPkScript o') = 34 \<and> IntrospectorPubkey o' \<noteq> None
    \<and> (\<exists>ops. fulfillOps L o' = Inr ops \<and> FulfillScript L o' = Script L ops)"
  using DeserializeOffer_required [OF assms] fulfillOps_ok [of o' L]
  by (auto simp: FulfillScript_def)

theorem DeserializeOffer_fulfillable_witness:
  "DeserializeOffer sample_lib sample_data = Inr sample_offer
   \<and> length (MakerPkScript sample_offer) = 34 \<and> (\<exists>ops. fulfillOps sample_lib sample_offer = Inr ops)"
  using DeserializeOffer_fulfillable [OF sample_data_decodes(2)] sample_data_decodes(2) by blast

text \<open>A packet made by \<^verbatim>\<open>ToPacket\<close> and found in an extension under its type is read back by
  \<^verbatim>\<open>FindBancoOffer\<close> as the offer it was made from.\<close>

lemma FindBancoOffer_ToPacket:
  assumes "wf_offer L o'" and "ToPacket L o' = Inr p" and "GetPacketByType L ext PacketType = Some p"
  shows "FindBancoOffer L ext = Inr (Some o')"
  using assms by (elim serialize_roundtrip) (auto simp: ToPacket_def FindBancoOffer_def)

lemma FindBancoOffer_ToPacket_witness:
  "FindBancoOffer sample_lib [OtherPacket (), UnknownPacket PacketType sample_data]
   = Inr (Some sample_offer)"
proof (rule FindBancoOffer_ToPacket [OF sample_offer_wf])
  show "ToPacket sample_lib sample_offer = Inr (UnknownPacket PacketType sample_data)"
    by (simp add: ToPacket_def sample_data_decodes(1))
  show "GetPacketByType sample_lib [OtherPacket (), UnknownPacket PacketType sample_data] PacketType
    = Some (UnknownPacket PacketType sample_data)" by (simp add: sample_lib_def)
qed



text \<open>C37. Every spending path of the swap output needs the server's key, the first one is the
  fulfill path locked by the introspector key tweaked with the hash of the fulfill script, and
  there is a cancel path iff a cancel time is set and an exit path iff an exit delay is set.\<close>

theorem VtxoScript_paths:
  assumes "VtxoScript L s server = Inr cs"
  shows "list_all (\<lambda>c. server \<in> set (closure_keys c)) cs
    \<and> (\<exists>scr k. FulfillScript L s = Inr scr
         \<and> ComputeArkadeScriptPublicKey L (IntrospectorPubkey s) (ArkadeScriptHash L scr) = Inr k
         \<and> hd cs = MultisigClosure [server, Some k])
    \<and> ((\<exists>ks t. CLTVMultisigClosure ks t \<in> set cs) \<longleftrightarrow> CancelAt s \<noteq> 0)
    \<and> ((\<exists>ks d. CSVMultisigClosure ks d \<in> set cs) \<longleftrightarrow> ExitDelay s \<noteq> None)"
  using assms by (auto simp: VtxoScript_def bindR_eq_Inr word_gt_0 split: option.splits if_splits)

theorem VtxoScript_paths_witness:
  "\<exists>cs. VtxoScript sample_lib sample_offer (Some (replicate 32 9)) = Inr cs \<and> length cs = 3
     \<and> list_all (\<lambda>c. Some (replicate 32 9) \<in> set (closure_keys c)) cs"
proof -
  have "\<exists>cs. VtxoScript sample_lib sample_offer (Some (replicate 32 9)) = Inr cs \<and> length cs = 3"
    by (simp add: VtxoScript_def FulfillScript_def fulfillOps_def sample_lib_def sample_offer_def
        zero_offer_def Let_def)
  then show ?thesis using VtxoScript_paths by blast
qed

text \<open>The comment on \<^verbatim>\<open>MakerPublicKey\<close> calls the key required when a cancel time or an exit
  delay is set, but decoding does not check it: there is a payload that decodes to an offer with a
  cancel time and no maker key, whose script tree has a cancel path listing a nil key.\<close>

lemma DeserializeOffer_cancel_without_key:
  "\<exists>data o' cs. DeserializeOffer sample_lib data = Inr o' \<and> CancelAt o' \<noteq> 0
     \<and> MakerPublicKey o' = None \<and> VtxoScript sample_lib o' (Some (replicate 32 9)) = Inr cs
     \<and> CLTVMultisigClosure [None, Some (replicate 32 9)] (unat (CancelAt o')) \<in> set cs"
proof -
  let ?o = "sample_offer\<lparr>MakerPublicKey := None\<rparr>"
  have "wf_offer sample_lib ?o"
    using sample_offer_wf by (simp add: wf_offer_def)
  then obtain data where "DeserializeOffer sample_lib data = Inr ?o" by (rule serialize_roundtrip)
  moreover have "\<exists>cs. VtxoScript sample_lib ?o (Some (replicate 32 9)) = Inr cs
     \<and> CLTVMultisigClosure [None, Some (replicate 32 9)] (unat (CancelAt ?o)) \<in> set cs"
    by (simp add: VtxoScript_def FulfillScript_def fulfillOps_def sample_lib_def sample_offer_def
        zero_offer_def Let_def)
  moreover have "CancelAt ?o \<noteq> 0" "MakerPublicKey ?o = None"
    by (simp_all add: sample_offer_def zero_offer_def)
  ultimately show ?thesis by blast
qed

end
