(* ===== verification/Tx.thy ===== *)
theory Tx
  imports Prelude
begin

text \<open>
  The fields of transactions (\<^verbatim>\<open>wire.MsgTx\<close>), partially signed transactions (\<^verbatim>\<open>psbt.Packet\<close>),
  virtual outputs (\<^verbatim>\<open>types.Vtxo\<close>) and asset packets that the program reads or writes. A Go pointer
  that may be nil is an option. What a library keeps in these structures beyond those fields is the
  opaque part \<open>'z\<close>.
\<close>

record txout =
  Value :: i64
  PkScript :: bytes

record outpoint =
  Hash :: bytes
  Index :: u32

record txin =
  PreviousOutPoint :: outpoint
  Sequence :: u32

record msgtx =
  TxIn :: "txin option list"
  TxOut :: "txout option list"
  LockTime :: u32

record psbt =
  UnsignedTx :: "msgtx option"
  Unknowns :: "bytes option list" \<comment> \<open>the keys of the unknown global fields\<close>

record asset_input =
  ai_Vin :: u16
  ai_Amount :: u64

record asset_output =
  ao_Vout :: u16
  ao_Amount :: u64

record 'aid asset_group =
  ag_AssetId :: "'aid option"
  ag_Inputs :: "asset_input list"
  ag_Outputs :: "asset_output list"

type_synonym 'aid asset_packet = "'aid asset_group list"

record vtxo_asset =
  va_AssetId :: string
  va_Amount :: u64

record 'z vtxo =
  vtxo_Txid :: string
  vtxo_VOut :: u32
  vtxo_Amount :: u64
  vtxo_Assets :: "vtxo_asset list"
  vtxo_Spent :: bool
  vtxo_rest :: 'z

end
