(* ===== verification/AssetPacket.thy ===== *)
theory AssetPacket
  imports Offer Tx "HOL-Library.AList"
begin

text \<open>
  Routing of assets in a fulfilment: \<^verbatim>\<open>buildFulfillAssetPacket\<close> of \<^verbatim>\<open>pkg/contract/taker.go\<close>.

  The Go map from asset identifiers to transfers is an association list in insertion order. Go
  iterates over a map in an unspecified order that may differ from loop to loop, so the two loops
  over the map take their orders as arguments \<open>ord1\<close> and \<open>ord2\<close>; the theorems hold for all orders.
  The constructors of the asset library, which may reject their arguments, are parameters.
\<close>

record 'aid asset_lib =
  NewAssetInput :: "u16 \<Rightarrow> u64 \<Rightarrow> asset_input result"
  NewAssetOutput :: "u16 \<Rightarrow> u64 \<Rightarrow> asset_output result"
  NewAssetGroup :: "'aid \<Rightarrow> asset_input list \<Rightarrow> asset_output list \<Rightarrow> 'aid asset_group result"
  NewPacket :: "'aid asset_group list \<Rightarrow> 'aid asset_packet result"

text \<open>What the program relies on: a constructor that succeeds holds what it was given.\<close>

definition asset_lib_ok :: "'aid asset_lib \<Rightarrow> bool" where
  "asset_lib_ok A \<longleftrightarrow>
     (\<forall>v a i. NewAssetInput A v a = Inr i \<longrightarrow> i = \<lparr>ai_Vin = v, ai_Amount = a\<rparr>)
   \<and> (\<forall>v a out. NewAssetOutput A v a = Inr out \<longrightarrow> out = \<lparr>ao_Vout = v, ao_Amount = a\<rparr>)
   \<and> (\<forall>aid ins outs g. NewAssetGroup A aid ins outs = Inr g \<longrightarrow>
        g = \<lparr>ag_AssetId = Some aid, ag_Inputs = ins, ag_Outputs = outs\<rparr>)
   \<and> (\<forall>gs p. NewPacket A gs = Inr p \<longrightarrow> p = gs)"

section \<open>Model\<close>

record transfer =
  tr_inputs :: "asset_input list"
  tr_outputs :: "asset_output list"

type_synonym transfers = "(string \<times> transfer) list"

definition empty_transfer :: transfer where
  "empty_transfer = \<lparr>tr_inputs = [], tr_outputs = []\<rparr>"

text \<open>\<^verbatim>\<open>ensureTransfer\<close> followed by the append to the transfer it returns.\<close>

definition addInput :: "string \<Rightarrow> asset_input \<Rightarrow> transfers \<Rightarrow> transfers" where
  "addInput k i ts =
     (let t = (case map_of ts k of None \<Rightarrow> empty_transfer | Some t \<Rightarrow> t)
      in AList.update k (t\<lparr>tr_inputs := tr_inputs t @ [i]\<rparr>) ts)"

fun addInputs :: "'aid asset_lib \<Rightarrow> u16 \<Rightarrow> vtxo_asset list \<Rightarrow> transfers \<Rightarrow> transfers result" where
  "addInputs A vin [] ts = Inr ts"
| "addInputs A vin (a # as) ts =
     bindR (NewAssetInput A vin (va_Amount a)) (\<lambda>i.
       addInputs A vin as (addInput (va_AssetId a) i ts))"

text \<open>The loop over the taker's virtual outputs; \<open>i\<close> is the source's index.\<close>

fun addTakerInputs ::
  "'aid asset_lib \<Rightarrow> nat \<Rightarrow> vtxo_asset list list \<Rightarrow> transfers \<Rightarrow> transfers result" where
  "addTakerInputs A i [] ts = Inr ts"
| "addTakerInputs A i (as # ass) ts =
     bindR (addInputs A (of_nat (i + 1)) as ts) (addTakerInputs A (Suc i) ass)"

definition routeWanted :: "('aid, 'pk, 'x) contract_lib \<Rightarrow> 'aid asset_lib \<Rightarrow> ('aid, 'pk) offer \<Rightarrow>
    transfers \<Rightarrow> transfers result" where
  "routeWanted L A o' ts =
     (case WantAsset o' of None \<Rightarrow> Inr ts
      | Some aid \<Rightarrow>
         let k = assetId_String L aid in
         (case map_of ts k of
            None \<Rightarrow> failR (ErrFmt ''asset %s not found in inputs'' [ArgStr k])
          | Some t \<Rightarrow> bindR (NewAssetOutput A 0 (WantAmount o')) (\<lambda>out.
              Inr (AList.update k (t\<lparr>tr_outputs := tr_outputs t @ [out]\<rparr>) ts))))"

definition totalIn :: "transfer \<Rightarrow> u64" where
  "totalIn t = sum_list (map ai_Amount (tr_inputs t))"

definition totalOut :: "transfer \<Rightarrow> u64" where
  "totalOut t = sum_list (map ao_Amount (tr_outputs t))"

definition balanceTransfer :: "'aid asset_lib \<Rightarrow> transfer \<Rightarrow> transfer result" where
  "balanceTransfer A t =
     (if totalIn t > totalOut t then
        bindR (NewAssetOutput A 1 (totalIn t - totalOut t)) (\<lambda>out.
          Inr (t\<lparr>tr_outputs := tr_outputs t @ [out]\<rparr>))
      else Inr t)"

fun balanceAll :: "'aid asset_lib \<Rightarrow> string list \<Rightarrow> transfers \<Rightarrow> transfers result" where
  "balanceAll A [] ts = Inr ts"
| "balanceAll A (k # ks) ts =
     (case map_of ts k of None \<Rightarrow> balanceAll A ks ts
      | Some t \<Rightarrow> bindR (balanceTransfer A t) (\<lambda>t'. balanceAll A ks (AList.update k t' ts)))"

definition wantedGroup :: "('aid, 'pk, 'x) contract_lib \<Rightarrow> 'aid asset_lib \<Rightarrow> ('aid, 'pk) offer \<Rightarrow>
    transfers \<Rightarrow> 'aid asset_group list result" where
  "wantedGroup L A o' ts =
     (case WantAsset o' of None \<Rightarrow> Inr []
      | Some aid \<Rightarrow>
         (case map_of ts (assetId_String L aid) of
            None \<Rightarrow> Inr []
          | Some t \<Rightarrow> if tr_inputs t = [] then Inr []
                      else bindR (NewAssetGroup A aid (tr_inputs t) (tr_outputs t)) (\<lambda>g. Inr [g])))"

definition wanted_key :: "('aid, 'pk, 'x) contract_lib \<Rightarrow> ('aid, 'pk) offer \<Rightarrow> string option" where
  "wanted_key L o' = map_option (assetId_String L) (WantAsset o')"

fun otherGroups :: "('aid, 'pk, 'x) contract_lib \<Rightarrow> 'aid asset_lib \<Rightarrow> ('aid, 'pk) offer \<Rightarrow>
    transfers \<Rightarrow> string list \<Rightarrow> 'aid asset_group list result" where
  "otherGroups L A o' ts [] = Inr []"
| "otherGroups L A o' ts (k # ks) =
     (case map_of ts k of None \<Rightarrow> otherGroups L A o' ts ks
      | Some t \<Rightarrow>
          if tr_inputs t = [] then otherGroups L A o' ts ks
          else if wanted_key L o' = Some k then otherGroups L A o' ts ks
          else bindR (NewAssetIdFromString L k) (\<lambda>aid.
               bindR (NewAssetGroup A aid (tr_inputs t) (tr_outputs t)) (\<lambda>g.
               bindR (otherGroups L A o' ts ks) (\<lambda>gs. Inr (g # gs)))))"

definition buildFulfillAssetPacket ::
  "('aid, 'pk, 'x) contract_lib \<Rightarrow> 'aid asset_lib \<Rightarrow> (string list \<Rightarrow> string list) \<Rightarrow>
   (string list \<Rightarrow> string list) \<Rightarrow> vtxo_asset list \<Rightarrow> vtxo_asset list list \<Rightarrow> ('aid, 'pk) offer \<Rightarrow>
   'aid asset_packet option result" where
  "buildFulfillAssetPacket L A ord1 ord2 swapAssets takerAssets o' =
     bindR (addInputs A 0 swapAssets []) (\<lambda>ts0.
     bindR (addTakerInputs A 0 takerAssets ts0) (\<lambda>ts1.
       if ts1 = [] then Inr None
       else
         bindR (routeWanted L A o' ts1) (\<lambda>ts2.
         bindR (balanceAll A (ord1 (map fst ts2)) ts2) (\<lambda>ts3.
         bindR (wantedGroup L A o' ts3) (\<lambda>g0.
         bindR (otherGroups L A o' ts3 (ord2 (map fst ts3))) (\<lambda>gs.
           if g0 @ gs = [] then Inr None
           else bindR (NewPacket A (g0 @ gs)) (\<lambda>p. Inr (Some p))))))))"

section \<open>What the packet should hold\<close>

text \<open>The inputs of asset \<open>k\<close>: those of the swap output at index 0, then those of the taker's outputs
  at the indices from 1 on.\<close>

definition inputs_for :: "string \<Rightarrow> u16 \<Rightarrow> vtxo_asset list \<Rightarrow> asset_input list" where
  "inputs_for k vin as =
     map (\<lambda>a. \<lparr>ai_Vin = vin, ai_Amount = va_Amount a\<rparr>) (filter (\<lambda>a. va_AssetId a = k) as)"

fun taker_inputs_for :: "string \<Rightarrow> nat \<Rightarrow> vtxo_asset list list \<Rightarrow> asset_input list" where
  "taker_inputs_for k i [] = []"
| "taker_inputs_for k i (as # ass) = inputs_for k (of_nat (i + 1)) as @ taker_inputs_for k (Suc i) ass"

definition all_inputs :: "vtxo_asset list \<Rightarrow> vtxo_asset list list \<Rightarrow> string \<Rightarrow> asset_input list" where
  "all_inputs swapAssets takerAssets k = inputs_for k 0 swapAssets @ taker_inputs_for k 0 takerAssets"

definition routed_outputs :: "('aid, 'pk, 'x) contract_lib \<Rightarrow> ('aid, 'pk) offer \<Rightarrow> string \<Rightarrow>
    asset_output list" where
  "routed_outputs L o' k =
     (if wanted_key L o' = Some k then [\<lparr>ao_Vout = 0, ao_Amount = WantAmount o'\<rparr>] else [])"

definition change_output :: "transfer \<Rightarrow> asset_output list" where
  "change_output t = (if totalIn t > totalOut t
     then [\<lparr>ao_Vout = 1, ao_Amount = totalIn t - totalOut t\<rparr>] else [])"

definition balanced :: "transfer \<Rightarrow> transfer" where
  "balanced t = t\<lparr>tr_outputs := tr_outputs t @ change_output t\<rparr>"

definition group_spec :: "('aid, 'pk, 'x) contract_lib \<Rightarrow> ('aid, 'pk) offer \<Rightarrow> (string \<Rightarrow> asset_input list) \<Rightarrow>
    string \<Rightarrow> 'aid asset_group \<Rightarrow> bool" where
  "group_spec L o' ins k g \<longleftrightarrow>
     (let t = balanced \<lparr>tr_inputs = ins k, tr_outputs = routed_outputs L o' k\<rparr> in
      ag_Inputs g = tr_inputs t \<and> ag_Outputs g = tr_outputs t
      \<and> (if wanted_key L o' = Some k then ag_AssetId g = WantAsset o'
         else (\<exists>aid. NewAssetIdFromString L k = Inr aid \<and> ag_AssetId g = Some aid)))"

section \<open>Registering the inputs\<close>

definition holds_inputs :: "transfers \<Rightarrow> (string \<Rightarrow> asset_input list) \<Rightarrow> bool" where
  "holds_inputs ts f \<longleftrightarrow> distinct (map fst ts) \<and>
     (\<forall>k. map_of ts k = (if f k = [] then None else Some \<lparr>tr_inputs = f k, tr_outputs = []\<rparr>))"

lemma holds_inputs_empty: "holds_inputs [] (\<lambda>_. [])"
  by (simp add: holds_inputs_def)

lemma addInput_holds: "holds_inputs ts f \<Longrightarrow> holds_inputs (addInput k i ts) (f(k := f k @ [i]))"
  by (auto simp: holds_inputs_def addInput_def empty_transfer_def Let_def update_conv' distinct_update)

lemma inputs_for_Cons:
  "inputs_for k vin (a # as) =
     (if va_AssetId a = k then [\<lparr>ai_Vin = vin, ai_Amount = va_Amount a\<rparr>] else []) @ inputs_for k vin as"
  by (simp add: inputs_for_def)

lemma addInputs_holds:
  assumes "asset_lib_ok A"
  shows "addInputs A vin as ts = Inr ts' \<Longrightarrow> holds_inputs ts f \<Longrightarrow>
         holds_inputs ts' (\<lambda>k. f k @ inputs_for k vin as)"
proof (induction as arbitrary: ts f)
  case Nil
  then show ?case by (simp add: inputs_for_def)
next
  case (Cons a as)
  let ?i = "\<lparr>ai_Vin = vin, ai_Amount = va_Amount a\<rparr>"
  from Cons.prems(1) assms have "addInputs A vin as (addInput (va_AssetId a) ?i ts) = Inr ts'"
    by (auto simp: bindR_eq_Inr asset_lib_ok_def)
  from Cons.IH [OF this addInput_holds [OF Cons.prems(2)]] show ?case
    by (rule back_subst [of "holds_inputs ts'"]) (auto simp: inputs_for_Cons)
qed

lemma addTakerInputs_holds:
  assumes "asset_lib_ok A"
  shows "addTakerInputs A i ass ts = Inr ts' \<Longrightarrow> holds_inputs ts f \<Longrightarrow>
         holds_inputs ts' (\<lambda>k. f k @ taker_inputs_for k i ass)"
proof (induction ass arbitrary: i ts f)
  case (Cons as ass)
  from Cons.prems(1) obtain ts1 where ts1: "addInputs A (of_nat (i + 1)) as ts = Inr ts1"
    and rest: "addTakerInputs A (Suc i) ass ts1 = Inr ts'"
    by (auto simp: bindR_eq_Inr)
  from Cons.IH [OF rest addInputs_holds [OF assms ts1 Cons.prems(2)]] show ?case by simp
qed simp

lemma registered_inputs:
  assumes "asset_lib_ok A" and "addInputs A 0 sa [] = Inr ts0" and "addTakerInputs A 0 ta ts0 = Inr ts1"
  shows "holds_inputs ts1 (all_inputs sa ta)"
  using addTakerInputs_holds [OF assms(1,3) addInputs_holds [OF assms(1,2) holds_inputs_empty]]
  by (simp add: all_inputs_def [abs_def])

section \<open>Routing and balancing\<close>

definition holds_transfers :: "transfers \<Rightarrow> (string \<Rightarrow> transfer option) \<Rightarrow> bool" where
  "holds_transfers ts f \<longleftrightarrow> distinct (map fst ts) \<and> map_of ts = f"

lemma holds_transfers_keys: "holds_transfers ts f \<Longrightarrow> set (map fst ts) = dom f"
  by (metis holds_transfers_def dom_map_of_conv_image_fst set_map)

lemma routeWanted_Some:
  assumes "asset_lib_ok A" and "routeWanted L A o' ts = Inr ts'" and "WantAsset o' = Some aid"
  obtains t where "map_of ts (assetId_String L aid) = Some t"
    and "ts' = AList.update (assetId_String L aid)
      (t\<lparr>tr_outputs := tr_outputs t @ [\<lparr>ao_Vout = 0, ao_Amount = WantAmount o'\<rparr>]\<rparr>) ts"
  using assms
  by (auto simp: routeWanted_def bindR_eq_Inr asset_lib_ok_def Let_def split: option.splits)

lemma routeWanted_holds:
  assumes "asset_lib_ok A" and "holds_inputs ts ins" and "routeWanted L A o' ts = Inr ts'"
  shows "holds_transfers ts' (\<lambda>k. if ins k = [] then None
           else Some \<lparr>tr_inputs = ins k, tr_outputs = routed_outputs L o' k\<rparr>)" (is ?holds)
    and "wanted_key L o' = Some w \<Longrightarrow> ins w \<noteq> []"
proof -
  from assms(2) have dist: "distinct (map fst ts)"
    and ts: "map_of ts = (\<lambda>k. if ins k = [] then None else Some \<lparr>tr_inputs = ins k, tr_outputs = []\<rparr>)"
    by (auto simp: holds_inputs_def)
  have "?holds \<and> (wanted_key L o' = Some w \<longrightarrow> ins w \<noteq> [])"
  proof (cases "WantAsset o'")
    case None
    with assms(3) dist ts show ?thesis
      by (auto simp: routeWanted_def holds_transfers_def routed_outputs_def wanted_key_def)
  next
    case (Some aid)
    obtain t where "map_of ts (assetId_String L aid) = Some t"
      and "ts' = AList.update (assetId_String L aid)
        (t\<lparr>tr_outputs := tr_outputs t @ [\<lparr>ao_Vout = 0, ao_Amount = WantAmount o'\<rparr>]\<rparr>) ts"
      using routeWanted_Some [OF assms(1,3) Some] .
    with dist ts Some show ?thesis
      by (auto simp: holds_transfers_def routed_outputs_def wanted_key_def distinct_update update_conv'
          fun_eq_iff split: if_splits)
  qed
  then show ?holds and "wanted_key L o' = Some w \<Longrightarrow> ins w \<noteq> []" by blast+
qed

lemma balanceTransfer_Inr:
  "asset_lib_ok A \<Longrightarrow> balanceTransfer A t = Inr t' \<Longrightarrow> t' = balanced t"
  by (auto simp: balanceTransfer_def balanced_def change_output_def asset_lib_ok_def bindR_eq_Inr
      split: if_splits)

lemma balanceAll_holds:
  assumes "asset_lib_ok A"
  shows "balanceAll A ks ts = Inr ts' \<Longrightarrow> distinct ks \<Longrightarrow> holds_transfers ts f \<Longrightarrow>
    holds_transfers ts' (\<lambda>k. if k \<in> set ks then map_option balanced (f k) else f k)"
proof (induction ks arbitrary: ts f)
  case (Cons k ks)
  show ?case
  proof (cases "f k")
    case None
    with Cons have "balanceAll A ks ts = Inr ts'" by (simp add: holds_transfers_def)
    from Cons.IH [OF this _ Cons.prems(3)] Cons.prems(2)
    have "holds_transfers ts' (\<lambda>k. if k \<in> set ks then map_option balanced (f k) else f k)" by simp
    then show ?thesis
      by (rule back_subst [of "holds_transfers ts'"]) (auto simp: None)
  next
    case (Some t)
    with Cons.prems(1,3) assms have rest: "balanceAll A ks (AList.update k (balanced t) ts) = Inr ts'"
      by (auto simp: holds_transfers_def bindR_eq_Inr dest: balanceTransfer_Inr)
    have "holds_transfers (AList.update k (balanced t) ts) (f(k \<mapsto> balanced t))"
      using Cons.prems(3) by (simp add: holds_transfers_def distinct_update update_conv')
    from Cons.IH [OF rest _ this] Cons.prems(2)
    have "holds_transfers ts' (\<lambda>x. if x \<in> set ks then map_option balanced ((f(k \<mapsto> balanced t)) x)
       else (f(k \<mapsto> balanced t)) x)" by simp
    then show ?thesis
      by (rule back_subst [of "holds_transfers ts'"]) (use Cons.prems(2) in \<open>auto simp: Some\<close>)
  qed
qed simp

section \<open>Grouping\<close>

lemma otherGroups_Inr:
  assumes "asset_lib_ok A"
  shows "otherGroups L A o' ts ks = Inr gs \<Longrightarrow>
    list_all2 (\<lambda>k g. wanted_key L o' \<noteq> Some k
        \<and> (\<exists>aid t. map_of ts k = Some t \<and> NewAssetIdFromString L k = Inr aid
        \<and> g = \<lparr>ag_AssetId = Some aid, ag_Inputs = tr_inputs t, ag_Outputs = tr_outputs t\<rparr>))
      (filter (\<lambda>k. (\<exists>t. map_of ts k = Some t \<and> tr_inputs t \<noteq> []) \<and> wanted_key L o' \<noteq> Some k) ks) gs"
proof (induction ks arbitrary: gs)
  case (Cons k ks)
  show ?case
  proof (cases "(\<exists>t. map_of ts k = Some t \<and> tr_inputs t \<noteq> []) \<and> wanted_key L o' \<noteq> Some k")
    case True
    then obtain t where t: "map_of ts k = Some t" "tr_inputs t \<noteq> []" "wanted_key L o' \<noteq> Some k"
      by blast
    with Cons.prems obtain aid gs' where "NewAssetIdFromString L k = Inr aid"
      "otherGroups L A o' ts ks = Inr gs'"
      "gs = \<lparr>ag_AssetId = Some aid, ag_Inputs = tr_inputs t, ag_Outputs = tr_outputs t\<rparr> # gs'"
      using assms by (auto simp: bindR_eq_Inr asset_lib_ok_def)
    with t Cons.IH True show ?thesis by simp
  next
    case False
    with Cons.prems have "otherGroups L A o' ts ks = Inr gs"
      by (auto split: option.splits if_splits)
    with Cons.IH False show ?thesis by auto
  qed
qed simp

lemma tr_inputs_balanced [simp]: "tr_inputs (balanced t) = tr_inputs t"
  by (simp add: balanced_def)

lemma wantedGroup_Inr:
  assumes "asset_lib_ok A" and "wantedGroup L A o' ts = Inr g0"
    and "\<And>w. wanted_key L o' = Some w \<Longrightarrow> \<exists>t. map_of ts w = Some t \<and> tr_inputs t \<noteq> []"
  shows "list_all2 (\<lambda>k g. \<exists>t. map_of ts k = Some t
      \<and> g = \<lparr>ag_AssetId = WantAsset o', ag_Inputs = tr_inputs t, ag_Outputs = tr_outputs t\<rparr>)
    (case wanted_key L o' of None \<Rightarrow> [] | Some w \<Rightarrow> [w]) g0"
  using assms
  by (auto simp: wantedGroup_def wanted_key_def bindR_eq_Inr asset_lib_ok_def split: option.splits)

definition reordering :: "(string list \<Rightarrow> string list) \<Rightarrow> bool" where
  "reordering ord \<longleftrightarrow> (\<forall>ks. mset (ord ks) = mset ks)"

lemma reorderingD: "reordering ord \<Longrightarrow> set (ord ks) = set ks \<and> distinct (ord ks) = distinct ks"
  by (metis reordering_def mset_eq_imp_distinct_iff mset_eq_setD)

text \<open>The transfers after balancing, whatever the iteration order.\<close>

lemma balanced_transfers:
  assumes "asset_lib_ok A" and "reordering ord1" and "holds_inputs ts1 ins"
    and "routeWanted L A o' ts1 = Inr ts2" and "balanceAll A (ord1 (map fst ts2)) ts2 = Inr ts3"
  shows "holds_transfers ts3 (\<lambda>k. if ins k = [] then None
           else Some (balanced \<lparr>tr_inputs = ins k, tr_outputs = routed_outputs L o' k\<rparr>))"
proof -
  let ?f = "\<lambda>k. if ins k = [] then None
     else Some \<lparr>tr_inputs = ins k, tr_outputs = routed_outputs L o' k\<rparr>"
  have ts2: "holds_transfers ts2 ?f" using routeWanted_holds(1) [OF assms(1,3,4)] .
  then have keys: "set (ord1 (map fst ts2)) = dom ?f" "distinct (ord1 (map fst ts2))"
    using reorderingD [OF assms(2)] holds_transfers_keys [OF ts2]
    by (simp_all add: holds_transfers_def)
  from balanceAll_holds [OF assms(1,5) keys(2) ts2] show ?thesis
    by (rule back_subst [of "holds_transfers ts3"]) (auto simp: keys(1) dom_def)
qed

lemma packet_groups:
  assumes "asset_lib_ok A" and "reordering ord2"
    and ts: "holds_transfers ts (\<lambda>k. if ins k = [] then None
           else Some (balanced \<lparr>tr_inputs = ins k, tr_outputs = routed_outputs L o' k\<rparr>))"
    and w: "\<And>w. wanted_key L o' = Some w \<Longrightarrow> ins w \<noteq> []"
    and g0: "wantedGroup L A o' ts = Inr g0" and gs: "otherGroups L A o' ts (ord2 (map fst ts)) = Inr gs"
  shows "\<exists>ks. distinct ks \<and> set ks = {k. ins k \<noteq> []} \<and> list_all2 (group_spec L o' ins) ks (g0 @ gs)
    \<and> (\<forall>w. wanted_key L o' = Some w \<longrightarrow> ks \<noteq> [] \<and> hd ks = w)"
proof -
  let ?head = "case wanted_key L o' of None \<Rightarrow> [] | Some w \<Rightarrow> [w]"
  let ?P = "\<lambda>k. (\<exists>t. map_of ts k = Some t \<and> tr_inputs t \<noteq> []) \<and> wanted_key L o' \<noteq> Some k"
  let ?ks = "?head @ filter ?P (ord2 (map fst ts))"
  have map_ts: "map_of ts k = Some t \<longleftrightarrow> ins k \<noteq> []
      \<and> t = balanced \<lparr>tr_inputs = ins k, tr_outputs = routed_outputs L o' k\<rparr>" for k t
    using ts by (auto simp: holds_transfers_def)
  have keys: "set (ord2 (map fst ts)) = {k. ins k \<noteq> []}" "distinct (ord2 (map fst ts))"
    using reorderingD [OF assms(2)] holds_transfers_keys [OF ts] ts
    by (auto simp: holds_transfers_def dom_def)
  have "list_all2 (group_spec L o' ins) ?head g0"
    using wantedGroup_Inr [OF assms(1) g0] w
    by (cases "wanted_key L o'") (auto simp: map_ts group_spec_def Let_def list_all2_Cons1)
  moreover have "list_all2 (group_spec L o' ins) (filter ?P (ord2 (map fst ts))) gs"
    by (rule list_all2_mono [OF otherGroups_Inr [OF assms(1) gs]])
      (auto simp: map_ts group_spec_def Let_def)
  ultimately have "list_all2 (group_spec L o' ins) ?ks (g0 @ gs)" by (rule list_all2_appendI)
  moreover have "distinct ?ks" using keys(2) by (auto split: option.split)
  moreover have "set ?ks = {k. ins k \<noteq> []}" using keys(1) w by (auto simp: map_ts split: option.split)
  ultimately show ?thesis by (intro exI [of _ ?ks]) (auto split: option.split)
qed

lemma buildFulfillAssetPacket_groups:
  assumes A: "asset_lib_ok A" "reordering ord1" "reordering ord2"
    and "buildFulfillAssetPacket L A ord1 ord2 sa ta o' = Inr (Some p)"
  shows "\<exists>ks. distinct ks \<and> set ks = {k. all_inputs sa ta k \<noteq> []}
    \<and> list_all2 (group_spec L o' (all_inputs sa ta)) ks p
    \<and> (\<forall>w. wanted_key L o' = Some w \<longrightarrow> ks \<noteq> [] \<and> hd ks = w)"
proof -
  from assms(4) A(1) obtain ts0 ts1 ts2 ts3 g0 gs where
    ts1: "addInputs A 0 sa [] = Inr ts0" "addTakerInputs A 0 ta ts0 = Inr ts1"
    and ts2: "routeWanted L A o' ts1 = Inr ts2"
    and ts3: "balanceAll A (ord1 (map fst ts2)) ts2 = Inr ts3"
    and gs: "wantedGroup L A o' ts3 = Inr g0" "otherGroups L A o' ts3 (ord2 (map fst ts3)) = Inr gs"
    and p: "p = g0 @ gs"
    by (auto simp: buildFulfillAssetPacket_def bindR_eq_Inr asset_lib_ok_def split: if_splits)
  have ins: "holds_inputs ts1 (all_inputs sa ta)" by (rule registered_inputs [OF A(1) ts1])
  show ?thesis
    unfolding p
    by (rule packet_groups [OF A(1,3) balanced_transfers [OF A(1,2) ins ts2 ts3]
          routeWanted_holds(2) [OF A(1) ins ts2] gs])
qed

section \<open>Balance\<close>

definition amount_in :: "asset_input list \<Rightarrow> nat" where
  "amount_in is = sum_list (map (\<lambda>i. unat (ai_Amount i)) is)"

definition amount_out :: "asset_output list \<Rightarrow> nat" where
  "amount_out os = sum_list (map (\<lambda>out. unat (ao_Amount out)) os)"

lemma unat_sum_list:
  fixes f :: "'b \<Rightarrow> 'a::len word"
  assumes "sum_list (map (\<lambda>x. unat (f x)) xs) < 2 ^ LENGTH('a)"
  shows "unat (sum_list (map f xs)) = sum_list (map (\<lambda>x. unat (f x)) xs)"
  using assms
  by (induction xs) (simp_all add: unat_word_ariths take_bit_nat_eq_self)

lemma totalIn_unat:
  "amount_in (tr_inputs t) < 2 ^ 64 \<Longrightarrow> unat (totalIn t) = amount_in (tr_inputs t)"
  using unat_sum_list [of ai_Amount "tr_inputs t"] by (simp add: totalIn_def amount_in_def)

lemma balanced_conserves:
  assumes "amount_in ins < 2 ^ 64" and "tr_outputs t = [] \<or> tr_outputs t = [\<lparr>ao_Vout = v, ao_Amount = w\<rparr>]"
    and "tr_outputs t \<noteq> [] \<Longrightarrow> unat w \<le> amount_in ins" and "tr_inputs t = ins"
  shows "amount_out (tr_outputs (balanced t)) = amount_in ins"
  using assms totalIn_unat [of t]
  by (auto simp: balanced_def change_output_def amount_out_def totalOut_def word_less_nat_alt
      unat_sub word_le_nat_alt)

lemma group_spec_conserves:
  assumes "group_spec L o' ins k g" and "amount_in (ins k) < 2 ^ 64"
    and "wanted_key L o' = Some k \<Longrightarrow> unat (WantAmount o') \<le> amount_in (ins k)"
  shows "amount_out (ag_Outputs g) = amount_in (ag_Inputs g)"
  using assms balanced_conserves [of "ins k" "\<lparr>tr_inputs = ins k, tr_outputs = routed_outputs L o' k\<rparr>" 0
      "WantAmount o'"]
  by (auto simp: group_spec_def Let_def routed_outputs_def split: if_splits)

definition sample_asset_lib :: "'aid asset_lib" where
  "sample_asset_lib =
     \<lparr>NewAssetInput = (\<lambda>v a. if a = 0 then failR (ErrExt ''zero amount'')
        else Inr \<lparr>ai_Vin = v, ai_Amount = a\<rparr>),
      NewAssetOutput = (\<lambda>v a. if a = 0 then failR (ErrExt ''zero amount'')
        else Inr \<lparr>ao_Vout = v, ao_Amount = a\<rparr>),
      NewAssetGroup = (\<lambda>aid is os. Inr \<lparr>ag_AssetId = Some aid, ag_Inputs = is, ag_Outputs = os\<rparr>),
      NewPacket = (\<lambda>gs. Inr gs)\<rparr>"

lemma sample_asset_lib_ok: "asset_lib_ok sample_asset_lib"
  by (auto simp: asset_lib_ok_def sample_asset_lib_def split: if_splits)

lemma reordering_rev: "reordering rev" "reordering (\<lambda>ks. ks)"
  by (simp_all add: reordering_def)

definition sample_want :: string where
  "sample_want = EncodeToString (replicate 34 7)"

definition sample_swap_assets :: "vtxo_asset list" where
  "sample_swap_assets = [\<lparr>va_AssetId = EncodeToString (replicate 34 5), va_Amount = 50\<rparr>]"

definition sample_taker_assets :: "vtxo_asset list list" where
  "sample_taker_assets =
     [[\<lparr>va_AssetId = sample_want, va_Amount = 700\<rparr>], [\<lparr>va_AssetId = sample_want, va_Amount = 800\<rparr>]]"

definition sample_packet :: "bytes asset_packet" where
  "sample_packet =
     [\<lparr>ag_AssetId = Some (replicate 34 7),
       ag_Inputs = [\<lparr>ai_Vin = 1, ai_Amount = 700\<rparr>, \<lparr>ai_Vin = 2, ai_Amount = 800\<rparr>],
       ag_Outputs = [\<lparr>ao_Vout = 0, ao_Amount = 1000\<rparr>, \<lparr>ao_Vout = 1, ao_Amount = 500\<rparr>]\<rparr>,
      \<lparr>ag_AssetId = Some (replicate 34 5), ag_Inputs = [\<lparr>ai_Vin = 0, ai_Amount = 50\<rparr>],
       ag_Outputs = [\<lparr>ao_Vout = 1, ao_Amount = 50\<rparr>]\<rparr>]"

lemma sample_build:
  "buildFulfillAssetPacket sample_lib sample_asset_lib rev (\<lambda>ks. ks) sample_swap_assets
     sample_taker_assets sample_offer = Inr (Some sample_packet)"
  by code_simp

section \<open>Properties\<close>

text \<open>C14. The packet is exactly the routing it should be, whatever order Go iterates its map in:
  there is one group per asset held by any input and no other, the wanted asset first (the index the
  fulfill script looks up); each group lists that asset's amounts at input 0 for the swap output and
  at \<open>i + 1\<close> for the taker's \<open>i\<close>-th output, sends the wanted amount to output 0 and the rest, if
  positive, to output 1.\<close>

theorem buildFulfillAssetPacket_routing:
  assumes "asset_lib_ok A" and "reordering ord1" and "reordering ord2"
    and "buildFulfillAssetPacket L A ord1 ord2 sa ta o' = Inr (Some p)"
  shows "\<exists>ks. distinct ks \<and> set ks = {k. all_inputs sa ta k \<noteq> []}
    \<and> list_all2 (group_spec L o' (all_inputs sa ta)) ks p
    \<and> (\<forall>w. wanted_key L o' = Some w \<longrightarrow> ks \<noteq> [] \<and> hd ks = w)"
  by (rule buildFulfillAssetPacket_groups [OF assms])

theorem buildFulfillAssetPacket_routing_witness:
  "buildFulfillAssetPacket sample_lib sample_asset_lib rev (\<lambda>ks. ks) sample_swap_assets
     sample_taker_assets sample_offer = Inr (Some sample_packet)
   \<and> (\<exists>ks. distinct ks \<and> list_all2 (group_spec sample_lib sample_offer
          (all_inputs sample_swap_assets sample_taker_assets)) ks sample_packet)"
  using buildFulfillAssetPacket_routing [OF sample_asset_lib_ok reordering_rev sample_build] sample_build
  by blast

text \<open>C15. No asset is created or destroyed: when the inputs hold at least the wanted amount of the
  wanted asset and no asset's total exceeds 64 bits, the outputs of every group add up to its inputs,
  as unbounded sums.\<close>

theorem buildFulfillAssetPacket_conserves:
  assumes "asset_lib_ok A" and "reordering ord1" and "reordering ord2"
    and "buildFulfillAssetPacket L A ord1 ord2 sa ta o' = Inr (Some p)"
    and "\<forall>k. amount_in (all_inputs sa ta k) < 2 ^ 64"
    and "\<forall>k. wanted_key L o' = Some k \<longrightarrow> unat (WantAmount o') \<le> amount_in (all_inputs sa ta k)"
  shows "list_all (\<lambda>g. amount_out (ag_Outputs g) = amount_in (ag_Inputs g)) p"
proof -
  from buildFulfillAssetPacket_groups [OF assms(1-4)] obtain ks where
    ks: "list_all2 (group_spec L o' (all_inputs sa ta)) ks p" by blast
  show ?thesis
  proof (unfold list_all_iff, rule ballI)
    fix g assume "g \<in> set p"
    with ks obtain k where "group_spec L o' (all_inputs sa ta) k g"
      by (metis in_set_conv_nth list_all2_conv_all_nth)
    then show "amount_out (ag_Outputs g) = amount_in (ag_Inputs g)"
      using assms(5,6) by (auto intro: group_spec_conserves)
  qed
qed

theorem buildFulfillAssetPacket_conserves_witness:
  "(\<forall>k. amount_in (all_inputs sample_swap_assets sample_taker_assets k) < 2 ^ 64) \<and>
   list_all (\<lambda>g. amount_out (ag_Outputs g) = amount_in (ag_Inputs g)) sample_packet"
proof -
  have le: "\<forall>k. amount_in (all_inputs sample_swap_assets sample_taker_assets k) < 2 ^ 64"
    by (auto simp: amount_in_def all_inputs_def inputs_for_def sample_swap_assets_def
        sample_taker_assets_def)
  moreover have "unat (WantAmount sample_offer)
      \<le> amount_in (all_inputs sample_swap_assets sample_taker_assets sample_want)"
    by code_simp
  moreover have "wanted_key sample_lib sample_offer = Some sample_want" by code_simp
  ultimately show ?thesis
    using buildFulfillAssetPacket_conserves [OF sample_asset_lib_ok reordering_rev sample_build]
    by auto
qed


end
