(* ===== verification/Taker.thy ===== *)
theory Taker
  imports AssetPacket
begin

text \<open>
  Fulfilment of an offer by the taker: \<^verbatim>\<open>FulfillOffer\<close> of \<^verbatim>\<open>pkg/contract/taker.go\<close>.

  The function is one sequence of stages; each stage is a definition of the source lines it
  translates, and \<open>FulfillOffer\<close> composes them in the source's order, with the source's early
  returns. The Ark client, the indexer, the wallet, the introspector and the transaction builder are
  the fields of \<open>taker_lib\<close>; those that reach a service act on an outside world \<open>'w\<close>. Their values
  the program only passes on (tap trees, control blocks, transactions, networks) have the opaque
  type \<open>'z\<close>.

  What matters to the parties is which signatures the taker asks for and what it submits. The world
  of the model therefore keeps the requests sent so far, \<open>rpcs\<close>, beside the outside world.
\<close>

section \<open>Outside services\<close>

datatype rpc = RpcSign string | RpcSubmit string "string list"

record 'w world =
  outside :: 'w
  rpcs :: "rpc list"

definition extI :: "('w, 'a) io \<Rightarrow> ('w world, 'a) io" where
  "extI m = (\<lambda>w. case m (outside w) of (r, e) \<Rightarrow> (r, w\<lparr>outside := e\<rparr>))"

definition logI :: "rpc \<Rightarrow> ('w world, unit) io" where
  "logI c = (\<lambda>w. (Inr (), w\<lparr>rpcs := rpcs w @ [c]\<rparr>))"

record ('pk, 'z) ark_config =
  CheckpointTapscript :: string
  SignerPubKey :: "'pk option"
  Network :: 'z

record ('pk, 'z) address =
  HRP :: string
  Signer :: "'pk option"
  VtxoTapKey :: 'z

record offchain_address =
  addr_Address :: string
  addr_Tapscripts :: "string list"

record 'z vtxo_with_taptree =
  tv_Vtxo :: "'z vtxo"
  tv_Tapscripts :: "string list"

record merkle_proof =
  mp_ControlBlock :: bytes
  mp_Script :: bytes

record 'z vtxo_input =
  vi_Outpoint :: outpoint
  vi_Amount :: i64
  vi_ControlBlock :: 'z
  vi_RevealedScript :: bytes
  vi_RevealedTapscripts :: "string list"

record ('aid, 'pk, 'x, 'z, 'w) taker_lib =
  contract :: "('aid, 'pk, 'x) contract_lib"
  assets :: "'aid asset_lib"
  map_order1 :: "string list \<Rightarrow> string list"
  map_order2 :: "string list \<Rightarrow> string list"
  GetConfigData :: "('w, ('pk, 'z) ark_config) io"
  TapTree :: "'pk closure list \<Rightarrow> ('z \<times> 'z) result"
  P2TRScript :: "'z \<Rightarrow> bytes result"
  Indexer_GetVtxos :: "string \<Rightarrow> ('w, 'z vtxo list) io"
  is_walletProvider :: bool
  ListSpendableVtxos :: "('w, 'z vtxo list) io"
  GetAddresses :: "('w, offchain_address list) io"
  IsRecoverable :: "'z vtxo \<Rightarrow> bool"
  vtxo_Address :: "'z vtxo \<Rightarrow> 'pk option \<Rightarrow> 'z \<Rightarrow> string result"
  NewOffchainAddress :: "('w, string) io"
  DecodeAddressV0 :: "string \<Rightarrow> ('pk, 'z) address result"
  NewIntrospectorPacket :: "u16 \<Rightarrow> bytes \<Rightarrow> 'x result"
  AssetPacket_asPacket :: "'aid asset_packet \<Rightarrow> 'x"
  Extension_TxOut :: "'x extension \<Rightarrow> txout result"
  closure_Script :: "'pk closure \<Rightarrow> bytes result"
  TapLeafHash :: "bytes \<Rightarrow> 'z"
  GetTaprootMerkleProof :: "'z \<Rightarrow> 'z \<Rightarrow> merkle_proof result"
  ParseControlBlock :: "bytes \<Rightarrow> 'z result"
  Encode :: "'pk closure list \<Rightarrow> string list result"
  NewHashFromStr :: "string \<Rightarrow> bytes result"
  ParseVtxoScript :: "string list \<Rightarrow> 'pk closure list option result"
  ForfeitClosures :: "'pk closure list \<Rightarrow> 'pk closure list"
  BuildTxs :: "'z vtxo_input list \<Rightarrow> txout list \<Rightarrow> bytes \<Rightarrow> ('z \<times> 'z list) result"
  B64Encode :: "'z \<Rightarrow> string result"
  SignTransaction :: "string \<Rightarrow> ('w, string) io"
  SubmitTx :: "string \<Rightarrow> string list \<Rightarrow> ('w, string) io"
  psbt_NewFromRawBytes :: "string \<Rightarrow> 'z result"
  TxHash_String :: "'z \<Rightarrow> string"

section \<open>Stages\<close>

text \<open>The contract is rebuilt from the offer and the operator's key, and must be the one the offer
  names.\<close>

record ('pk, 'z) contract_info =
  ci_cfg :: "('pk, 'z) ark_config"
  ci_checkpoint :: bytes
  ci_closures :: "'pk closure list"
  ci_tree :: 'z
  ci_pkScript :: bytes

definition rebuildContract :: "('aid, 'pk, 'x, 'z, 'w) taker_lib \<Rightarrow> ('aid, 'pk) offer \<Rightarrow>
    ('pk, 'z) ark_config \<Rightarrow> ('pk, 'z) contract_info result" where
  "rebuildContract T o' cfg =
     bindR (wrapR ''failed to decode checkpoint tapscript'' (DecodeString (CheckpointTapscript cfg)))
       (\<lambda>checkpoint.
     bindR (wrapR ''failed to build swap vtxo script''
              (VtxoScript (contract T) o' (SignerPubKey cfg))) (\<lambda>closures.
     bindR (wrapR ''failed to build swap taptree'' (TapTree T closures)) (\<lambda>(key, tree).
     bindR (wrapR ''failed to build swap pkscript'' (P2TRScript T key)) (\<lambda>pk.
       if pk \<noteq> SwapPkScript o'
       then failR (ErrNew
         ''offer inconsistency: swapAddress does not match reconstructed contract'')
       else Inr \<lparr>ci_cfg = cfg, ci_checkpoint = checkpoint, ci_closures = closures, ci_tree = tree,
                 ci_pkScript = pk\<rparr>))))"

definition fulfill_contract :: "('aid, 'pk, 'x, 'z, 'w) taker_lib \<Rightarrow> ('aid, 'pk) offer \<Rightarrow>
    ('w world, ('pk, 'z) contract_info) io" where
  "fulfill_contract T o' = bindI (extI (GetConfigData T)) (\<lambda>cfg. liftI (rebuildContract T o' cfg))"

definition fulfill_swapVtxo :: "('aid, 'pk, 'x, 'z, 'w) taker_lib \<Rightarrow> bytes \<Rightarrow> ('w world, 'z vtxo) io"
where
  "fulfill_swapVtxo T pk =
     bindI (wrapI ''failed to get swap vtxos'' (extI (Indexer_GetVtxos T (EncodeToString pk))))
       (\<lambda>vs. case vs of
          [] \<Rightarrow> liftI (failR (ErrNew ''no spendable VTXO found at swap address''))
        | v # _ \<Rightarrow> retI v)"

text \<open>The two nested loops that pair the taker's spendable outputs with the tapscripts of its
  addresses; recoverable outputs, and those without an address, are passed over.\<close>

definition collectTakerVtxos :: "('aid, 'pk, 'x, 'z, 'w) taker_lib \<Rightarrow> ('pk, 'z) ark_config \<Rightarrow>
    offchain_address list \<Rightarrow> 'z vtxo list \<Rightarrow> 'z vtxo_with_taptree list" where
  "collectTakerVtxos T cfg addrs vs =
     concat (map (\<lambda>addr. concat (map (\<lambda>v.
       if IsRecoverable T v then []
       else (case vtxo_Address T v (SignerPubKey cfg) (Network cfg) of
               Inl _ \<Rightarrow> []
             | Inr a \<Rightarrow> if a = addr_Address addr
                        then [\<lparr>tv_Vtxo = v, tv_Tapscripts = addr_Tapscripts addr\<rparr>] else []))
       vs)) addrs)"

definition fulfill_takerVtxos :: "('aid, 'pk, 'x, 'z, 'w) taker_lib \<Rightarrow> ('pk, 'z) ark_config \<Rightarrow>
    ('w world, 'z vtxo_with_taptree list) io" where
  "fulfill_takerVtxos T cfg =
     bindI (guardI (is_walletProvider T) (ErrNew ''arkClient does not provide wallet access'')) (\<lambda>_.
     bindI (wrapI ''failed to list taker vtxos'' (extI (ListSpendableVtxos T))) (\<lambda>vs.
     bindI (guardI (vs \<noteq> []) (ErrNew ''taker wallet has no VTXOs'')) (\<lambda>_.
     bindI (wrapI ''failed to get offchain addresses'' (extI (GetAddresses T))) (\<lambda>addrs.
     bindI (guardI (collectTakerVtxos T cfg addrs vs \<noteq> [])
              (ErrNew ''no taker VTXOs matched to offchain addresses'')) (\<lambda>_.
       retI (collectTakerVtxos T cfg addrs vs))))))"

definition fulfill_takerScript :: "('aid, 'pk, 'x, 'z, 'w) taker_lib \<Rightarrow> ('w world, bytes) io" where
  "fulfill_takerScript T =
     bindI (wrapI ''failed to get taker address'' (extI (NewOffchainAddress T))) (\<lambda>addr.
       liftI (bindR (wrapR ''failed to decode taker address'' (DecodeAddressV0 T addr)) (\<lambda>a.
              wrapR ''failed to build taker pkscript'' (P2TRScript T (VtxoTapKey a)))))"

definition totalTakerBtc :: "'z vtxo_with_taptree list \<Rightarrow> u64" where
  "totalTakerBtc tvs = sum_list (map (\<lambda>tv. vtxo_Amount (tv_Vtxo tv)) tvs)"

text \<open>The maker's BTC amount and the taker's change, both \<^verbatim>\<open>int64\<close>.\<close>

definition fulfillAmounts :: "u64 \<Rightarrow> ('aid, 'pk) offer \<Rightarrow> (i64 \<times> i64) result" where
  "fulfillAmounts funds o' =
     (let makerBtcAmount = (if WantAsset o' \<noteq> None then 330 else WantAmount o');
          btcChange = funds - makerBtcAmount
      in if sint btcChange < 0
         then failR (ErrFmt ''insufficient BTC: have %d, need %d''
                       [ArgInt (uint funds), ArgInt (sint makerBtcAmount)])
         else Inr (makerBtcAmount, btcChange))"

definition fulfillOutputs :: "('aid, 'pk) offer \<Rightarrow> u64 \<Rightarrow> bytes \<Rightarrow> i64 \<Rightarrow> i64 \<Rightarrow> txout list" where
  "fulfillOutputs o' swapAmount takerPkScript makerBtcAmount btcChange =
     [\<lparr>Value = makerBtcAmount, PkScript = MakerPkScript o'\<rparr>,
      \<lparr>Value = swapAmount + btcChange, PkScript = takerPkScript\<rparr>]"

definition fulfillExtension :: "('aid, 'pk, 'x, 'z, 'w) taker_lib \<Rightarrow> ('aid, 'pk) offer \<Rightarrow> 'z vtxo \<Rightarrow>
    'z vtxo_with_taptree list \<Rightarrow> txout result" where
  "fulfillExtension T o' swapVtxo tvs =
     bindR (wrapR ''failed to build fulfill script'' (FulfillScript (contract T) o')) (\<lambda>scr.
     bindR (wrapR ''failed to build introspector packet'' (NewIntrospectorPacket T 0 scr)) (\<lambda>ip.
     bindR (wrapR ''failed to build asset packet''
              (buildFulfillAssetPacket (contract T) (assets T) (map_order1 T) (map_order2 T)
                 (vtxo_Assets swapVtxo) (map (\<lambda>tv. vtxo_Assets (tv_Vtxo tv)) tvs) o')) (\<lambda>ap.
       wrapR ''failed to build extension output''
         (Extension_TxOut T ([OtherPacket ip]
            @ (case ap of None \<Rightarrow> [] | Some p \<Rightarrow> [OtherPacket (AssetPacket_asPacket T p)]))))))"

text \<open>The spending data of a leaf: the proof that the closure's script is in the tree.\<close>

definition leafProof :: "('aid, 'pk, 'x, 'z, 'w) taker_lib \<Rightarrow> string \<Rightarrow> string \<Rightarrow> 'z \<Rightarrow> bytes \<Rightarrow>
    ('z \<times> bytes) result" where
  "leafProof T proofMsg blockMsg tree scr =
     bindR (wrapR proofMsg (GetTaprootMerkleProof T tree (TapLeafHash T scr))) (\<lambda>proof.
     bindR (wrapR blockMsg (ParseControlBlock T (mp_ControlBlock proof))) (\<lambda>cb.
       Inr (cb, mp_Script proof)))"

definition swapInput :: "('aid, 'pk, 'x, 'z, 'w) taker_lib \<Rightarrow> ('pk, 'z) contract_info \<Rightarrow> 'z vtxo \<Rightarrow>
    'z vtxo_input result" where
  "swapInput T c swapVtxo =
     (case ci_closures c of
        [] \<Rightarrow> Inl (Panic ''index out of range'')
      | fulfillClosure # _ \<Rightarrow>
          bindR (wrapR ''failed to build fulfill closure script'' (closure_Script T fulfillClosure))
            (\<lambda>scr.
          bindR (leafProof T ''failed to get fulfill leaf merkle proof''
                   ''failed to parse control block'' (ci_tree c) scr) (\<lambda>(cb, revealed).
          bindR (wrapR ''failed to encode swap tapscripts'' (Encode T (ci_closures c))) (\<lambda>taps.
          bindR (wrapR ''failed to parse swap vtxo txid'' (NewHashFromStr T (vtxo_Txid swapVtxo)))
            (\<lambda>h.
            Inr \<lparr>vi_Outpoint = \<lparr>Hash = h, Index = vtxo_VOut swapVtxo\<rparr>,
                 vi_Amount = vtxo_Amount swapVtxo, vi_ControlBlock = cb,
                 vi_RevealedScript = revealed, vi_RevealedTapscripts = taps\<rparr>)))))"

definition takerInput :: "('aid, 'pk, 'x, 'z, 'w) taker_lib \<Rightarrow> 'z vtxo_with_taptree \<Rightarrow>
    'z vtxo_input result" where
  "takerInput T tv =
     bindR (wrapR ''failed to parse taker vtxo txid'' (NewHashFromStr T (vtxo_Txid (tv_Vtxo tv))))
       (\<lambda>h.
     bindR (wrapR ''failed to parse taker vtxo script'' (ParseVtxoScript T (tv_Tapscripts tv)))
       (\<lambda>parsed.
     case parsed of
       None \<Rightarrow> failR (ErrNew ''unexpected taker vtxo script type'')
     | Some closures \<Rightarrow>
        (case ForfeitClosures T closures of
           [] \<Rightarrow> failR (ErrNew ''taker vtxo has no forfeit closures'')
         | forfeitClosure # _ \<Rightarrow>
             bindR (wrapR ''failed to build forfeit closure script''
                      (closure_Script T forfeitClosure)) (\<lambda>scr.
             bindR (wrapR ''failed to build taker vtxo taptree'' (TapTree T closures))
               (\<lambda>(key, tree).
             bindR (leafProof T ''failed to get forfeit merkle proof''
                      ''failed to parse forfeit control block'' tree scr) (\<lambda>(cb, revealed).
             bindR (wrapR ''failed to encode taker vtxo tapscripts'' (Encode T closures)) (\<lambda>taps.
               Inr \<lparr>vi_Outpoint = \<lparr>Hash = h, Index = vtxo_VOut (tv_Vtxo tv)\<rparr>,
                    vi_Amount = vtxo_Amount (tv_Vtxo tv), vi_ControlBlock = cb,
                    vi_RevealedScript = revealed, vi_RevealedTapscripts = taps\<rparr>)))))))"

section \<open>The transaction plan\<close>

record 'z fulfill_plan =
  fp_inputs :: "'z vtxo_input list"
  fp_outputs :: "txout list"
  fp_checkpoint :: bytes

text \<open>From the amounts to the inputs, everything between the last query of a service and the first
  signature request.\<close>

definition planTx :: "('aid, 'pk, 'x, 'z, 'w) taker_lib \<Rightarrow> ('aid, 'pk) offer \<Rightarrow>
    ('pk, 'z) contract_info \<Rightarrow> 'z vtxo \<Rightarrow> 'z vtxo_with_taptree list \<Rightarrow> bytes \<Rightarrow>
    'z fulfill_plan result" where
  "planTx T o' c swapVtxo tvs takerPkScript =
     bindR (fulfillAmounts (totalTakerBtc tvs) o') (\<lambda>(makerBtcAmount, btcChange).
     bindR (fulfillExtension T o' swapVtxo tvs) (\<lambda>extTxOut.
     bindR (swapInput T c swapVtxo) (\<lambda>in0.
     bindR (mapR (takerInput T) tvs) (\<lambda>ins.
       Inr \<lparr>fp_inputs = in0 # ins,
            fp_outputs = fulfillOutputs o' (vtxo_Amount swapVtxo) takerPkScript makerBtcAmount btcChange
                         @ [extTxOut],
            fp_checkpoint = ci_checkpoint c\<rparr>))))"

definition prepareFulfill :: "('aid, 'pk, 'x, 'z, 'w) taker_lib \<Rightarrow> ('aid, 'pk) offer \<Rightarrow>
    ('w world, 'z fulfill_plan) io" where
  "prepareFulfill T o' =
     bindI (fulfill_contract T o') (\<lambda>c.
     bindI (fulfill_swapVtxo T (ci_pkScript c)) (\<lambda>swapVtxo.
     bindI (fulfill_takerVtxos T (ci_cfg c)) (\<lambda>tvs.
     bindI (fulfill_takerScript T) (\<lambda>takerPkScript.
       liftI (planTx T o' c swapVtxo tvs takerPkScript)))))"

section \<open>Signing and submission\<close>

definition signI :: "('aid, 'pk, 'x, 'z, 'w) taker_lib \<Rightarrow> string \<Rightarrow> ('w world, string) io" where
  "signI T tx = bindI (logI (RpcSign tx)) (\<lambda>_. extI (SignTransaction T tx))"

definition signCheckpoints :: "('aid, 'pk, 'x, 'z, 'w) taker_lib \<Rightarrow> 'z list \<Rightarrow>
    ('w world, string list) io" where
  "signCheckpoints T = mapI (\<lambda>cp.
     bindI (liftI (wrapR ''failed to encode checkpoint'' (B64Encode T cp))) (\<lambda>b64.
       wrapI ''failed to taker-sign checkpoint'' (signI T b64)))"

definition submitFulfill :: "('aid, 'pk, 'x, 'z, 'w) taker_lib \<Rightarrow> 'z fulfill_plan \<Rightarrow>
    ('w world, string) io" where
  "submitFulfill T p =
     bindI (liftI (wrapR ''failed to build offchain txs''
              (BuildTxs T (fp_inputs p) (fp_outputs p) (fp_checkpoint p)))) (\<lambda>(arkTx, checkpoints).
     bindI (liftI (wrapR ''failed to encode ark tx'' (B64Encode T arkTx))) (\<lambda>arkTxB64.
     bindI (wrapI ''failed to sign ark tx'' (signI T arkTxB64)) (\<lambda>signedArkTxB64.
     bindI (signCheckpoints T checkpoints) (\<lambda>checkpointB64s.
     bindI (logI (RpcSubmit signedArkTxB64 checkpointB64s)) (\<lambda>_.
     bindI (wrapI ''introspector submission failed''
              (extI (SubmitTx T signedArkTxB64 checkpointB64s))) (\<lambda>finalArkTxB64.
     bindI (liftI (wrapR ''failed to decode finalized ark tx''
              (psbt_NewFromRawBytes T finalArkTxB64))) (\<lambda>ptx.
       retI (TxHash_String T ptx))))))))"

definition FulfillOffer :: "('aid, 'pk, 'x, 'z, 'w) taker_lib \<Rightarrow> ('aid, 'pk) offer \<Rightarrow>
    ('w world, string) io" where
  "FulfillOffer T o' = bindI (prepareFulfill T o') (submitFulfill T)"

section \<open>Requests made by a computation\<close>

text \<open>\<open>emits m S\<close>: whatever the services answer, the requests \<open>m\<close> adds to the log and its result
  satisfy \<open>S\<close>.\<close>

definition emits :: "('w world, 'a) io \<Rightarrow> ('a result \<Rightarrow> rpc list \<Rightarrow> bool) \<Rightarrow> bool" where
  "emits m S \<longleftrightarrow> (\<forall>w. \<exists>new. rpcs (snd (m w)) = rpcs w @ new \<and> S (fst (m w)) new)"

abbreviation quiet :: "('w world, 'a) io \<Rightarrow> bool" where
  "quiet m \<equiv> emits m (\<lambda>_ new. new = [])"

lemma emitsD: "emits m S \<Longrightarrow> m w = (r, w') \<Longrightarrow> \<exists>new. rpcs w' = rpcs w @ new \<and> S r new"
  unfolding emits_def by (metis fst_conv snd_conv)

lemma emits_mono: "emits m S \<Longrightarrow> (\<And>r new. S r new \<Longrightarrow> U r new) \<Longrightarrow> emits m U"
  unfolding emits_def by blast

lemma quiet_extI [intro!]: "quiet (extI m)"
  by (auto simp: emits_def extI_def split: prod.splits)

lemma quiet_liftI [intro!]: "quiet (liftI r)" and quiet_retI [intro!]: "quiet (retI x)"
  and quiet_guardI [intro!]: "quiet (guardI b e)"
  by (auto simp: emits_def liftI_def retI_def guardI_def)

lemma emits_liftI: "S r [] \<Longrightarrow> emits (liftI r) S"
  by (auto simp: emits_def liftI_def)

lemma emits_logI: "S (Inr ()) [c] \<Longrightarrow> emits (logI c) S"
  by (auto simp: emits_def logI_def)

lemma emits_wrapI:
  "emits m S \<Longrightarrow> (\<And>r new. S r new \<Longrightarrow> U (wrapR msg r) new) \<Longrightarrow> emits (wrapI msg m) U"
  unfolding emits_def wrapI_def by fastforce

lemma quiet_wrapI [intro!]: "quiet m \<Longrightarrow> quiet (wrapI msg m)"
  by (erule emits_wrapI)

lemma emits_bindI:
  assumes "emits m S" and "\<And>x. emits (f x) (U x)"
    and "\<And>e new. S (Inl e) new \<Longrightarrow> V (Inl e) new"
    and "\<And>x new r new'. S (Inr x) new \<Longrightarrow> U x r new' \<Longrightarrow> V r (new @ new')"
  shows "emits (bindI m f) V"
  unfolding emits_def
proof
  fix w
  obtain r w1 where m: "m w = (r, w1)" by fastforce
  from emitsD [OF assms(1) m] obtain new where new: "rpcs w1 = rpcs w @ new" "S r new" by blast
  show "\<exists>new. rpcs (snd (bindI m f w)) = rpcs w @ new \<and> V (fst (bindI m f w)) new"
  proof (cases r)
    case (Inl e)
    with m new assms(3) show ?thesis by (auto simp: bindI_def)
  next
    case (Inr x)
    obtain r' w2 where f: "f x w1 = (r', w2)" by fastforce
    from emitsD [OF assms(2) f] obtain new' where "rpcs w2 = rpcs w1 @ new'" "U x r' new'" by blast
    with Inr m f new assms(4) show ?thesis by (fastforce simp: bindI_def)
  qed
qed

lemma quiet_bindI [intro]: "quiet m \<Longrightarrow> (\<And>x. quiet (f x)) \<Longrightarrow> quiet (bindI m f)"
  by (erule emits_bindI) auto

lemma quiet_prepareFulfill: "quiet (prepareFulfill T o')"
  unfolding prepareFulfill_def fulfill_contract_def fulfill_swapVtxo_def fulfill_takerVtxos_def
    fulfill_takerScript_def
  by (intro quiet_bindI quiet_wrapI quiet_extI quiet_liftI quiet_guardI quiet_retI)
    (auto split: list.split)

lemma emits_signI: "emits (signI T b) (\<lambda>_ new. new = [RpcSign b])"
  unfolding signI_def by (rule emits_bindI [OF emits_logI quiet_extI]) auto

text \<open>The checkpoints are encoded and signed in order, up to the first failure.\<close>

definition signed_encodings :: "('aid, 'pk, 'x, 'z, 'w) taker_lib \<Rightarrow> 'z list \<Rightarrow> rpc list \<Rightarrow> bool" where
  "signed_encodings T txs new \<longleftrightarrow>
     (\<exists>bs. new = map RpcSign bs \<and> list_all2 (\<lambda>tx b. B64Encode T tx = Inr b) txs bs)"

lemma signed_encodings_Nil [simp]: "signed_encodings T [] new \<longleftrightarrow> new = []"
  by (auto simp: signed_encodings_def)

lemma signed_encodings_Cons:
  "B64Encode T tx = Inr b \<Longrightarrow> signed_encodings T txs new \<Longrightarrow>
   signed_encodings T (tx # txs) (RpcSign b # new)"
  unfolding signed_encodings_def by (elim exE, rule_tac x = "b # bs" in exI) simp

definition checkpoint_requests :: "('aid, 'pk, 'x, 'z, 'w) taker_lib \<Rightarrow> 'z list \<Rightarrow>
    'b list result \<Rightarrow> rpc list \<Rightarrow> bool" where
  "checkpoint_requests T cps r new \<longleftrightarrow>
     (\<exists>n. signed_encodings T (take n cps) new)
   \<and> (\<forall>bs. r = Inr bs \<longrightarrow> length bs = length cps \<and> signed_encodings T cps new)"

lemma emits_signCheckpoints: "emits (signCheckpoints T cps) (checkpoint_requests T cps)"
proof (induction cps)
  case Nil
  show ?case
    by (auto simp: signCheckpoints_def emits_def retI_def checkpoint_requests_def)
next
  case (Cons cp cps)
  let ?m = "bindI (liftI (wrapR ''failed to encode checkpoint'' (B64Encode T cp))) (\<lambda>b64.
     wrapI ''failed to taker-sign checkpoint'' (signI T b64))"
  let ?S = "\<lambda>r new. (new = [] \<and> isl r) \<or> (\<exists>b. B64Encode T cp = Inr b \<and> new = [RpcSign b])"
  have m: "emits ?m ?S"
  proof (rule emits_bindI)
    show "emits (liftI (wrapR ''failed to encode checkpoint'' (B64Encode T cp)))
        (\<lambda>r new. new = [] \<and> r = wrapR ''failed to encode checkpoint'' (B64Encode T cp))"
      by (simp add: emits_liftI)
    show "emits (wrapI ''failed to taker-sign checkpoint'' (signI T b)) (\<lambda>_ new. new = [RpcSign b])" for b
      by (rule emits_wrapI [OF emits_signI])
  qed (auto simp: wrapR_eq_Inr dest: sym)
  have step: "signCheckpoints T (cp # cps)
      = bindI ?m (\<lambda>y. bindI (signCheckpoints T cps) (\<lambda>ys. retI (y # ys)))"
    by (simp add: signCheckpoints_def)
  have rest: "emits (bindI (signCheckpoints T cps) (\<lambda>ys. retI (y # ys)))
      (\<lambda>r new. (\<exists>n. signed_encodings T (take n cps) new)
         \<and> (\<forall>bs. r = Inr bs \<longrightarrow> length bs = Suc (length cps) \<and> signed_encodings T cps new))" for y
    by (rule emits_bindI [OF Cons.IH, where U = "\<lambda>x r new. new = [] \<and> r = Inr (y # x)"])
      (auto simp: checkpoint_requests_def emits_def retI_def)
  show ?case
    unfolding step
  proof (rule emits_bindI [OF m rest], goal_cases)
    case (1 e new)
    then have "signed_encodings T (take 0 (cp # cps)) new \<or> signed_encodings T (take (Suc 0) (cp # cps)) new"
      by (auto simp: signed_encodings_Cons)
    then show ?case unfolding checkpoint_requests_def by blast
  next
    case (2 x new r new')
    then obtain b n where b: "B64Encode T cp = Inr b" "new = [RpcSign b]"
      and n: "signed_encodings T (take n cps) new'" by auto
    have "signed_encodings T (take (Suc n) (cp # cps)) (new @ new')"
      using signed_encodings_Cons [OF b(1) n] b(2) by simp
    moreover have "length bs = length (cp # cps) \<and> signed_encodings T (cp # cps) (new @ new')"
      if "r = Inr bs" for bs
      using 2 b that by (auto intro: signed_encodings_Cons)
    ultimately show ?case unfolding checkpoint_requests_def by blast
  qed
qed

text \<open>The requests of a submission: the encoded transaction is signed first, then the checkpoints in
  order, and only when all are signed is the bundle submitted, once.\<close>

definition is_sign :: "rpc \<Rightarrow> bool" where
  "is_sign c = (case c of RpcSign _ \<Rightarrow> True | RpcSubmit _ _ \<Rightarrow> False)"

definition submission :: "('aid, 'pk, 'x, 'z, 'w) taker_lib \<Rightarrow> 'z fulfill_plan \<Rightarrow> string result \<Rightarrow>
    rpc list \<Rightarrow> bool" where
  "submission T p r new \<longleftrightarrow>
     (list_all is_sign new \<and> isl r)
   \<or> (\<exists>signs tx cps arkTx checkpoints. new = signs @ [RpcSubmit tx cps]
        \<and> BuildTxs T (fp_inputs p) (fp_outputs p) (fp_checkpoint p) = Inr (arkTx, checkpoints)
        \<and> signed_encodings T (arkTx # checkpoints) signs \<and> length cps = length checkpoints)"

lemma signed_encodings_is_sign: "signed_encodings T txs new \<Longrightarrow> list_all is_sign new"
  by (auto simp: signed_encodings_def is_sign_def list_all_iff)

lemma emits_submitFulfill: "emits (submitFulfill T p) (submission T p)"
proof -
  let ?build = "BuildTxs T (fp_inputs p) (fp_outputs p) (fp_checkpoint p)"
  let ?last = "\<lambda>tx cps. bindI (logI (RpcSubmit tx cps)) (\<lambda>_.
     bindI (wrapI ''introspector submission failed'' (extI (SubmitTx T tx cps))) (\<lambda>final.
     bindI (liftI (wrapR ''failed to decode finalized ark tx'' (psbt_NewFromRawBytes T final)))
       (\<lambda>ptx. retI (TxHash_String T ptx))))"
  have last: "emits (?last tx cps) (\<lambda>_ new. new = [RpcSubmit tx cps])" for tx cps
    by (rule emits_bindI [OF emits_logI [where S = "\<lambda>r new. new = [RpcSubmit tx cps] \<and> r = Inr ()"]],
        simp, rule quiet_bindI) auto
  have cps: "emits (bindI (signCheckpoints T cs) (?last tx)) (\<lambda>r new.
      (list_all is_sign new \<and> isl r) \<or>
      (\<exists>signs bs. new = signs @ [RpcSubmit tx bs] \<and> signed_encodings T cs signs \<and> length bs = length cs))"
    for cs tx
    by (rule emits_bindI [OF emits_signCheckpoints last])
      (auto simp: checkpoint_requests_def intro: signed_encodings_is_sign)
  have sign: "emits (wrapI ''failed to sign ark tx'' (signI T b)) (\<lambda>_ new. new = [RpcSign b])" for b
    by (rule emits_wrapI [OF emits_signI])
  have arkTx: "emits (bindI (wrapI ''failed to sign ark tx'' (signI T b)) (\<lambda>tx.
        bindI (signCheckpoints T cs) (?last tx))) (\<lambda>r new. (list_all is_sign new \<and> isl r) \<or>
      (\<exists>signs tx bs. new = RpcSign b # signs @ [RpcSubmit tx bs] \<and> signed_encodings T cs signs
         \<and> length bs = length cs))" for b cs
    by (rule emits_bindI [OF sign cps]) (auto simp: is_sign_def)
  have enc: "emits (bindI (liftI (wrapR ''failed to encode ark tx'' (B64Encode T a))) (\<lambda>b.
      bindI (wrapI ''failed to sign ark tx'' (signI T b)) (\<lambda>tx.
        bindI (signCheckpoints T cs) (?last tx)))) (\<lambda>r new. (list_all is_sign new \<and> isl r) \<or>
      (\<exists>signs tx bs. new = signs @ [RpcSubmit tx bs] \<and> signed_encodings T (a # cs) signs
         \<and> length bs = length cs))" for a cs
    by (rule emits_bindI [OF emits_liftI [where S = "\<lambda>r new. new = [] \<and>
            r = wrapR ''failed to encode ark tx'' (B64Encode T a)"] arkTx])
      (auto simp: wrapR_eq_Inr intro!: signed_encodings_Cons dest!: sym [of _ "wrapR _ _"])
  show ?thesis
    unfolding submitFulfill_def
  proof (rule emits_bindI)
    show "emits (liftI (wrapR ''failed to build offchain txs'' ?build))
      (\<lambda>r new. new = [] \<and> r = wrapR ''failed to build offchain txs'' ?build)"
      by (simp add: emits_liftI)
    show "emits (case x of (a, cs) \<Rightarrow>
          bindI (liftI (wrapR ''failed to encode ark tx'' (B64Encode T a))) (\<lambda>b.
          bindI (wrapI ''failed to sign ark tx'' (signI T b)) (\<lambda>tx.
          bindI (signCheckpoints T cs) (?last tx))))
       (\<lambda>r new. (list_all is_sign new \<and> isl r) \<or>
          (\<exists>signs tx bs. new = signs @ [RpcSubmit tx bs]
             \<and> signed_encodings T (fst x # snd x) signs \<and> length bs = length (snd x)))" for x
      using enc by (cases x) simp
  qed (auto simp: wrapR_eq_Inr submission_def dest!: sym [of _ "wrapR _ _"])
qed

section \<open>The plan\<close>

lemma VtxoScript_nonempty: "VtxoScript L s k = Inr cs \<Longrightarrow> cs \<noteq> []"
  by (auto simp: VtxoScript_def bindR_eq_Inr)

definition contract_matches :: "('aid, 'pk, 'x, 'z, 'w) taker_lib \<Rightarrow> ('aid, 'pk) offer \<Rightarrow> bool" where
  "contract_matches T o' \<longleftrightarrow> (\<exists>server closures key tree.
     VtxoScript (contract T) o' server = Inr closures \<and> TapTree T closures = Inr (key, tree)
   \<and> P2TRScript T key = Inr (SwapPkScript o'))"

lemma fulfill_contract_matches:
  "fulfill_contract T o' w = (Inr c, w') \<Longrightarrow> contract_matches T o'"
  by (auto simp: fulfill_contract_def rebuildContract_def result_simps contract_matches_def
      split: if_splits)

lemma prepareFulfill_Inr:
  assumes "prepareFulfill T o' w = (Inr p, w')"
  obtains c swapVtxo tvs scr where "contract_matches T o'"
    and "planTx T o' c swapVtxo tvs scr = Inr p"
  using assms
  by (auto simp: prepareFulfill_def result_simps dest!: fulfill_contract_matches)

text \<open>The outpoint of an input is that of its coin.\<close>

definition coin_outpoint :: "('aid, 'pk, 'x, 'z, 'w) taker_lib \<Rightarrow> 'z vtxo \<Rightarrow> outpoint result" where
  "coin_outpoint T v = bindR (NewHashFromStr T (vtxo_Txid v)) (\<lambda>h. Inr \<lparr>Hash = h, Index = vtxo_VOut v\<rparr>)"

lemma takerInput_outpoint:
  "takerInput T tv = Inr i \<Longrightarrow> coin_outpoint T (tv_Vtxo tv) = Inr (vi_Outpoint i)"
  by (auto simp: takerInput_def coin_outpoint_def result_simps split: list.splits option.splits)

lemma swapInput_outpoint:
  "swapInput T c v = Inr i \<Longrightarrow> coin_outpoint T v = Inr (vi_Outpoint i)"
  by (auto simp: swapInput_def coin_outpoint_def result_simps split: list.splits)

lemma prepareFulfill_stages:
  assumes "prepareFulfill T o' w = (Inr p, w')"
  obtains c v vs tvs scr w1 w2 w3 w4 where
    "fulfill_contract T o' w = (Inr c, w1)" and "ci_pkScript c = SwapPkScript o'"
    and "extI (Indexer_GetVtxos T (EncodeToString (SwapPkScript o'))) w1 = (Inr (v # vs), w2)"
    and "fulfill_takerVtxos T (ci_cfg c) w2 = (Inr tvs, w3)"
    and "fulfill_takerScript T w3 = (Inr scr, w')" and "planTx T o' c v tvs scr = Inr p"
proof -
  obtain c w1 v w2 tvs w3 scr where *: "fulfill_contract T o' w = (Inr c, w1)"
    "fulfill_swapVtxo T (ci_pkScript c) w1 = (Inr v, w2)"
    "fulfill_takerVtxos T (ci_cfg c) w2 = (Inr tvs, w3)"
    "fulfill_takerScript T w3 = (Inr scr, w')" "planTx T o' c v tvs scr = Inr p"
    using assms by (auto simp: prepareFulfill_def result_simps)
  have "ci_pkScript c = SwapPkScript o'"
    using *(1) by (auto simp: fulfill_contract_def rebuildContract_def result_simps split: if_splits)
  moreover obtain xs w2' where x: "extI (Indexer_GetVtxos T (EncodeToString (ci_pkScript c))) w1 = (Inr xs, w2')"
    "(case xs of [] \<Rightarrow> liftI (failR (ErrNew ''no spendable VTXO found at swap address'')) | v # _ \<Rightarrow> retI v) w2' = (Inr v, w2)"
    using *(2) by (auto simp: fulfill_swapVtxo_def bindI_eq_Inr wrapI_eq_Inr)
  moreover have "\<exists>vs. xs = v # vs \<and> w2' = w2" using x(2) by (cases xs) (auto simp: liftI_def retI_def)
  ultimately show ?thesis using that * by auto
qed

lemma swapInput_amount: "swapInput T c v = Inr i \<Longrightarrow> vi_Amount i = vtxo_Amount v"
  by (auto simp: swapInput_def result_simps)

lemma takerInput_amount: "takerInput T tv = Inr i \<Longrightarrow> vi_Amount i = vtxo_Amount (tv_Vtxo tv)"
  by (auto simp: takerInput_def result_simps)

lemma takerInputs_amounts:
  "mapR (takerInput T) tvs = Inr ins \<Longrightarrow> map vi_Amount ins = map (\<lambda>tv. vtxo_Amount (tv_Vtxo tv)) tvs"
  unfolding mapR_eq_Inr
  by (induction rule: list_all2_induct) (simp_all add: takerInput_amount)

lemma fulfillAmounts_Inr:
  assumes "fulfillAmounts funds o' = Inr (m, c)" and "unat funds < 2 ^ 63"
    and "WantAsset o' = None \<Longrightarrow> unat (WantAmount o') < 2 ^ 63"
  shows "sint m = (if WantAsset o' = None then uint (WantAmount o') else 330)"
    and "sint c = uint funds - sint m" and "0 \<le> sint c"
proof -
  from assms(1) have m: "m = (if WantAsset o' \<noteq> None then 330 else WantAmount o')" "c = funds - m"
    and c: "0 \<le> sint c"
    by (auto simp: fulfillAmounts_def Let_def split: if_splits)
  show sm: "sint m = (if WantAsset o' = None then uint (WantAmount o') else 330)"
    using assms(3) sint_eq_uint_u64 [of "WantAmount o'"] by (auto simp: m)
  have f: "sint funds = uint funds" "uint funds < 2 ^ 63"
    using assms(2) sint_eq_uint_u64 [of funds] uint_less_63 [of funds] by simp_all
  have "0 \<le> sint m \<and> sint m < 2 ^ 63"
    using assms(3) uint_less_63 [of "WantAmount o'"] by (auto simp: sm)
  with f uint_ge_0 [of funds] show "sint c = uint funds - sint m"
    unfolding m(2) by (subst sint_sub_u64) linarith+
  show "0 \<le> sint c" by (rule c)
qed

definition amount_sum :: "'z vtxo_input list \<Rightarrow> nat" where
  "amount_sum ins = sum_list (map (\<lambda>i. unat (vi_Amount i)) ins)"

lemma planTx_balance:
  assumes "planTx T o' c v tvs scr = Inr p" and "amount_sum (fp_inputs p) < 2 ^ 63"
    and "WantAsset o' = None \<Longrightarrow> unat (WantAmount o') < 2 ^ 63"
  shows "\<exists>m t e. fp_outputs p = [\<lparr>Value = m, PkScript = MakerPkScript o'\<rparr>, \<lparr>Value = t, PkScript = scr\<rparr>, e]
    \<and> sint m = (if WantAsset o' = None then uint (WantAmount o') else 330)
    \<and> uint (vi_Amount (hd (fp_inputs p))) \<le> sint t
    \<and> sint m + sint t = int (amount_sum (fp_inputs p))"
proof -
  from assms(1) obtain m ch e in0 ins where amts: "fulfillAmounts (totalTakerBtc tvs) o' = Inr (m, ch)"
    and in0: "swapInput T c v = Inr in0" and ins: "mapR (takerInput T) tvs = Inr ins"
    and p: "fp_inputs p = in0 # ins"
      "fp_outputs p = fulfillOutputs o' (vtxo_Amount v) scr m ch @ [e]"
    by (auto simp: planTx_def bindR_eq_Inr)
  let ?taker = "sum_list (map (\<lambda>i. unat (vi_Amount i)) ins)"
  have v: "vi_Amount in0 = vtxo_Amount v" by (rule swapInput_amount [OF in0])
  have sum: "amount_sum (fp_inputs p) = unat (vtxo_Amount v) + ?taker"
    by (simp add: amount_sum_def p v)
  have lt: "unat (vtxo_Amount v) + ?taker < 2 ^ 63" using assms(2) sum by simp
  have "totalTakerBtc tvs = sum_list (map vi_Amount ins)"
    by (simp add: totalTakerBtc_def takerInputs_amounts [OF ins])
  then have tot: "unat (totalTakerBtc tvs) = ?taker"
    using lt unat_sum_list [of vi_Amount ins] by simp
  have tot': "uint (totalTakerBtc tvs) = int ?taker" using tot by (simp flip: tot)
  have a: "sint m = (if WantAsset o' = None then uint (WantAmount o') else 330)"
    "sint ch = int ?taker - sint m" "0 \<le> sint ch"
    using fulfillAmounts_Inr [OF amts _ assms(3)] tot lt by (simp_all add: tot')
  have m: "0 \<le> sint m" by (simp add: a(1))
  have ilt: "uint (vtxo_Amount v) + int ?taker < 2 ^ 63"
    using lt of_nat_less_iff [of "unat (vtxo_Amount v) + ?taker" "2 ^ 63", where 'a = int] by simp
  have s: "sint (vtxo_Amount v) = uint (vtxo_Amount v)"
    using lt sint_eq_uint_u64 [of "vtxo_Amount v"] by simp
  have t: "sint (vtxo_Amount v + ch) = uint (vtxo_Amount v) + (int ?taker - sint m)"
    using a(2,3) m s ilt uint_ge_0 [of "vtxo_Amount v"] by (subst sint_add_u64) linarith+
  have "sint m + sint (vtxo_Amount v + ch) = int (amount_sum (fp_inputs p))"
    unfolding t sum by simp
  moreover have "uint (vi_Amount (hd (fp_inputs p))) \<le> sint (vtxo_Amount v + ch)"
    using a(2,3) unfolding t by (simp add: p v)
  ultimately show ?thesis using a(1) by (intro exI conjI) (auto simp: p(2) fulfillOutputs_def)
qed

lemma FulfillOffer_cases:
  assumes "FulfillOffer T o' w = (r, w')"
  shows "(rpcs w' = rpcs w \<and> isl r)
    \<or> (\<exists>p w1 new. prepareFulfill T o' w = (Inr p, w1) \<and> contract_matches T o'
         \<and> rpcs w' = rpcs w @ new \<and> submission T p r new)"
proof -
  obtain q w1 where q: "prepareFulfill T o' w = (q, w1)" by fastforce
  from emitsD [OF quiet_prepareFulfill q] have same: "rpcs w1 = rpcs w" by simp
  show ?thesis
  proof (cases q)
    case (Inl e)
    with assms q same show ?thesis by (auto simp: FulfillOffer_def bindI_def)
  next
    case (Inr p)
    with assms q have "submitFulfill T p w1 = (r, w')" by (simp add: FulfillOffer_def bindI_def)
    from emitsD [OF emits_submitFulfill this] same Inr q show ?thesis
      by (auto elim: prepareFulfill_Inr)
  qed
qed

section \<open>The taker's inputs\<close>

definition at_address :: "('aid, 'pk, 'x, 'z, 'w) taker_lib \<Rightarrow> ('pk, 'z) ark_config \<Rightarrow> string \<Rightarrow>
    'z vtxo \<Rightarrow> bool" where
  "at_address T cfg a v \<longleftrightarrow>
     \<not> IsRecoverable T v \<and> vtxo_Address T v (SignerPubKey cfg) (Network cfg) = Inr a"

lemma map_concat_at_address:
  "concat (map (\<lambda>v. if IsRecoverable T v then []
       else (case vtxo_Address T v (SignerPubKey cfg) (Network cfg) of Inl _ \<Rightarrow> []
             | Inr a \<Rightarrow> if a = addr_Address addr
                        then [\<lparr>tv_Vtxo = v, tv_Tapscripts = addr_Tapscripts addr\<rparr>] else [])) vs)
   = map (\<lambda>v. \<lparr>tv_Vtxo = v, tv_Tapscripts = addr_Tapscripts addr\<rparr>)
       (filter (at_address T cfg (addr_Address addr)) vs)"
  by (induction vs) (auto simp: at_address_def split: sum.splits)

lemma collectTakerVtxos_Vtxos:
  "map tv_Vtxo (collectTakerVtxos T cfg addrs vs)
   = concat (map (\<lambda>a. filter (at_address T cfg a) vs) (map addr_Address addrs))"
  unfolding collectTakerVtxos_def map_concat_at_address
  by (induction addrs) (simp_all add: comp_def)

lemma distinct_concat_filter:
  assumes "distinct as" and "distinct vs" and "\<And>a b v. P a v \<Longrightarrow> P b v \<Longrightarrow> a = b"
  shows "distinct (concat (map (\<lambda>a. filter (P a) vs) as))"
  using assms(1)
proof (induction as)
  case (Cons a as)
  then show ?case using assms(2,3) by (auto simp: distinct_filter)
qed simp

lemma collectTakerVtxos_distinct:
  "distinct (map addr_Address addrs) \<Longrightarrow> distinct vs \<Longrightarrow>
   distinct (map tv_Vtxo (collectTakerVtxos T cfg addrs vs))"
  unfolding collectTakerVtxos_Vtxos
  by (rule distinct_concat_filter) (auto simp: at_address_def)

lemma collectTakerVtxos_set:
  "v \<in> tv_Vtxo ` set (collectTakerVtxos T cfg addrs vs) \<longleftrightarrow>
     v \<in> set vs \<and> \<not> IsRecoverable T v
     \<and> (\<exists>a \<in> addr_Address ` set addrs. vtxo_Address T v (SignerPubKey cfg) (Network cfg) = Inr a)"
  by (subst list.set_map [symmetric], subst collectTakerVtxos_Vtxos) (auto simp: at_address_def)

section \<open>A sample environment\<close>

definition sample_vtxo :: "string \<Rightarrow> u64 \<Rightarrow> vtxo_asset list \<Rightarrow> bytes vtxo" where
  "sample_vtxo txid amt as = \<lparr>vtxo_Txid = txid, vtxo_VOut = 0, vtxo_Amount = amt, vtxo_Assets = as,
     vtxo_Spent = False, vtxo_rest = []\<rparr>"

definition sample_taker :: "(bytes, bytes, unit, bytes, unit) taker_lib" where
  "sample_taker =
     \<lparr>contract = sample_lib, assets = sample_asset_lib, map_order1 = rev, map_order2 = (\<lambda>ks. ks),
      GetConfigData = retI \<lparr>CheckpointTapscript = ''51'', SignerPubKey = Some (replicate 32 9),
        Network = []\<rparr>,
      TapTree = (\<lambda>cs. Inr (replicate 32 1, [])),
      P2TRScript = (\<lambda>k. Inr (0x51 # 0x20 # k)),
      Indexer_GetVtxos = (\<lambda>s. retI [sample_vtxo ''aa'' 5000 sample_swap_assets]),
      is_walletProvider = True,
      ListSpendableVtxos = retI [sample_vtxo ''bb'' 600 (sample_taker_assets ! 0),
        sample_vtxo ''cc'' 400 (sample_taker_assets ! 1)],
      GetAddresses = retI [\<lparr>addr_Address = ''addr'', addr_Tapscripts = [''ff'']\<rparr>],
      IsRecoverable = (\<lambda>v. vtxo_Spent v),
      vtxo_Address = (\<lambda>v k n. Inr ''addr''),
      NewOffchainAddress = retI ''new'',
      DecodeAddressV0 = (\<lambda>a. Inr \<lparr>HRP = ''ark'', Signer = None, VtxoTapKey = replicate 32 6\<rparr>),
      NewIntrospectorPacket = (\<lambda>v s. Inr ()),
      AssetPacket_asPacket = (\<lambda>p. ()),
      Extension_TxOut = (\<lambda>e. Inr \<lparr>Value = 0, PkScript = [0x6a]\<rparr>),
      closure_Script = (\<lambda>c. Inr [0x51]),
      TapLeafHash = (\<lambda>s. s),
      GetTaprootMerkleProof = (\<lambda>t h. Inr \<lparr>mp_ControlBlock = [0xc0], mp_Script = h\<rparr>),
      ParseControlBlock = (\<lambda>b. Inr b),
      Encode = (\<lambda>cs. Inr [''51'']),
      NewHashFromStr = (\<lambda>s. if length s = 2 then Inr (map of_char s) else failR (ErrExt ''hash'')),
      ParseVtxoScript = (\<lambda>ts. Inr (Some [MultisigClosure [None]])),
      ForfeitClosures = (\<lambda>cs. cs),
      BuildTxs = (\<lambda>ins outs c. Inr ([1], map (\<lambda>_. [2]) ins)),
      B64Encode = (\<lambda>tx. Inr (EncodeToString tx)),
      SignTransaction = (\<lambda>tx. retI (tx @ ''s'')),
      SubmitTx = (\<lambda>tx cps. retI tx),
      psbt_NewFromRawBytes = (\<lambda>s. Inr [1]),
      TxHash_String = EncodeToString\<rparr>"

lemma sample_taker_sel [simp]:
  "contract sample_taker = sample_lib"
  "assets sample_taker = sample_asset_lib"
  "map_order1 sample_taker = rev"
  "map_order2 sample_taker = (\<lambda>ks. ks)"
  "GetConfigData sample_taker = retI \<lparr>CheckpointTapscript = ''51'', SignerPubKey = Some (replicate 32 9), Network = []\<rparr>"
  "TapTree sample_taker = (\<lambda>cs. Inr (replicate 32 1, []))"
  "P2TRScript sample_taker = (\<lambda>k. Inr (0x51 # 0x20 # k))"
  "Indexer_GetVtxos sample_taker = (\<lambda>s. retI [sample_vtxo ''aa'' 5000 sample_swap_assets])"
  "is_walletProvider sample_taker = True"
  "ListSpendableVtxos sample_taker = retI [sample_vtxo ''bb'' 600 (sample_taker_assets ! 0), sample_vtxo ''cc'' 400 (sample_taker_assets ! 1)]"
  "GetAddresses sample_taker = retI [\<lparr>addr_Address = ''addr'', addr_Tapscripts = [''ff'']\<rparr>]"
  "IsRecoverable sample_taker = (\<lambda>v. vtxo_Spent v)"
  "vtxo_Address sample_taker = (\<lambda>v k n. Inr ''addr'')"
  "NewOffchainAddress sample_taker = retI ''new''"
  "DecodeAddressV0 sample_taker = (\<lambda>a. Inr \<lparr>HRP = ''ark'', Signer = None, VtxoTapKey = replicate 32 6\<rparr>)"
  "NewIntrospectorPacket sample_taker = (\<lambda>v s. Inr ())"
  "AssetPacket_asPacket sample_taker = (\<lambda>p. ())"
  "Extension_TxOut sample_taker = (\<lambda>e. Inr \<lparr>Value = 0, PkScript = [0x6a]\<rparr>)"
  "closure_Script sample_taker = (\<lambda>c. Inr [0x51])"
  "TapLeafHash sample_taker = (\<lambda>s. s)"
  "GetTaprootMerkleProof sample_taker = (\<lambda>t h. Inr \<lparr>mp_ControlBlock = [0xc0], mp_Script = h\<rparr>)"
  "ParseControlBlock sample_taker = (\<lambda>b. Inr b)"
  "Encode sample_taker = (\<lambda>cs. Inr [''51''])"
  "NewHashFromStr sample_taker = (\<lambda>s. if length s = 2 then Inr (map of_char s) else failR (ErrExt ''hash''))"
  "ParseVtxoScript sample_taker = (\<lambda>ts. Inr (Some [MultisigClosure [None]]))"
  "ForfeitClosures sample_taker = (\<lambda>cs. cs)"
  "BuildTxs sample_taker = (\<lambda>ins outs c. Inr ([1], map (\<lambda>_. [2]) ins))"
  "B64Encode sample_taker = (\<lambda>tx. Inr (EncodeToString tx))"
  "SignTransaction sample_taker = (\<lambda>tx. retI (tx @ ''s''))"
  "SubmitTx sample_taker = (\<lambda>tx cps. retI tx)"
  "psbt_NewFromRawBytes sample_taker = (\<lambda>s. Inr [1])"
  "TxHash_String sample_taker = EncodeToString"
  by (simp_all add: sample_taker_def)
lemmas io_eval = bindI_def extI_def retI_def liftI_def wrapI_def guardI_def logI_def

lemma unit_world [simp]: "w\<lparr>outside := ()\<rparr> = (w :: unit world)"
  by (cases w) simp

lemma sample_rebuild:
  "\<exists>c. rebuildContract sample_taker sample_offer \<lparr>CheckpointTapscript = ''51'',
     SignerPubKey = Some (replicate 32 9), Network = []\<rparr> = Inr c \<and> ci_closures c \<noteq> []"
proof -
  have "DecodeString ''51'' = Inr [0x51]" by code_simp
  moreover obtain cs where "VtxoScript sample_lib sample_offer (Some (replicate 32 9)) = Inr cs"
    by (simp add: VtxoScript_def FulfillScript_def fulfillOps_def sample_lib_def sample_offer_def
        zero_offer_def Let_def)
  moreover have "SwapPkScript sample_offer = 0x51 # 0x20 # replicate 32 1"
    by (simp add: sample_offer_def)
  ultimately show ?thesis
    by (simp add: rebuildContract_def VtxoScript_nonempty)
qed

definition sample_tvs :: "bytes vtxo_with_taptree list" where
  "sample_tvs = [\<lparr>tv_Vtxo = sample_vtxo ''bb'' 600 (sample_taker_assets ! 0), tv_Tapscripts = [''ff'']\<rparr>,
     \<lparr>tv_Vtxo = sample_vtxo ''cc'' 400 (sample_taker_assets ! 1), tv_Tapscripts = [''ff'']\<rparr>]"

lemma sample_takerVtxos:
  "fulfill_takerVtxos sample_taker cfg w = (Inr sample_tvs, w)"
  by (simp add: fulfill_takerVtxos_def io_eval collectTakerVtxos_def sample_tvs_def sample_vtxo_def)

lemma sample_extension:
  assumes "buildFulfillAssetPacket sample_lib sample_asset_lib rev (\<lambda>ks. ks) as sample_taker_assets sample_offer = Inr q"
  shows "\<exists>e. fulfillExtension sample_taker sample_offer (sample_vtxo txid amt as) sample_tvs = Inr e"
proof -
  have "map (\<lambda>tv. vtxo_Assets (tv_Vtxo tv)) sample_tvs = sample_taker_assets"
    by (simp add: sample_tvs_def sample_vtxo_def sample_taker_assets_def)
  moreover obtain s where "FulfillScript sample_lib sample_offer = Inr s"
    by (simp add: FulfillScript_def fulfillOps_def sample_lib_def sample_offer_def
        zero_offer_def Let_def)
  ultimately show ?thesis using assms by (simp add: fulfillExtension_def sample_vtxo_def)
qed

lemma sample_plan:
  assumes "ci_closures c \<noteq> []" and "length txid = 2"
    and "buildFulfillAssetPacket sample_lib sample_asset_lib rev (\<lambda>ks. ks) as sample_taker_assets sample_offer = Inr q"
  shows "\<exists>p i j k. planTx sample_taker sample_offer c (sample_vtxo txid amt as) sample_tvs scr = Inr p
     \<and> fp_inputs p = [i, j, k] \<and> vi_Outpoint i = \<lparr>Hash = map of_char txid, Index = 0\<rparr>
     \<and> vi_Amount i = amt \<and> vi_Amount j = 600 \<and> vi_Amount k = 400"
proof -
  have "\<exists>i. swapInput sample_taker c (sample_vtxo txid amt as) = Inr i \<and> vi_Amount i = amt
      \<and> vi_Outpoint i = \<lparr>Hash = map of_char txid, Index = 0\<rparr>"
    using assms by (cases "ci_closures c") (simp_all add: swapInput_def leafProof_def sample_vtxo_def)
  moreover have "\<exists>i j. mapR (takerInput sample_taker) sample_tvs = Inr [i, j] \<and> vi_Amount i = 600 \<and> vi_Amount j = 400"
    by (simp add: takerInput_def leafProof_def sample_tvs_def sample_vtxo_def)
  moreover have "fulfillAmounts (totalTakerBtc sample_tvs) sample_offer = Inr (330, 670)"
    by (simp add: fulfillAmounts_def totalTakerBtc_def sample_tvs_def sample_vtxo_def sample_offer_def)
  moreover obtain e where "fulfillExtension sample_taker sample_offer (sample_vtxo txid amt as) sample_tvs = Inr e"
    using sample_extension [OF assms(3)] by blast
  ultimately show ?thesis by (auto simp: planTx_def)
qed

text \<open>The indexer answers with any coin first.\<close>

abbreviation sample_indexer :: "bytes vtxo list \<Rightarrow> (bytes, bytes, unit, bytes, unit) taker_lib" where
  "sample_indexer vs \<equiv> sample_taker\<lparr>Indexer_GetVtxos := (\<lambda>s. retI vs)\<rparr>"

lemma indexer_irrelevant:
  "fulfill_contract (T\<lparr>Indexer_GetVtxos := f\<rparr>) o' = fulfill_contract T o'"
  "fulfill_takerVtxos (T\<lparr>Indexer_GetVtxos := f\<rparr>) cfg = fulfill_takerVtxos T cfg"
  "fulfill_takerScript (T\<lparr>Indexer_GetVtxos := f\<rparr>) = fulfill_takerScript T"
  "planTx (T\<lparr>Indexer_GetVtxos := f\<rparr>) o' c v tvs scr = planTx T o' c v tvs scr"
proof -
  have leaf: "leafProof (T\<lparr>Indexer_GetVtxos := f\<rparr>) = leafProof T"
    and collect: "collectTakerVtxos (T\<lparr>Indexer_GetVtxos := f\<rparr>) = collectTakerVtxos T"
    by (simp_all add: fun_eq_iff leafProof_def collectTakerVtxos_def cong: if_cong)
  have tin: "takerInput (T\<lparr>Indexer_GetVtxos := f\<rparr>) = takerInput T"
    by (simp add: fun_eq_iff takerInput_def leaf cong: option.case_cong list.case_cong)
  show "fulfill_takerVtxos (T\<lparr>Indexer_GetVtxos := f\<rparr>) cfg = fulfill_takerVtxos T cfg"
    unfolding fulfill_takerVtxos_def collect by simp
  show "planTx (T\<lparr>Indexer_GetVtxos := f\<rparr>) o' c v tvs scr = planTx T o' c v tvs scr"
    by (simp add: planTx_def fulfillExtension_def swapInput_def leaf tin cong: list.case_cong option.case_cong)
qed (simp_all add: fulfill_contract_def rebuildContract_def fulfill_takerScript_def)

lemma sample_prepare_first:
  assumes "length txid = 2"
    and "buildFulfillAssetPacket sample_lib sample_asset_lib rev (\<lambda>ks. ks) as sample_taker_assets sample_offer = Inr q"
  shows "\<exists>p i j k. prepareFulfill (sample_indexer (sample_vtxo txid amt as # vs)) sample_offer w = (Inr p, w)
     \<and> fp_inputs p = [i, j, k] \<and> vi_Outpoint i = \<lparr>Hash = map of_char txid, Index = 0\<rparr>
     \<and> vi_Amount i = amt \<and> vi_Amount j = 600 \<and> vi_Amount k = 400"
proof -
  obtain c where c: "ci_closures c \<noteq> []" "fulfill_contract sample_taker sample_offer w = (Inr c, w)"
    using sample_rebuild by (auto simp: fulfill_contract_def io_eval)
  obtain scr where "fulfill_takerScript sample_taker w = (Inr scr, w)"
    by (simp add: fulfill_takerScript_def io_eval)
  with c(2) sample_plan [OF c(1) assms, of amt scr] show ?thesis
    by (auto simp: prepareFulfill_def indexer_irrelevant sample_takerVtxos fulfill_swapVtxo_def io_eval)
qed

lemma sample_prepare:
  "\<exists>p. prepareFulfill sample_taker sample_offer w = (Inr p, w) \<and> amount_sum (fp_inputs p) = 6000
     \<and> length (fp_inputs p) = 3"
proof -
  have "sample_indexer [sample_vtxo ''aa'' 5000 sample_swap_assets] = sample_taker" by (simp add: sample_taker_def)
  with sample_prepare_first [OF _ sample_build, of "''aa''" 5000 "[]" w] show ?thesis
    by (auto simp: amount_sum_def)
qed

lemma sample_fulfill: "\<exists>id w'. FulfillOffer sample_taker sample_offer w = (Inr id, w')"
proof -
  obtain p where "prepareFulfill sample_taker sample_offer w = (Inr p, w)" "length (fp_inputs p) = 3"
    using sample_prepare by blast
  then show ?thesis
    by (auto simp: FulfillOffer_def submitFulfill_def signCheckpoints_def signI_def io_eval
        numeral_3_eq_3 length_Suc_conv)
qed

section \<open>Properties\<close>

text \<open>C1. The taker signs and submits nothing for an offer it cannot verify, and never submits
  twice: a run of \<^verbatim>\<open>FulfillOffer\<close> that makes any request has rebuilt the contract from the offer and
  found its script equal to the offer's swap script, and has a plan \<open>p\<close>; its requests are signature
  requests only, with an error as result, or the signature requests for the encoded transaction
  built from \<open>p\<close> and for each of its checkpoints in order, then one submission with one signed
  checkpoint each. Every other run makes no request and returns an error.\<close>

theorem FulfillOffer_requests:
  assumes "FulfillOffer T o' w = (r, w')"
  shows "(rpcs w' = rpcs w \<and> isl r)
    \<or> (\<exists>p w1 new. prepareFulfill T o' w = (Inr p, w1) \<and> contract_matches T o'
         \<and> rpcs w' = rpcs w @ new \<and> submission T p r new)"
  by (rule FulfillOffer_cases [OF assms])

theorem FulfillOffer_requests_witness:
  "\<exists>p w1 new. prepareFulfill sample_taker sample_offer \<lparr>outside = (), rpcs = []\<rparr> = (Inr p, w1)
     \<and> contract_matches sample_taker sample_offer
     \<and> (\<exists>id. submission sample_taker p (Inr id) new)"
proof -
  obtain id w' where "FulfillOffer sample_taker sample_offer \<lparr>outside = (), rpcs = []\<rparr> = (Inr id, w')"
    using sample_fulfill by blast
  from FulfillOffer_requests [OF this] show ?thesis by auto
qed



text \<open>The taker's inputs are its outputs, each once: with distinct addresses and distinct
  spendable outputs, no output is collected twice, and the collected ones are exactly those that
  are not recoverable and sit at one of the wallet's addresses.\<close>

lemma collectTakerVtxos_owned:
  assumes "distinct (map addr_Address addrs)" and "distinct vs"
  shows "distinct (map tv_Vtxo (collectTakerVtxos T cfg addrs vs))
    \<and> (v \<in> tv_Vtxo ` set (collectTakerVtxos T cfg addrs vs) \<longleftrightarrow>
        v \<in> set vs \<and> \<not> IsRecoverable T v
        \<and> (\<exists>a \<in> addr_Address ` set addrs. vtxo_Address T v (SignerPubKey cfg) (Network cfg) = Inr a))"
  by (intro conjI collectTakerVtxos_distinct [OF assms] collectTakerVtxos_set)

lemma collectTakerVtxos_owned_witness:
  "distinct (map tv_Vtxo (collectTakerVtxos sample_taker
        \<lparr>CheckpointTapscript = ''51'', SignerPubKey = None, Network = []\<rparr>
        [\<lparr>addr_Address = ''addr'', addr_Tapscripts = [''ff'']\<rparr>] (map tv_Vtxo sample_tvs)))"
proof -
  have "distinct (map tv_Vtxo sample_tvs)" by (simp add: sample_tvs_def sample_vtxo_def)
  moreover have "distinct (map addr_Address [\<lparr>addr_Address = ''addr'', addr_Tapscripts = [''ff'']\<rparr>])"
    by simp
  ultimately show ?thesis using collectTakerVtxos_owned by blast
qed

text \<open>C39. A wanted BTC amount of more than \<open>2 ^ 63\<close> plus the taker's funds passes the funds check:
  converted to \<^verbatim>\<open>int64\<close> it is negative, so the change exceeds the funds and the maker's output has a
  negative value.\<close>

theorem fulfillAmounts_wraps:
  assumes "WantAsset o' = None" and "2 ^ 63 + unat funds < unat (WantAmount o')"
  shows "\<exists>m c. fulfillAmounts funds o' = Inr (m, c) \<and> sint m < 0 \<and> sint funds < sint c"
proof -
  have lt: "unat (WantAmount o') < 2 ^ 64" using unat_lt2p [of "WantAmount o'"] by simp
  then have "unat funds < 2 ^ 63" using assms(2) by simp
  then have f: "sint funds = int (unat funds)" by (rule sint_eq_uint_u64)
  have "2 ^ 63 \<le> unat (WantAmount o')" using assms(2) by simp
  then have w: "sint (WantAmount o') = int (unat (WantAmount o')) - 2 ^ 64" by (rule sint_u64_high)
  have lt': "int (unat (WantAmount o')) < 2 ^ 64" using uint_lt2p [of "WantAmount o'"] by simp
  have gt: "2 ^ 63 + int (unat funds) < int (unat (WantAmount o'))"
    using assms(2) of_nat_less_iff [of "2 ^ 63 + unat funds" "unat (WantAmount o')", where 'a = int]
    by simp
  have "sint (funds - WantAmount o') = sint funds - sint (WantAmount o')"
    by (rule sint_sub_u64; insert f w gt lt'; simp; insert uint_ge_0 [of funds]; linarith)
  then show ?thesis
    using assms(1) f w lt'
    by (simp add: fulfillAmounts_def Let_def not_less) (insert uint_ge_0 [of funds], linarith)
qed

theorem fulfillAmounts_wraps_witness:
  "\<exists>m c. fulfillAmounts 1000 (zero_offer\<lparr>WantAmount := - 500\<rparr> :: (bytes, bytes) offer) = Inr (m, c)
     \<and> sint m < 0 \<and> sint (1000 :: u64) < sint c"
  by (rule fulfillAmounts_wraps) (simp_all add: zero_offer_def)

end
