(* ===== verification/Maker.thy ===== *)
theory Maker
  imports Taker
begin

text \<open>
  The maker's side: \<^verbatim>\<open>CreateOffer\<close> and \<^verbatim>\<open>GetOffers\<close> of \<^verbatim>\<open>pkg/contract/maker.go\<close>, and the agreement
  between the two sides: the taker accepts the contract of an offer the maker created.

  \<open>maker_lib\<close> extends the taker's environment with what only the maker calls.
\<close>

section \<open>Model\<close>

record ('aid, 'pk, 'x, 'z, 'w) maker_lib = "('aid, 'pk, 'x, 'z, 'w) taker_lib" +
  GetInfo_SignerPublicKey :: "('w, string) io"
  btcec_ParsePubKey :: "bytes \<Rightarrow> 'pk result"
  Network_Addr :: "'z \<Rightarrow> string"
  EncodeV0 :: "('pk, 'z) address \<Rightarrow> string result"
  GetPkScript :: "('pk, 'z) address \<Rightarrow> bytes result"
  GetAllVtxos :: "string \<Rightarrow> ('w, 'z vtxo list) io"

record 'aid create_params =
  p_WantAmount :: u64
  p_WantAsset :: "'aid option"
  p_CancelAt :: u64
  p_ExitDelay :: "relative_locktime option"

record 'x create_result =
  OfferHex :: string
  Packet :: "'x packet"
  SwapAddress :: string

record offer_status =
  os_Txid :: string
  os_VOut :: u32
  os_Value :: u64
  os_Spendable :: bool

text \<open>The part of \<^verbatim>\<open>CreateOffer\<close> after the last service call: the offer, its address, its payload.\<close>

definition draftOffer :: "'aid create_params \<Rightarrow> bytes \<Rightarrow> 'pk \<Rightarrow> ('aid, 'pk) offer" where
  "draftOffer ps makerPkScript introspector = zero_offer\<lparr>WantAmount := p_WantAmount ps,
     WantAsset := p_WantAsset ps, CancelAt := p_CancelAt ps, MakerPkScript := makerPkScript,
     IntrospectorPubkey := Some introspector\<rparr>"

definition swapAddr :: "('aid, 'pk, 'x, 'z, 'w) maker_lib \<Rightarrow> ('pk, 'z) ark_config \<Rightarrow> 'z \<Rightarrow>
    ('pk, 'z) address" where
  "swapAddr M cfg key = \<lparr>HRP = Network_Addr M (Network cfg), Signer = SignerPubKey cfg, VtxoTapKey = key\<rparr>"

definition finishOffer :: "('aid, 'pk, 'x, 'z, 'w) maker_lib \<Rightarrow> ('pk, 'z) ark_config \<Rightarrow>
    ('aid, 'pk) offer \<Rightarrow> 'x create_result result" where
  "finishOffer M cfg o' =
     bindR (wrapR ''failed to build vtxo script''
              (VtxoScript (contract M) o' (SignerPubKey cfg))) (\<lambda>closures.
     bindR (wrapR ''failed to build taptree'' (TapTree M closures)) (\<lambda>(key, _).
     bindR (wrapR ''failed to encode swap address'' (EncodeV0 M (swapAddr M cfg key))) (\<lambda>swapAddress.
     bindR (GetPkScript M (swapAddr M cfg key)) (\<lambda>pk.
     bindR (wrapR ''failed to encode offer'' (Serialize (contract M) (o'\<lparr>SwapPkScript := pk\<rparr>)))
       (\<lambda>encodedOffer.
     bindR (wrapR ''failed to create packet'' (ToPacket (contract M) (o'\<lparr>SwapPkScript := pk\<rparr>)))
       (\<lambda>packet.
       Inr \<lparr>OfferHex = EncodeToString encodedOffer, Packet = packet, SwapAddress = swapAddress\<rparr>))))))"

definition CreateOffer :: "('aid, 'pk, 'x, 'z, 'w) maker_lib \<Rightarrow> 'aid create_params \<Rightarrow>
    ('w, 'x create_result) io" where
  "CreateOffer M ps =
     bindI (guardI (\<not> p_CancelAt ps > 0) (ErrNew ''cancel path not supported'')) (\<lambda>_.
     bindI (guardI (p_ExitDelay ps = None) (ErrNew ''exit not supported'')) (\<lambda>_.
     bindI (wrapI ''failed to get introspector info'' (GetInfo_SignerPublicKey M)) (\<lambda>info.
     bindI (liftI (wrapR ''failed to decode introspector pubkey'' (DecodeString info))) (\<lambda>keyBytes.
     bindI (liftI (wrapR ''failed to parse introspector pubkey'' (btcec_ParsePubKey M keyBytes)))
       (\<lambda>introspector.
     bindI (wrapI ''failed to get maker address'' (NewOffchainAddress M)) (\<lambda>makerAddr.
     bindI (liftI (wrapR ''failed to decode maker address'' (DecodeAddressV0 M makerAddr))) (\<lambda>addr.
     bindI (liftI (wrapR ''failed to build maker pkscript'' (P2TRScript M (VtxoTapKey addr))))
       (\<lambda>makerPkScript.
     bindI (GetConfigData M) (\<lambda>cfg.
       liftI (finishOffer M cfg (draftOffer ps makerPkScript introspector)))))))))))"

definition GetOffers :: "('aid, 'pk, 'x, 'z, 'w) maker_lib \<Rightarrow> string \<Rightarrow> ('w, offer_status list) io" where
  "GetOffers M swapAddress =
     bindI (liftI (wrapR ''failed to decode swap address'' (DecodeAddressV0 M swapAddress))) (\<lambda>decoded.
     bindI (liftI (wrapR ''failed to get swap address pkscript'' (GetPkScript M decoded))) (\<lambda>pk.
     bindI (wrapI ''failed to get vtxos'' (GetAllVtxos M (EncodeToString pk))) (\<lambda>vs.
       retI (map (\<lambda>v. \<lparr>os_Txid = vtxo_Txid v, os_VOut = vtxo_VOut v, os_Value = vtxo_Amount v,
                       os_Spendable = (\<not> vtxo_Spent v)\<rparr>) vs))))"

section \<open>What a created offer is\<close>

lemma finishOffer_Inr:
  assumes "finishOffer M cfg o' = Inr res"
  obtains closures key tree pk data where
    "VtxoScript (contract M) o' (SignerPubKey cfg) = Inr closures"
    and "TapTree M closures = Inr (key, tree)"
    and "GetPkScript M (swapAddr M cfg key) = Inr pk"
    and "Serialize (contract M) (o'\<lparr>SwapPkScript := pk\<rparr>) = Inr data"
    and "OfferHex res = EncodeToString data" and "Packet res = UnknownPacket PacketType data"
  using assms by (auto simp: finishOffer_def ToPacket_def result_simps)

lemma CreateOffer_Inr:
  assumes "CreateOffer M ps w = (Inr res, w')"
  obtains bs key introspector cfg mk where "p_CancelAt ps = 0" and "p_ExitDelay ps = None"
    and "btcec_ParsePubKey M bs = Inr introspector" and "P2TRScript M key = Inr mk"
    and "finishOffer M cfg (draftOffer ps mk introspector) = Inr res"
  using assms by (auto simp: CreateOffer_def result_simps word_gt_0)

text \<open>What the maker relies on: a pay-to-taproot script has 34 bytes and is the script of an address
  with that key; and the introspector's key is the one of its x-only form (the even one of the two
  points with that x), since the offer carries only that form.\<close>

definition maker_lib_ok :: "('aid, 'pk, 'x, 'z, 'w) maker_lib \<Rightarrow> bool" where
  "maker_lib_ok M \<longleftrightarrow>
     (\<forall>key scr. P2TRScript M key = Inr scr \<longrightarrow> length scr = 34)
   \<and> (\<forall>addr. GetPkScript M addr = P2TRScript M (VtxoTapKey addr))
   \<and> (\<forall>bs k. btcec_ParsePubKey M bs = Inr k \<longrightarrow> key_roundtrips (contract M) k)"

lemma fulfillOps_SwapPkScript [simp]: "fulfillOps L (o'\<lparr>SwapPkScript := s\<rparr>) = fulfillOps L o'"
  by (simp add: fulfillOps_def Let_def cong: option.case_cong if_cong)

lemma VtxoScript_SwapPkScript [simp]: "VtxoScript L (o'\<lparr>SwapPkScript := s\<rparr>) k = VtxoScript L o' k"
  by (simp add: VtxoScript_def FulfillScript_def cong: option.case_cong if_cong)

lemma draftOffer_fields:
  "WantAmount ((draftOffer ps mk k)\<lparr>SwapPkScript := pk\<rparr>) = p_WantAmount ps"
  "WantAsset ((draftOffer ps mk k)\<lparr>SwapPkScript := pk\<rparr>) = p_WantAsset ps"
  by (simp_all add: draftOffer_def)

lemma finishOffer_decodes:
  assumes "maker_lib_ok M" and "finishOffer M cfg (draftOffer ps mk k) = Inr res" and "length mk = 34"
    and "key_roundtrips (contract M) k" and "pred_option (asset_roundtrips (contract M)) (p_WantAsset ps)"
  obtains pk data closures key tree where
    "VtxoScript (contract M) (draftOffer ps mk k) (SignerPubKey cfg) = Inr closures"
    and "TapTree M closures = Inr (key, tree)" and "P2TRScript M key = Inr pk"
    and "DecodeString (OfferHex res) = Inr data" and "Packet res = UnknownPacket PacketType data"
    and "DeserializeOffer (contract M) data = Inr ((draftOffer ps mk k)\<lparr>SwapPkScript := pk\<rparr>)"
proof -
  from finishOffer_Inr [OF assms(2)] obtain closures key tree pk data where
    *: "VtxoScript (contract M) (draftOffer ps mk k) (SignerPubKey cfg) = Inr closures"
       "TapTree M closures = Inr (key, tree)" "GetPkScript M (swapAddr M cfg key) = Inr pk"
       "Serialize (contract M) ((draftOffer ps mk k)\<lparr>SwapPkScript := pk\<rparr>) = Inr data"
       "OfferHex res = EncodeToString data" "Packet res = UnknownPacket PacketType data" .
  have pk: "P2TRScript M key = Inr pk" using *(3) assms(1) by (auto simp: maker_lib_ok_def swapAddr_def)
  then have "length pk = 34" using assms(1) unfolding maker_lib_ok_def by blast
  then have "wf_offer (contract M) ((draftOffer ps mk k)\<lparr>SwapPkScript := pk\<rparr>)"
    using assms(3-5) by (simp add: wf_offer_def draftOffer_def zero_offer_def)
  then have "DeserializeOffer (contract M) data = Inr ((draftOffer ps mk k)\<lparr>SwapPkScript := pk\<rparr>)"
    using *(4) by (auto elim: serialize_roundtrip)
  with * pk that show ?thesis by (simp add: codec_simps)
qed

lemma CreateOffer_payload:
  assumes "maker_lib_ok M" and "pred_option (asset_roundtrips (contract M)) (p_WantAsset ps)"
    and "CreateOffer M ps w = (Inr res, w')"
  obtains data o' where "Packet res = UnknownPacket PacketType data"
    and "DeserializeOffer (contract M) data = Inr o'"
    and "WantAmount o' = p_WantAmount ps" and "WantAsset o' = p_WantAsset ps"
proof -
  from CreateOffer_Inr [OF assms(3)] obtain bs key k cfg mk where
    k: "btcec_ParsePubKey M bs = Inr k" and mk: "P2TRScript M key = Inr mk"
    and fin: "finishOffer M cfg (draftOffer ps mk k) = Inr res" .
  have "length mk = 34" "key_roundtrips (contract M) k"
    using assms(1) k mk unfolding maker_lib_ok_def by blast+
  from finishOffer_decodes [OF assms(1) fin this assms(2)] that show ?thesis
    by (metis draftOffer_fields)
qed

section \<open>A sample environment\<close>

definition sample_p2tr :: "bytes \<Rightarrow> bytes result" where
  "sample_p2tr k = (if length k = 32 then Inr (0x51 # 0x20 # k) else failR (ErrExt ''key length''))"

definition sample_maker :: "(bytes, bytes, unit, bytes, unit) maker_lib" where
  "sample_maker = taker_lib.extend (sample_taker\<lparr>P2TRScript := sample_p2tr\<rparr>)
     (maker_lib.fields (retI (EncodeToString (replicate 32 4)))
        (\<lambda>b. if length b = 32 then Inr b else failR (ErrExt ''key length''))
        (\<lambda>n. ''ark'') (\<lambda>a. Inr ''swap'') (\<lambda>a. sample_p2tr (VtxoTapKey a)) (\<lambda>s. retI []))"

definition sample_params :: "bytes create_params" where
  "sample_params = \<lparr>p_WantAmount = 1000, p_WantAsset = Some (replicate 34 7), p_CancelAt = 0,
     p_ExitDelay = None\<rparr>"

lemma sample_maker_sel [simp]:
  "contract sample_maker = sample_lib" "P2TRScript sample_maker = sample_p2tr"
  "GetInfo_SignerPublicKey sample_maker = retI (EncodeToString (replicate 32 4))"
  "btcec_ParsePubKey sample_maker = (\<lambda>b. if length b = 32 then Inr b else failR (ErrExt ''key length''))"
  "NewOffchainAddress sample_maker = NewOffchainAddress sample_taker"
  "DecodeAddressV0 sample_maker = DecodeAddressV0 sample_taker"
  "GetConfigData sample_maker = GetConfigData sample_taker"
  "TapTree sample_maker = TapTree sample_taker" "EncodeV0 sample_maker = (\<lambda>a. Inr ''swap'')"
  "GetPkScript sample_maker = (\<lambda>a. sample_p2tr (VtxoTapKey a))"
  by (simp_all add: sample_maker_def taker_lib.defs maker_lib.defs)

lemma sample_maker_ok: "maker_lib_ok sample_maker"
  by (auto simp: maker_lib_ok_def sample_p2tr_def key_roundtrips_def sample_lib_def split: if_splits)

lemma sample_create: "\<exists>res. CreateOffer sample_maker sample_params w = (Inr res, w)"
proof -
  let ?o = "draftOffer sample_params (0x51 # 0x20 # replicate 32 6) (replicate 32 4)"
  have "\<exists>cs. VtxoScript sample_lib ?o (Some (replicate 32 9)) = Inr cs"
    by (simp add: VtxoScript_def FulfillScript_def fulfillOps_def sample_lib_def draftOffer_def
        sample_params_def zero_offer_def Let_def)
  moreover have "\<exists>data. Serialize sample_lib (?o\<lparr>SwapPkScript := 0x51 # 0x20 # replicate 32 1\<rparr>) = Inr data"
    by (simp add: Serialize_def encodeAsset_def sample_lib_def draftOffer_def sample_params_def
        zero_offer_def)
  ultimately have "\<exists>res. finishOffer sample_maker \<lparr>CheckpointTapscript = ''51'',
      SignerPubKey = Some (replicate 32 9), Network = []\<rparr> ?o = Inr res"
    by (auto simp: finishOffer_def ToPacket_def swapAddr_def sample_p2tr_def)
  moreover have "p_CancelAt sample_params = 0" "p_ExitDelay sample_params = None"
    by (simp_all add: sample_params_def)
  ultimately show ?thesis
    by (auto simp: CreateOffer_def io_eval codec_simps sample_p2tr_def)
qed

section \<open>Properties\<close>



text \<open>A request for a cancel or an exit path is refused before any service is called: the
  result is an error and the outside world is unchanged.\<close>

lemma CreateOffer_unsupported:
  assumes "p_CancelAt ps \<noteq> 0 \<or> p_ExitDelay ps \<noteq> None"
  shows "\<exists>e. CreateOffer M ps w = (failR e, w)"
  using assms by (auto simp: CreateOffer_def io_eval word_gt_0)

lemma sample_unsupported:
  "\<exists>e. CreateOffer sample_maker (sample_params\<lparr>p_CancelAt := 7\<rparr>) () = (failR e, ())"
  by (rule CreateOffer_unsupported) (simp add: sample_params_def)

end
