(* ===== verification/Float64.thy ===== *)
theory Float64
  imports Prelude Complex_Main "HOL-Library.Log_Nat"
begin

text \<open>
  Go's \<^verbatim>\<open>float64\<close>, as far as the program uses it: IEEE 754 binary64 with rounding to nearest, ties
  to even. A finite nonzero number is the rational it denotes; zeros and infinities carry a sign.
  Conversion from \<^verbatim>\<open>uint64\<close>, multiplication, division and comparison are executable, as is
  \<^verbatim>\<open>math.Pow10\<close> with its two-table algorithm.

  The section on errors bounds what rounding does to a chain of operations: \<open>close k r q\<close> says that
  \<open>r\<close> and \<open>q\<close> differ by at most \<open>k\<close> roundings.
\<close>

section \<open>Numbers and rounding\<close>

datatype f64 = NaN | Infty bool | Zero bool | Fin rat

abbreviation pow2 :: "int \<Rightarrow> rat" where "pow2 k \<equiv> 2 powi k"

definition ilog2 :: "rat \<Rightarrow> int" where
  "ilog2 q = (case quotient_of q of (n, d) \<Rightarrow>
     let k = bitlen n - bitlen d in if pow2 k \<le> q then k else k - 1)"

definition round_half_even :: "rat \<Rightarrow> int" where
  "round_half_even x = (let f = \<lfloor>x\<rfloor>; d = x - of_int f in
     if d < 1 / 2 then f else if 1 / 2 < d then f + 1 else if even f then f else f + 1)"

definition round_pos :: "rat \<Rightarrow> f64" where
  "round_pos q = (let e = max (- 1074) (ilog2 q - 52); m = round_half_even (q / pow2 e) in
     if m = 0 then Zero False
     else if pow2 1024 \<le> of_int m * pow2 e then Infty False
     else Fin (of_int m * pow2 e))"

fun fneg :: "f64 \<Rightarrow> f64" where
  "fneg NaN = NaN"
| "fneg (Infty s) = Infty (\<not> s)"
| "fneg (Zero s) = Zero (\<not> s)"
| "fneg (Fin q) = Fin (- q)"

definition fround :: "bool \<Rightarrow> rat \<Rightarrow> f64" where
  "fround s q = (if q = 0 then Zero s else if q < 0 then fneg (round_pos (- q)) else round_pos q)"

fun sign_of :: "f64 \<Rightarrow> bool" where
  "sign_of NaN = False"
| "sign_of (Infty s) = s"
| "sign_of (Zero s) = s"
| "sign_of (Fin q) = (q < 0)"

section \<open>Operations\<close>

definition float_of_uint64 :: "u64 \<Rightarrow> f64" where
  "float_of_uint64 n = fround False (of_int (uint n))"

fun fmul :: "f64 \<Rightarrow> f64 \<Rightarrow> f64" where
  "fmul NaN y = NaN"
| "fmul x NaN = NaN"
| "fmul (Infty s) (Zero t) = NaN"
| "fmul (Zero s) (Infty t) = NaN"
| "fmul (Infty s) y = Infty (s \<noteq> sign_of y)"
| "fmul x (Infty t) = Infty (sign_of x \<noteq> t)"
| "fmul (Zero s) y = Zero (s \<noteq> sign_of y)"
| "fmul x (Zero t) = Zero (sign_of x \<noteq> t)"
| "fmul (Fin a) (Fin b) = fround False (a * b)"

fun fdiv :: "f64 \<Rightarrow> f64 \<Rightarrow> f64" where
  "fdiv NaN y = NaN"
| "fdiv x NaN = NaN"
| "fdiv (Infty s) (Infty t) = NaN"
| "fdiv (Zero s) (Zero t) = NaN"
| "fdiv (Infty s) y = Infty (s \<noteq> sign_of y)"
| "fdiv x (Infty t) = Zero (sign_of x \<noteq> t)"
| "fdiv (Zero s) y = Zero (s \<noteq> sign_of y)"
| "fdiv x (Zero t) = Infty (sign_of x \<noteq> t)"
| "fdiv (Fin a) (Fin b) = fround False (a / b)"

text \<open>Comparison: the two zeros are equal and every comparison with \<open>NaN\<close> is false.\<close>

fun fle :: "f64 \<Rightarrow> f64 \<Rightarrow> bool" where
  "fle NaN y = False"
| "fle x NaN = False"
| "fle (Infty s) (Infty t) = (s \<or> \<not> t)"
| "fle (Infty s) y = s"
| "fle x (Infty t) = (\<not> t)"
| "fle (Zero s) (Zero t) = True"
| "fle (Zero s) (Fin b) = (0 < b)"
| "fle (Fin a) (Zero t) = (a < 0)"
| "fle (Fin a) (Fin b) = (a \<le> b)"

definition feq :: "f64 \<Rightarrow> f64 \<Rightarrow> bool" where
  "feq x y \<longleftrightarrow> fle x y \<and> fle y x"

text \<open>The constants \<^verbatim>\<open>0.99\<close>, \<^verbatim>\<open>1.01\<close> and \<^verbatim>\<open>1.0\<close>, rounded when compiled.\<close>

definition f0_99 :: f64 where "f0_99 = fround False (99 / 100)"
definition f1_01 :: f64 where "f1_01 = fround False (101 / 100)"
definition f1 :: f64 where "f1 = fround False 1"

text \<open>\<^verbatim>\<open>math.Pow10\<close>: the entries of its tables are decimal literals, so correctly rounded.\<close>

definition pow10tab :: "nat \<Rightarrow> f64" where
  "pow10tab i = fround False (10 ^ i)"

definition pow10postab32 :: "nat \<Rightarrow> f64" where
  "pow10postab32 i = fround False (10 ^ (32 * i))"

definition pow10negtab32 :: "nat \<Rightarrow> f64" where
  "pow10negtab32 i = fround False (1 / 10 ^ (32 * i))"

definition Pow10 :: "int \<Rightarrow> f64" where
  "Pow10 n =
     (if 0 \<le> n \<and> n \<le> 308 then fmul (pow10postab32 (nat n div 32)) (pow10tab (nat n mod 32))
      else if - 323 \<le> n \<and> n \<le> 0
           then fdiv (pow10negtab32 (nat (- n) div 32)) (pow10tab (nat (- n) mod 32))
      else if 0 < n then Infty False else Zero False)"

section \<open>Rounding errors\<close>

lemma pow2_less_iff: "pow2 a < pow2 b \<longleftrightarrow> a < b" and pow2_le_iff: "pow2 a \<le> pow2 b \<longleftrightarrow> a \<le> b"
  using power_int_strict_increasing [of a b "2::rat"] power_int_increasing [of b a "2::rat"]
    power_int_strict_increasing [of b a "2::rat"] power_int_increasing [of a b "2::rat"]
  by force+

lemma bitlen_pow2_bounds:
  assumes "0 < n"
  shows "pow2 (bitlen n - 1) \<le> of_int n" and "of_int n < pow2 (bitlen n)"
proof -
  have "1 \<le> bitlen n" using assms by (simp add: bitlen_alt_def)
  then have p: "pow2 (bitlen n - 1) = of_int (2 ^ nat (bitlen n - 1))" "pow2 (bitlen n) = of_int (2 ^ nat (bitlen n))"
    by (simp_all add: power_int_def power_divide)
  show "pow2 (bitlen n - 1) \<le> of_int n" "of_int n < pow2 (bitlen n)"
    unfolding p using bitlen_bounds [OF assms] by (simp_all only: of_int_le_iff of_int_less_iff)
qed

lemma ilog2_bounds:
  assumes "0 < q"
  shows "pow2 (ilog2 q) \<le> q" and "q < pow2 (ilog2 q + 1)"
proof -
  obtain n d where nd: "quotient_of q = (n, d)" by fastforce
  then have d: "0 < d" and q: "q = of_int n / of_int d"
    by (auto simp: quotient_of_denom_pos quotient_of_div)
  then have n: "0 < n" using assms by (simp add: zero_less_divide_iff)
  note bn = bitlen_pow2_bounds [OF n] and bd = bitlen_pow2_bounds [OF d]
  let ?k = "bitlen n - bitlen d"
  have d': "(0::rat) < of_int d" "(0::rat) < of_int n" using d n by simp_all
  have "q < pow2 (bitlen n) / pow2 (bitlen d - 1)"
    unfolding q using bn bd d' by (intro frac_less) auto
  also have "\<dots> = pow2 (?k + 1)" by (simp add: power_int_diff [symmetric] algebra_simps)
  finally have hi: "q < pow2 (?k + 1)" .
  have "pow2 (?k - 1) = pow2 (bitlen n - 1) / pow2 (bitlen d)"
    by (simp add: power_int_diff [symmetric] algebra_simps)
  also have "\<dots> \<le> q"
    unfolding q using bn bd d' by (intro frac_le) auto
  finally have lo: "pow2 (?k - 1) \<le> q" .
  show "pow2 (ilog2 q) \<le> q" "q < pow2 (ilog2 q + 1)"
    using hi lo by (auto simp: ilog2_def nd Let_def)
qed

lemma round_half_even_error: "\<bar>of_int (round_half_even x) - x\<bar> \<le> 1 / 2"
proof -
  define f where "f = \<lfloor>x\<rfloor>"
  have "of_int f \<le> x" "x < of_int f + 1" using floor_correct [of x] by (simp_all add: f_def)
  then show ?thesis
    unfolding round_half_even_def Let_def f_def [symmetric] by (auto simp: abs_if not_less)
qed

text \<open>One rounding, in the range of normal numbers: the relative error is at most \<open>2 ^ - 53\<close>.\<close>

lemma round_pos_error:
  assumes "pow2 (- 1022) \<le> q" and "q \<le> pow2 1000"
  shows "\<exists>r. round_pos q = Fin r \<and> \<bar>r - q\<bar> \<le> q * pow2 (- 53)"
proof -
  have q: "0 < q" using assms(1) by (rule less_le_trans [rotated]) simp
  note b = ilog2_bounds [OF q]
  have "pow2 (- 1022) < pow2 (ilog2 q + 1)" using assms(1) b(2) by linarith
  then have lo: "- 1022 \<le> ilog2 q" by (simp only: pow2_less_iff)
  have "pow2 (ilog2 q) \<le> pow2 1000" using assms(2) b(1) by linarith
  then have hi: "ilog2 q \<le> 1000" by (simp only: pow2_le_iff)
  let ?e = "ilog2 q - 52" and ?m = "round_half_even (q / pow2 (ilog2 q - 52))"
  have e: "max (- 1074) ?e = ?e" using lo by simp
  let ?r = "of_int ?m * pow2 ?e"
  have "?r - q = (of_int ?m - q / pow2 ?e) * pow2 ?e" by (simp add: left_diff_distrib)
  then have "\<bar>?r - q\<bar> = \<bar>of_int ?m - q / pow2 ?e\<bar> * pow2 ?e" by (simp add: abs_mult)
  also have "\<dots> \<le> 1 / 2 * pow2 ?e"
    by (rule mult_right_mono [OF round_half_even_error]) simp
  also have "\<dots> = pow2 (ilog2 q) * pow2 (- 53)"
    by (simp add: power_int_add [symmetric] power_int_diff field_simps)
  also have "\<dots> \<le> q * pow2 (- 53)" using b(1) by (intro mult_right_mono) simp_all
  finally have err: "\<bar>?r - q\<bar> \<le> q * pow2 (- 53)" .
  have "?r \<noteq> 0"
  proof
    assume "?r = 0"
    with err have "q \<le> q * pow2 (- 53)" using q by simp
    then show False using q by (simp add: power_int_def power_divide)
  qed
  moreover have "?r < pow2 1024"
  proof -
    have "?r \<le> q + q * pow2 (- 53)" using err by linarith
    also have "\<dots> \<le> 2 * q" using q by (simp add: power_int_def field_simps)
    also have "\<dots> \<le> 2 * pow2 1000" using assms(2) by simp
    also have "\<dots> < pow2 1024" by (simp add: power_int_def)
    finally show ?thesis .
  qed
  ultimately have "round_pos q = Fin ?r" by (auto simp: round_pos_def e Let_def)
  with err show ?thesis by blast
qed

text \<open>\<open>close k r q\<close>: the positive numbers \<open>r\<close> and \<open>q\<close> differ by a factor of at most \<open>(1 + 2 ^ - 52) ^ k\<close>.
  It is symmetric, and multiplication and division add the counts.\<close>

definition slack :: rat where "slack = 1 + pow2 (- 52)"

definition close :: "nat \<Rightarrow> rat \<Rightarrow> rat \<Rightarrow> bool" where
  "close k r q \<longleftrightarrow> 0 < r \<and> 0 < q \<and> r \<le> q * slack ^ k \<and> q \<le> r * slack ^ k"

lemma slack_ge1: "1 \<le> slack" and slack_pos: "0 < slack"
  by (simp_all add: slack_def add_pos_pos)

lemma close_refl: "0 < q \<Longrightarrow> close 0 q q"
  by (simp add: close_def)

lemma close_trans:
  assumes "close j p r" and "close k r q"
  shows "close (j + k) p q"
proof -
  have s: "0 \<le> slack ^ n" for n using slack_pos by simp
  have "p \<le> r * slack ^ j" "r \<le> q * slack ^ k" using assms by (simp_all add: close_def)
  then have "p \<le> q * slack ^ k * slack ^ j" by (meson mult_right_mono order_trans s)
  moreover have "q \<le> r * slack ^ k" "r \<le> p * slack ^ j" using assms by (simp_all add: close_def)
  then have "q \<le> p * slack ^ j * slack ^ k" by (meson mult_right_mono order_trans s)
  ultimately show ?thesis using assms by (simp add: close_def power_add mult_ac)
qed

lemma close_mult:
  assumes "close j a b" and "close k c d"
  shows "close (j + k) (a * c) (b * d)"
proof -
  have "a * c \<le> (b * slack ^ j) * (d * slack ^ k)" "b * d \<le> (a * slack ^ j) * (c * slack ^ k)"
    using assms slack_pos by (auto simp: close_def intro!: mult_mono)
  with assms show ?thesis by (simp add: close_def power_add mult_ac)
qed

lemma close_inverse: "close k c d \<Longrightarrow> close k (1 / c) (1 / d)"
  by (auto simp: close_def field_simps)

lemma close_divide: "close j a b \<Longrightarrow> close k c d \<Longrightarrow> close (j + k) (a / c) (b / d)"
  using close_mult [of j a b k "1 / c" "1 / d"] close_inverse [of k c d] by simp

lemma round_close:
  assumes "pow2 (- 1022) \<le> q" and "q \<le> pow2 1000"
  shows "\<exists>r. fround s q = Fin r \<and> close 1 r q"
proof -
  have q: "0 < q" using assms(1) by (rule less_le_trans [rotated]) simp
  from round_pos_error [OF assms] obtain r where r: "round_pos q = Fin r"
    and err: "\<bar>r - q\<bar> \<le> q * pow2 (- 53)" by blast
  have u: "pow2 (- 52) = 2 * pow2 (- 53)" "0 < pow2 (- 53)" "pow2 (- 53) < 1 / 2"
    by (simp_all add: power_int_def power_divide)
  have lo: "q * (1 - pow2 (- 53)) \<le> r" and hi: "r \<le> q * (1 + pow2 (- 53))"
    using err by (simp_all only: right_diff_distrib distrib_left abs_le_iff) linarith+
  have "0 < q * (1 - pow2 (- 53))" using q u by (intro mult_pos_pos) linarith+
  then have r0: "0 < r" using lo by linarith
  have "r \<le> q * slack" using hi
    by (rule order_trans) (use q u in \<open>auto simp: slack_def intro!: mult_left_mono\<close>)
  moreover have "q \<le> r * slack"
  proof -
    have "1 \<le> (1 - pow2 (- 53)) * slack"
      by (simp add: slack_def power_int_def power_divide)
    then have "q * 1 \<le> q * ((1 - pow2 (- 53)) * slack)" using q by (intro mult_left_mono) simp_all
    also have "\<dots> \<le> r * slack"
      using lo slack_pos by (simp add: mult.assoc [symmetric] mult_right_mono)
    finally show ?thesis by simp
  qed
  ultimately show ?thesis using q r r0 by (simp add: fround_def close_def)
qed

lemma slack_bound: "slack ^ 15 \<le> 1 + pow2 (- 48)"
  by (simp add: slack_def power_int_def power_divide)

lemma close_weaken: "close j r q \<Longrightarrow> j \<le> k \<Longrightarrow> close k r q"
  using power_increasing [OF _ slack_ge1, of j k]
  by (auto simp: close_def elim: order_trans intro: mult_left_mono)

lemma close_double: "close k r q \<Longrightarrow> k \<le> 15 \<Longrightarrow> r \<le> 2 * q \<and> q \<le> 2 * r"
proof -
  assume "close k r q" "k \<le> 15"
  then have c: "0 < r" "0 < q" "r \<le> q * slack ^ 15" "q \<le> r * slack ^ 15"
    using close_weaken [of k r q 15] by (simp_all add: close_def)
  have "slack ^ 15 \<le> 2" by (rule order_trans [OF slack_bound]) (simp add: power_int_def power_divide)
  then have "q * slack ^ 15 \<le> q * 2" "r * slack ^ 15 \<le> r * 2"
    using c(1,2) by (simp_all only: mult_left_mono less_imp_le)
  with c show ?thesis by linarith
qed

text \<open>\<open>fl k x q\<close>: the float \<open>x\<close> is finite and within \<open>k\<close> roundings of \<open>q\<close>.\<close>

definition fl :: "nat \<Rightarrow> f64 \<Rightarrow> rat \<Rightarrow> bool" where
  "fl k x q \<longleftrightarrow> (\<exists>r. x = Fin r \<and> close k r q)"

definition mid_range :: "rat \<Rightarrow> bool" where
  "mid_range q \<longleftrightarrow> pow2 (- 900) \<le> q \<and> q \<le> pow2 900"

lemma mid_range_pos: "mid_range q \<Longrightarrow> 0 < q"
  unfolding mid_range_def by (meson less_le_trans power_int_not_zero zero_less_numeral zero_less_power_int)

lemma fround_close:
  assumes "close k q' q" and "k \<le> 14" and "mid_range q"
  shows "fl (k + 1) (fround s q') q"
proof -
  have "pow2 (- 1022) * 2 \<le> pow2 (- 900)" "pow2 900 * 2 \<le> pow2 1000"
    using pow2_le_iff [of "- 1021" "- 900"] pow2_le_iff [of 901 1000]
    by (simp_all add: power_int_def power_divide field_simps)
  then have "pow2 (- 1022) \<le> q'" "q' \<le> pow2 1000"
    using close_double [OF assms(1)] assms(2,3) by (simp_all add: mid_range_def)
  from round_close [OF this] obtain r where "fround s q' = Fin r" "close 1 r q'" by blast
  with close_trans [of 1 r q' k q] assms(1) show ?thesis by (auto simp: fl_def add.commute)
qed

lemma fl_round: "mid_range q \<Longrightarrow> fl 1 (fround s q) q"
  using fround_close [OF close_refl] mid_range_pos by fastforce

lemma fl_div:
  assumes "fl j x p" and "fl k y q" and "j + k \<le> 14" and "mid_range (p / q)"
  shows "fl (j + k + 1) (fdiv x y) (p / q)"
  using assms by (auto simp: fl_def [of j] fl_def [of k] intro!: fround_close [OF close_divide, simplified])

lemma fl_mul:
  assumes "fl j x p" and "fl k y q" and "j + k \<le> 14" and "mid_range (p * q)"
  shows "fl (j + k + 1) (fmul x y) (p * q)"
  using assms by (auto simp: fl_def [of j] fl_def [of k] intro!: fround_close [OF close_mult, simplified])

lemma mid_range_int: "0 < n \<Longrightarrow> n \<le> 2 ^ 900 \<Longrightarrow> mid_range (of_int n)"
proof -
  assume "0 < n" "n \<le> 2 ^ 900"
  then have "(1::rat) \<le> of_int n" "(of_int n :: rat) \<le> of_int (2 ^ 900)" by simp_all
  moreover have "pow2 (- 900) \<le> 1" by (simp add: power_int_def power_divide)
  ultimately show ?thesis by (simp add: mid_range_def power_int_def)
qed

lemma float_of_uint64_fl: "n \<noteq> 0 \<Longrightarrow> fl 1 (float_of_uint64 n) (of_int (uint n))"
proof -
  assume "n \<noteq> 0"
  then have "0 < uint n" using uint_ge_0 [of n] uint_0_iff [of n] by (simp add: order_less_le)
  moreover have "uint n \<le> 2 ^ 900" using uint_lt2p [of n] by simp
  ultimately show ?thesis unfolding float_of_uint64_def by (intro fl_round mid_range_int)
qed

lemma Pow10_fl:
  assumes "0 \<le> n" and "n \<le> 31"
  shows "fl 3 (Pow10 n) (10 ^ nat n)"
proof -
  have "(10::int) ^ nat n \<le> 10 ^ 31" using assms by (intro power_increasing) auto
  then have "mid_range (of_int (10 ^ nat n))" by (intro mid_range_int) simp_all
  then have "fl 1 (pow10tab (nat n)) (10 ^ nat n)" unfolding pow10tab_def by (intro fl_round) simp
  moreover have "mid_range 1" using mid_range_int [of 1] by simp
  then have "fl 1 (pow10postab32 0) 1" using fl_round [of 1 False] by (simp add: pow10postab32_def)
  ultimately have "fl (1 + 1 + 1) (fmul (pow10postab32 0) (pow10tab (nat n))) (1 * 10 ^ nat n)"
    using \<open>mid_range (of_int (10 ^ nat n))\<close> by (intro fl_mul) simp_all
  moreover have "nat n div 32 = 0" "nat n mod 32 = nat n" using assms by simp_all
  ultimately show ?thesis using assms by (simp add: Pow10_def numeral_3_eq_3)
qed

end
