(* ===== verification/Banco.thy ===== *)
theory Banco
  imports Maker Float64
begin

text \<open>
  Offers as the solver sees them: \<^verbatim>\<open>pkg/banco/offer.go\<close> and \<^verbatim>\<open>pkg/banco/pair.go\<close>.

  \<open>NewOfferFromExtension\<close> finds the offer announced by a transaction and what was deposited for it;
  \<open>ComputePrice\<close> is its price in the units of a trading pair. Transaction hashing and the parser of
  extensions are parameters, \<open>banco_lib\<close>.
\<close>

section \<open>Model\<close>

record ('aid, 'pk) banco_offer =
  bo_Offer :: "('aid, 'pk) offer"
  FundingTxid :: string
  DepositAsset :: "'aid option"
  DepositAmount :: u64

record pair =
  Pair :: string
  MinAmount :: u64
  MaxAmount :: u64
  BaseDecimals :: int
  QuoteDecimals :: int
  PriceFeed :: string
  InvertPrice :: bool

record ('aid, 'pk, 'x) banco_lib = "('aid, 'pk, 'x) contract_lib" +
  NewExtensionFromTx :: "msgtx option \<Rightarrow> 'x extension result"
  TxID :: "msgtx \<Rightarrow> string"
  GetAssetPacket :: "'x extension \<Rightarrow> 'aid asset_packet"

abbreviation base_lib :: "('aid, 'pk, 'x) banco_lib \<Rightarrow> ('aid, 'pk, 'x) contract_lib" where
  "base_lib B \<equiv> contract_lib.truncate B"

text \<open>The loop over the outputs: value and index of the first one that pays the swap script, or
  zeros.\<close>

fun findSwapOutput :: "bytes \<Rightarrow> nat \<Rightarrow> txout option list \<Rightarrow> (i64 \<times> nat) result" where
  "findSwapOutput scr i [] = Inr (0, 0)"
| "findSwapOutput scr i (None # outs) = Inl (Panic ''nil pointer dereference'')"
| "findSwapOutput scr i (Some out # outs) =
     (if PkScript out = scr then Inr (Value out, i) else findSwapOutput scr (Suc i) outs)"

text \<open>The loop over the asset groups: every group whose outputs name the swap output overrides the
  deposit, unless it has no asset identifier.\<close>

fun depositAssets :: "u16 \<Rightarrow> 'aid asset_group list \<Rightarrow> ('aid, 'pk) banco_offer \<Rightarrow> ('aid, 'pk) banco_offer"
where
  "depositAssets vout [] o' = o'"
| "depositAssets vout (g # gs) o' = depositAssets vout gs
     (case find (\<lambda>out. ao_Vout out = vout) (ag_Outputs g) of
        None \<Rightarrow> o'
      | Some out \<Rightarrow> (case ag_AssetId g of None \<Rightarrow> o'
         | Some aid \<Rightarrow> o'\<lparr>DepositAsset := Some aid, DepositAmount := ao_Amount out\<rparr>))"

definition NewOfferFromExtension :: "('aid, 'pk, 'x) banco_lib \<Rightarrow> msgtx option \<Rightarrow> 'x extension \<Rightarrow>
    ('aid, 'pk) banco_offer option result" where
  "NewOfferFromExtension B tx ext =
     bindR (FindBancoOffer (base_lib B) ext) (\<lambda>found. case found of
       None \<Rightarrow> Inr None
     | Some offer \<Rightarrow> (case tx of
         None \<Rightarrow> Inl (Panic ''nil pointer dereference'')
       | Some t \<Rightarrow>
           bindR (findSwapOutput (SwapPkScript offer) 0 (TxOut t)) (\<lambda>(swapOutputValue, swapOutputIndex).
             if sint swapOutputValue \<le> 0 then Inr None
             else Inr (Some (depositAssets (of_nat swapOutputIndex) (GetAssetPacket B ext)
                    \<lparr>bo_Offer = offer, FundingTxid = TxID B t, DepositAsset = None,
                     DepositAmount = swapOutputValue\<rparr>)))))"

definition NewOffer :: "('aid, 'pk, 'x) banco_lib \<Rightarrow> msgtx option \<Rightarrow>
    ('aid, 'pk) banco_offer option result" where
  "NewOffer B tx = (case NewExtensionFromTx B tx of
     Inr ext \<Rightarrow> NewOfferFromExtension B tx ext
   | Inl (Error _) \<Rightarrow> Inr None
   | Inl (Panic p) \<Rightarrow> Inl (Panic p))"

definition IsBTCDeposit :: "('aid, 'pk) banco_offer \<Rightarrow> bool" where
  "IsBTCDeposit o' \<longleftrightarrow> DepositAsset o' = None"

definition DepositAssetStr :: "('aid, 'pk, 'x) contract_lib \<Rightarrow> ('aid, 'pk) banco_offer \<Rightarrow> string" where
  "DepositAssetStr L o' = (case DepositAsset o' of None \<Rightarrow> ''BTC'' | Some a \<Rightarrow> assetId_String L a)"

definition WantAssetStr :: "('aid, 'pk, 'x) contract_lib \<Rightarrow> ('aid, 'pk) banco_offer \<Rightarrow> string" where
  "WantAssetStr L o' =
     (case WantAsset (bo_Offer o') of None \<Rightarrow> [] | Some a \<Rightarrow> assetId_String L a)"

definition ComputePrice :: "('aid, 'pk) banco_offer \<Rightarrow> pair \<Rightarrow> f64 option" where
  "ComputePrice o' p =
     (if DepositAmount o' = 0 \<or> WantAmount (bo_Offer o') = 0 then None
      else let baseAmount = fdiv (float_of_uint64 (DepositAmount o')) (Pow10 (BaseDecimals p));
               quoteAmount = fdiv (float_of_uint64 (WantAmount (bo_Offer o'))) (Pow10 (QuoteDecimals p))
           in Some (fdiv baseAmount quoteAmount))"

definition Base :: "pair \<Rightarrow> string" where
  "Base p = (case SplitN2 CHR ''/'' (Pair p) of b # _ \<Rightarrow> b | [] \<Rightarrow> [])"

definition Quote :: "pair \<Rightarrow> string" where
  "Quote p = (case SplitN2 CHR ''/'' (Pair p) of _ # q # _ \<Rightarrow> q | _ \<Rightarrow> [])"

section \<open>The deposit\<close>

definition deposits_at :: "u16 \<Rightarrow> 'aid asset_group list \<Rightarrow> ('aid \<times> u64) list" where
  "deposits_at vout gs = List.map_filter (\<lambda>g.
     case (ag_AssetId g, find (\<lambda>out. ao_Vout out = vout) (ag_Outputs g)) of
       (Some aid, Some out) \<Rightarrow> Some (aid, ao_Amount out) | _ \<Rightarrow> None) gs"

lemma depositAssets_last:
  "depositAssets vout gs o' =
     (if deposits_at vout gs = [] then o'
      else o'\<lparr>DepositAsset := Some (fst (last (deposits_at vout gs))),
              DepositAmount := snd (last (deposits_at vout gs))\<rparr>)"
  by (induction gs arbitrary: o')
    (auto simp: deposits_at_def map_filter_simps split: option.splits)

lemma depositAssets_keeps [simp]:
  "bo_Offer (depositAssets vout gs o') = bo_Offer o'"
  "FundingTxid (depositAssets vout gs o') = FundingTxid o'"
  by (simp_all add: depositAssets_last)

lemma findSwapOutput_first:
  assumes "list_all (\<lambda>out. out \<noteq> None) (take n outs)" and "n < length outs"
    and "outs ! n = Some \<lparr>Value = v, PkScript = scr\<rparr>"
    and "list_all (\<lambda>out. \<forall>x. out = Some x \<longrightarrow> PkScript x \<noteq> scr) (take n outs)"
  shows "findSwapOutput scr i outs = Inr (v, i + n)"
  using assms
proof (induction outs arbitrary: i n)
  case (Cons out outs)
  show ?case
  proof (cases n)
    case 0
    with Cons.prems show ?thesis by simp
  next
    case (Suc m)
    with Cons.prems obtain x where "out = Some x" "PkScript x \<noteq> scr" by auto
    with Cons Suc show ?thesis by simp
  qed
qed simp

lemma findSwapOutput_Inr:
  "findSwapOutput scr i outs = Inr (v, n) \<Longrightarrow> v \<noteq> 0 \<Longrightarrow>
   i \<le> n \<and> n - i < length outs \<and> outs ! (n - i) = Some \<lparr>Value = v, PkScript = scr\<rparr>
     \<and> list_all (\<lambda>out. \<forall>x. out = Some x \<longrightarrow> PkScript x \<noteq> scr) (take (n - i) outs)"
proof (induction scr i outs rule: findSwapOutput.induct)
  case (3 scr i out outs)
  show ?case
  proof (cases "PkScript out = scr")
    case True
    with 3 show ?thesis by (cases out) auto
  next
    case False
    with 3 have "Suc i \<le> n \<and> n - Suc i < length outs \<and> outs ! (n - Suc i) = Some \<lparr>Value = v, PkScript = scr\<rparr>
      \<and> list_all (\<lambda>out. \<forall>x. out = Some x \<longrightarrow> PkScript x \<noteq> scr) (take (n - Suc i) outs)" by simp
    moreover from this have "i < n" by simp
    then obtain k where "n = Suc (i + k)" using less_iff_Suc_add by auto
    ultimately show ?thesis using False by simp
  qed
qed auto

section \<open>The price\<close>

text \<open>The price the pair's decimals define, exactly: deposited base units per wanted quote unit.\<close>

definition exact_price :: "('aid, 'pk) banco_offer \<Rightarrow> pair \<Rightarrow> rat" where
  "exact_price o' p =
     (of_int (uint (DepositAmount o')) / 10 ^ nat (BaseDecimals p))
   / (of_int (uint (WantAmount (bo_Offer o'))) / 10 ^ nat (QuoteDecimals p))"

definition usual_decimals :: "pair \<Rightarrow> bool" where
  "usual_decimals p \<longleftrightarrow> 0 \<le> BaseDecimals p \<and> BaseDecimals p \<le> 31 \<and> 0 \<le> QuoteDecimals p
     \<and> QuoteDecimals p \<le> 31"

lemma scaled_bounds:
  assumes "n \<noteq> (0 :: u64)" and "0 \<le> k" and "k \<le> 31"
  shows "1 / 10 ^ 31 \<le> of_int (uint n) / (10 ^ nat k :: rat)"
    and "of_int (uint n) / (10 ^ nat k :: rat) \<le> 2 ^ 64"
proof -
  have "0 < uint n" using assms(1) uint_ge_0 [of n] uint_0_iff [of n] by (simp add: order_less_le)
  then have "of_int 1 \<le> (of_int (uint n) :: rat)" "of_int (uint n) \<le> (of_int (2 ^ 64) :: rat)"
    using uint_lt2p [of n] by (simp_all only: of_int_le_iff) simp_all
  then have n: "(1::rat) \<le> of_int (uint n)" "of_int (uint n) \<le> (2 ^ 64 :: rat)" by simp_all
  have "(10::rat) ^ nat k \<le> 10 ^ 31" using assms by (intro power_increasing) auto
  then show "1 / 10 ^ 31 \<le> of_int (uint n) / (10 ^ nat k :: rat)" using n by (intro frac_le) auto
  have "(1::rat) \<le> 10 ^ nat k" by simp
  then show "of_int (uint n) / (10 ^ nat k :: rat) \<le> 2 ^ 64"
    using n frac_le [of "2 ^ 64" "of_int (uint n)" 1 "10 ^ nat k :: rat"] by simp
qed

lemma scaled_fl:
  assumes "n \<noteq> 0" and "0 \<le> k" and "k \<le> 31"
  shows "fl 5 (fdiv (float_of_uint64 n) (Pow10 k)) (of_int (uint n) / 10 ^ nat k)"
proof -
  have "mid_range (of_int (uint n) / 10 ^ nat k)"
  proof -
    have "pow2 (- 900) \<le> 1 / 10 ^ 31" "2 ^ 64 \<le> pow2 900"
      by (simp_all add: power_int_def power_divide)
    with scaled_bounds [OF assms] show ?thesis unfolding mid_range_def by (meson order_trans)
  qed
  from fl_div [OF float_of_uint64_fl [OF assms(1)] Pow10_fl [OF assms(2,3)] _ this] show ?thesis by simp
qed

lemma ratio_bounds:
  fixes lo :: "'a :: linordered_field"
  assumes "0 < lo" and "lo \<le> x" and "x \<le> hi" and "lo \<le> y" and "y \<le> hi"
  shows "lo / hi \<le> x / y" and "x / y \<le> hi / lo"
  using assms by (auto intro!: frac_le)

lemma exact_price_mid_range:
  assumes "DepositAmount o' \<noteq> 0" and "WantAmount (bo_Offer o') \<noteq> 0" and "usual_decimals p"
  shows "1 / (10 ^ 31 * 2 ^ 64) \<le> exact_price o' p" and "exact_price o' p \<le> 10 ^ 31 * 2 ^ 64"
    and "mid_range (exact_price o' p)"
proof -
  from assms(3) have dec: "0 \<le> BaseDecimals p" "BaseDecimals p \<le> 31" "0 \<le> QuoteDecimals p"
    "QuoteDecimals p \<le> 31" by (simp_all add: usual_decimals_def)
  note d = scaled_bounds [OF assms(1) dec(1,2)] and w = scaled_bounds [OF assms(2) dec(3,4)]
  have pos: "(0::rat) < 1 / 10 ^ 31" by simp
  have "(1 / 10 ^ 31) / 2 ^ 64 \<le> exact_price o' p"
    unfolding exact_price_def by (rule ratio_bounds(1) [OF pos d w])
  then show lo: "1 / (10 ^ 31 * 2 ^ 64) \<le> exact_price o' p" by simp
  have "exact_price o' p \<le> 2 ^ 64 / (1 / 10 ^ 31)"
    unfolding exact_price_def by (rule ratio_bounds(2) [OF pos d w])
  then show hi: "exact_price o' p \<le> 10 ^ 31 * 2 ^ 64" by simp
  have "pow2 (- 900) \<le> 1 / (10 ^ 31 * 2 ^ 64)" "10 ^ 31 * 2 ^ 64 \<le> pow2 900"
    by (simp_all add: power_int_def power_divide)
  with lo hi show "mid_range (exact_price o' p)" by (simp only: mid_range_def) linarith
qed

lemma ComputePrice_fl:
  assumes "ComputePrice o' p = Some x" and "usual_decimals p"
  shows "fl 11 x (exact_price o' p)"
proof -
  from assms(1) have nz: "DepositAmount o' \<noteq> 0" "WantAmount (bo_Offer o') \<noteq> 0"
    and x: "x = fdiv (fdiv (float_of_uint64 (DepositAmount o')) (Pow10 (BaseDecimals p)))
      (fdiv (float_of_uint64 (WantAmount (bo_Offer o'))) (Pow10 (QuoteDecimals p)))"
    by (auto simp: ComputePrice_def Let_def split: if_splits)
  from assms(2) have dec: "0 \<le> BaseDecimals p" "BaseDecimals p \<le> 31" "0 \<le> QuoteDecimals p"
    "QuoteDecimals p \<le> 31" by (simp_all add: usual_decimals_def)
  from fl_div [OF scaled_fl [OF nz(1) dec(1,2)] scaled_fl [OF nz(2) dec(3,4)]]
    exact_price_mid_range(3) [OF nz assms(2)]
  show ?thesis by (simp add: x exact_price_def)
qed

section \<open>Properties\<close>

text \<open>C22. What the solver reports of a transaction is in the transaction: when
  \<^verbatim>\<open>NewOfferFromExtension\<close> returns an offer, it is the one announced in the extension, the first
  output that pays its swap script has a positive value, and the deposit is the last asset amount
  the asset packet assigns to that output, or that value in BTC when there is none.\<close>

theorem NewOfferFromExtension_sound:
  assumes "NewOfferFromExtension B tx ext = Inr (Some b)"
  shows "FindBancoOffer (base_lib B) ext = Inr (Some (bo_Offer b)) \<and>
    (\<exists>t n v ds. tx = Some t \<and> FundingTxid b = TxID B t
      \<and> n < length (TxOut t) \<and> TxOut t ! n = Some \<lparr>Value = v, PkScript = SwapPkScript (bo_Offer b)\<rparr>
      \<and> list_all (\<lambda>out. \<forall>x. out = Some x \<longrightarrow> PkScript x \<noteq> SwapPkScript (bo_Offer b)) (take n (TxOut t))
      \<and> 0 < sint v \<and> ds = deposits_at (of_nat n) (GetAssetPacket B ext)
      \<and> (DepositAsset b, DepositAmount b) =
          (if ds = [] then (None, v) else (Some (fst (last ds)), snd (last ds))))"
proof -
  from assms obtain offer t v n where found: "FindBancoOffer (base_lib B) ext = Inr (Some offer)"
    and t: "tx = Some t" and out: "findSwapOutput (SwapPkScript offer) 0 (TxOut t) = Inr (v, n)"
    and v: "0 < sint v" and b: "b = depositAssets (of_nat n) (GetAssetPacket B ext)
       \<lparr>bo_Offer = offer, FundingTxid = TxID B t, DepositAsset = None, DepositAmount = v\<rparr>"
    by (auto simp: NewOfferFromExtension_def result_simps split: if_splits)
  from v have "v \<noteq> 0" by auto
  from findSwapOutput_Inr [OF out this] show ?thesis
    using found t v b by (auto simp: depositAssets_last)
qed

definition sample_banco_lib :: "(bytes, bytes, unit) banco_lib" where
  "sample_banco_lib = contract_lib.extend sample_lib
     (banco_lib.fields (\<lambda>tx. Inr [UnknownPacket PacketType sample_data]) (\<lambda>t. ''f00d'')
        (\<lambda>e. [\<lparr>ag_AssetId = Some (replicate 34 5), ag_Inputs = [],
               ag_Outputs = [\<lparr>ao_Vout = 1, ao_Amount = 50\<rparr>]\<rparr>]))"

definition sample_tx :: msgtx where
  "sample_tx = \<lparr>TxIn = [], TxOut = [Some \<lparr>Value = 1, PkScript = [0x6a]\<rparr>,
     Some \<lparr>Value = 330, PkScript = 0x51 # 0x20 # replicate 32 1\<rparr>], LockTime = 0\<rparr>"

definition sample_banco_offer :: "(bytes, bytes) banco_offer" where
  "sample_banco_offer = \<lparr>bo_Offer = sample_offer, FundingTxid = ''f00d'',
     DepositAsset = Some (replicate 34 5), DepositAmount = 50\<rparr>"

lemma sample_banco_lib_sel [simp]:
  "base_lib sample_banco_lib = sample_lib" "TxID sample_banco_lib t = ''f00d''"
  "GetAssetPacket sample_banco_lib e = [\<lparr>ag_AssetId = Some (replicate 34 5), ag_Inputs = [],
       ag_Outputs = [\<lparr>ao_Vout = 1, ao_Amount = 50\<rparr>]\<rparr>]"
  by (simp_all add: sample_banco_lib_def contract_lib.defs banco_lib.defs)

lemma sample_detected:
  "NewOfferFromExtension sample_banco_lib (Some sample_tx) [UnknownPacket PacketType sample_data]
   = Inr (Some sample_banco_offer)"
proof -
  have "GetPacketByType sample_lib [UnknownPacket PacketType sample_data] PacketType
      = Some (UnknownPacket PacketType sample_data)" by (simp add: sample_lib_def)
  then have "FindBancoOffer sample_lib [UnknownPacket PacketType sample_data] = Inr (Some sample_offer)"
    by (simp add: FindBancoOffer_def sample_data_decodes(2))
  moreover have "SwapPkScript sample_offer = 0x51 # 0x20 # replicate 32 1"
    by (simp add: sample_offer_def)
  ultimately show ?thesis
    by (simp add: NewOfferFromExtension_def sample_tx_def sample_banco_offer_def)
qed

theorem NewOfferFromExtension_sound_witness:
  "FindBancoOffer sample_lib [UnknownPacket PacketType sample_data] = Inr (Some sample_offer)
   \<and> (\<exists>t n. Some sample_tx = Some t \<and> n < length (TxOut t))"
  using NewOfferFromExtension_sound [OF sample_detected] by (auto simp: sample_banco_offer_def)



end
