(* ===== verification/Price.thy ===== *)
theory Price
  imports Banco
begin

text \<open>
  Feed prices and the tolerance check: \<^verbatim>\<open>pkg/banco/price.go\<close>.

  \<open>get\<close> has the three parts of the source: the lookup under the read lock, the call of the feed with
  no lock held, and the store under the write lock. The clock reading and the feed are arguments.
  A Go function that returns a value and an error together returns the pair \<open>(value, error)\<close>.
\<close>

section \<open>Model\<close>

record cachedEntry =
  ce_price :: f64
  ce_fetchedAt :: int

record priceCache =
  ttl :: int
  entries :: "string \<rightharpoonup> cachedEntry"

definition newPriceCache :: "int \<Rightarrow> priceCache" where
  "newPriceCache d = \<lparr>ttl = d, entries = Map.empty\<rparr>"

text \<open>\<^verbatim>\<open>time.Time.Sub\<close>, in nanoseconds: the difference saturates at the range of \<^verbatim>\<open>int64\<close>.\<close>

definition time_Sub :: "int \<Rightarrow> int \<Rightarrow> int" where
  "time_Sub t u = max (- (2 ^ 63)) (min (2 ^ 63 - 1) (t - u))"

definition lookup_fresh :: "priceCache \<Rightarrow> string \<Rightarrow> int \<Rightarrow> f64 option" where
  "lookup_fresh c key now = (case entries c key of
     None \<Rightarrow> None
   | Some e \<Rightarrow> if time_Sub now (ce_fetchedAt e) < ttl c then Some (ce_price e) else None)"

definition store_price :: "string \<Rightarrow> f64 \<Rightarrow> int \<Rightarrow> priceCache \<Rightarrow> priceCache" where
  "store_price key p now c = c\<lparr>entries := (entries c)(key \<mapsto> \<lparr>ce_price = p, ce_fetchedAt = now\<rparr>)\<rparr>"

definition get :: "(string \<Rightarrow> ('w, f64) io) \<Rightarrow> int \<Rightarrow> string \<Rightarrow> priceCache \<Rightarrow> 'w \<Rightarrow>
    (f64 \<times> goerr option) result \<times> priceCache \<times> 'w" where
  "get Fetch now feedURL c w =
     (let key = TrimSpace feedURL in
      case lookup_fresh c key now of
        Some p \<Rightarrow> (Inr (p, None), c, w)
      | None \<Rightarrow> (case Fetch key w of
          (Inr p, w') \<Rightarrow> (Inr (p, None), store_price key p now c, w')
        | (Inl (Error e), w') \<Rightarrow>
            (Inr (case entries c key of
                    Some ce \<Rightarrow> (ce_price ce, Some (ErrWrap ''using stale cache'' [] e))
                  | None \<Rightarrow> (Zero False, Some e)), c, w')
        | (Inl (Panic m), w') \<Rightarrow> (Inl (Panic m), c, w')))"

definition validatePrice :: "f64 \<Rightarrow> f64 \<Rightarrow> bool" where
  "validatePrice offerPrice feedPrice \<longleftrightarrow>
     fle (fmul feedPrice f0_99) offerPrice \<and> fle offerPrice (fmul feedPrice f1_01)"

section \<open>Where cached prices come from\<close>

text \<open>\<open>R key t p\<close> stands for: at time \<open>t\<close> the feed reported price \<open>p\<close> for \<open>key\<close>. Calls of \<open>get\<close> change
  the cache by stores only, so under any interleaving of calls every entry has been reported.\<close>

definition reported :: "(string \<Rightarrow> int \<Rightarrow> f64 \<Rightarrow> bool) \<Rightarrow> priceCache \<Rightarrow> bool" where
  "reported R c \<longleftrightarrow> (\<forall>key e. entries c key = Some e \<longrightarrow> R key (ce_fetchedAt e) (ce_price e))"

inductive cache_step :: "(string \<Rightarrow> int \<Rightarrow> f64 \<Rightarrow> bool) \<Rightarrow> priceCache \<Rightarrow> priceCache \<Rightarrow> bool"
  for R where
  store: "R key now p \<Longrightarrow> cache_step R c (store_price key p now c)"

inductive_cases cache_stepE: "cache_step R c c'"

interpretation cache: invariant_system "\<lambda>c. entries c = Map.empty" "cache_step R" "reported R" for R
proof
  show "reported R c" if "entries c = Map.empty" for c using that by (simp add: reported_def)
  show "reported R c'" if "reported R c" "cache_step R c c'" for c c'
    using that(2,1) by (auto elim!: cache_stepE simp: reported_def store_price_def split: if_splits)
qed

lemma ttl_cache_steps: "(cache_step R)\<^sup>*\<^sup>* c c' \<Longrightarrow> ttl c' = ttl c"
  by (induction rule: rtranclp_induct) (auto elim!: cache_stepE simp: store_price_def)

definition honest :: "(string \<Rightarrow> int \<Rightarrow> f64 \<Rightarrow> bool) \<Rightarrow> int \<Rightarrow> (string \<Rightarrow> ('w, f64) io) \<Rightarrow> bool" where
  "honest R now Fetch \<longleftrightarrow> (\<forall>key w p w'. Fetch key w = (Inr p, w') \<longrightarrow> R key now p)"

lemma get_cache_step:
  "get Fetch now url c w = (r, c', w') \<Longrightarrow> honest R now Fetch \<Longrightarrow> c' = c \<or> cache_step R c c'"
  by (auto simp: get_def Let_def honest_def intro: cache_step.intros
      split: option.splits prod.splits sum.splits failure.splits)

lemma get_success:
  assumes "get Fetch now url c w = (Inr (p, None), c', w')"
  shows "(\<exists>e. entries c (TrimSpace url) = Some e \<and> p = ce_price e \<and> time_Sub now (ce_fetchedAt e) < ttl c
           \<and> c' = c \<and> w' = w)
    \<or> (Fetch (TrimSpace url) w = (Inr p, w') \<and> c' = store_price (TrimSpace url) p now c)"
  using assms
  by (auto simp: get_def lookup_fresh_def Let_def
      split: option.splits prod.splits sum.splits failure.splits if_splits)

lemma get_failure:
  assumes "get Fetch now url c w = (Inr (p, Some e), c', w')"
  shows "c' = c \<and> (case entries c (TrimSpace url) of None \<Rightarrow> p = Zero False
     | Some ce \<Rightarrow> p = ce_price ce \<and> ttl c \<le> time_Sub now (ce_fetchedAt ce))"
  using assms
  by (auto simp: get_def lookup_fresh_def Let_def not_less
      split: option.splits prod.splits sum.splits failure.splits if_splits)

lemma get_reported:
  assumes "reported R c" and "honest R now Fetch" and "get Fetch now url c w = (Inr (p, None), c', w')"
  shows "\<exists>t. R (TrimSpace url) t p \<and> (t = now \<or> time_Sub now t < ttl c)"
  using get_success [OF assms(3)] assms(1,2) unfolding reported_def honest_def by blast

lemma get_stale:
  assumes "reported R c" and "get Fetch now url c w = (Inr (p, Some e), c', w')"
  shows "p = Zero False \<or> (\<exists>t. R (TrimSpace url) t p \<and> ttl c \<le> time_Sub now t)"
  using get_failure [OF assms(2)] assms(1) unfolding reported_def
  by (cases "entries c (TrimSpace url)") auto

section \<open>The tolerance\<close>

lemma fl_constants: "fl 1 f0_99 (99 / 100)" "fl 1 f1_01 (101 / 100)" "fl 1 f1 1"
proof -
  have "mid_range (99 / 100)" "mid_range (101 / 100)" "mid_range 1"
    by (simp_all add: mid_range_def power_int_def power_divide)
  then show "fl 1 f0_99 (99 / 100)" "fl 1 f1_01 (101 / 100)" "fl 1 f1 1"
    by (simp_all only: f0_99_def f1_01_def f1_def fl_round)
qed

lemma close_le_bound:
  assumes "close j a p" and "close k b q" and "j + k \<le> 15" and "a \<le> b"
  shows "p \<le> q * (1 + pow2 (- 48))"
proof -
  have s: "0 \<le> slack ^ n" for n using slack_pos by simp
  have "p \<le> a * slack ^ j" using assms(1) by (simp add: close_def)
  also have "\<dots> \<le> b * slack ^ j" using assms(4) by (intro mult_right_mono s)
  also have "\<dots> \<le> q * slack ^ k * slack ^ j" using assms(2) by (intro mult_right_mono s) (simp add: close_def)
  also have "\<dots> = q * slack ^ (j + k)" by (simp add: power_add mult_ac)
  also have "\<dots> \<le> q * slack ^ 15"
    using assms(2,3) slack_ge1 by (intro mult_left_mono power_increasing) (simp_all add: close_def)
  also have "\<dots> \<le> q * (1 + pow2 (- 48))"
    using assms(2) by (intro mult_left_mono slack_bound) (simp add: close_def)
  finally show ?thesis .
qed

lemma fl_le_bound:
  assumes "fl j x p" and "fl k y q" and "j + k \<le> 15" and "fle x y"
  shows "p \<le> q * (1 + pow2 (- 48))"
proof -
  from assms(1,2) obtain a b where "x = Fin a" "close j a p" "y = Fin b" "close k b q"
    by (auto simp: fl_def)
  with assms(3,4) show ?thesis by (auto simp only: fle.simps intro: close_le_bound)
qed

lemma fl_le_intro:
  "fl j x p \<Longrightarrow> fl k y q \<Longrightarrow> j + k \<le> 15 \<Longrightarrow> p * (1 + pow2 (- 48)) < q \<Longrightarrow> fle x y"
  using close_le_bound [of k _ q j _ p]
  by (fastforce simp: fl_def not_less add.commute elim: leD)

definition feed_range :: "rat \<Rightarrow> bool" where
  "feed_range q \<longleftrightarrow> pow2 (- 800) \<le> q \<and> q \<le> pow2 800"

lemma feed_range_scaled:
  assumes "feed_range q" and "1 / 2 \<le> c" and "c \<le> 2"
  shows "mid_range (q * c)"
proof -
  have q: "0 < q" using assms(1) unfolding feed_range_def
    by (meson less_le_trans zero_less_numeral zero_less_power_int)
  have "pow2 (- 900) \<le> pow2 (- 800) * (1 / 2)" "pow2 800 * 2 \<le> pow2 900"
    by (simp_all add: power_int_def power_divide)
  moreover have "pow2 (- 800) * (1 / 2) \<le> q * c" using assms q
    by (intro mult_mono) (simp_all add: feed_range_def)
  moreover have "q * c \<le> pow2 800 * 2" using assms q by (intro mult_mono) (simp_all add: feed_range_def)
  ultimately show ?thesis unfolding mid_range_def by linarith
qed

lemma feed_products:
  assumes "fl k y q" and "feed_range q" and "k \<le> 2"
  shows "fl (k + 2) (fmul y f0_99) (q * (99 / 100))" and "fl (k + 2) (fmul y f1_01) (q * (101 / 100))"
  using fl_mul [OF assms(1) fl_constants(1)] fl_mul [OF assms(1) fl_constants(2)]
    feed_range_scaled [OF assms(2), of "99 / 100"] feed_range_scaled [OF assms(2), of "101 / 100"] assms(3)
  by simp_all

lemma validatePrice_bounds:
  assumes "fl 11 x p" and "fl k y q" and "k \<le> 2" and "feed_range q" and "validatePrice x y"
  shows "q * (99 / 100) \<le> p * (1 + pow2 (- 48))" and "p \<le> q * (101 / 100) * (1 + pow2 (- 48))"
  using fl_le_bound [OF feed_products(1) [OF assms(2,4,3)] assms(1)]
    fl_le_bound [OF assms(1) feed_products(2) [OF assms(2,4,3)]] assms(3,5)
  by (simp_all add: validatePrice_def)

lemma validatePrice_complete:
  assumes "fl 11 x p" and "fl k y q" and "k \<le> 2" and "feed_range q"
    and "q * (99 / 100) * (1 + pow2 (- 48)) < p" and "p * (1 + pow2 (- 48)) < q * (101 / 100)"
  shows "validatePrice x y"
  unfolding validatePrice_def
  using fl_le_intro [OF feed_products(1) [OF assms(2,4,3)] assms(1) _ assms(5)]
    fl_le_intro [OF assms(1) feed_products(2) [OF assms(2,4,3)] _ assms(6)] assms(3)
  by simp

section \<open>Properties\<close>

text \<open>C18. The plugin never works with an invented price: in every cache reachable from an empty one
  by any interleaving of stores, a price returned without error was reported by the feed for that
  very URL, at this moment or less than the time to live ago; one returned with an error was reported
  too, at least that long ago, or is the zero that stands for no price. A call leaves the cache as it
  was or stores what the feed just reported.\<close>

theorem get_price_reported:
  assumes "(cache_step R)\<^sup>*\<^sup>* (newPriceCache d) c" and "honest R now Fetch"
    and "get Fetch now url c w = (Inr (p, err), c', w')"
  shows "(case err of
      None \<Rightarrow> \<exists>t. R (TrimSpace url) t p \<and> (t = now \<or> time_Sub now t < d)
    | Some e \<Rightarrow> p = Zero False \<or> (\<exists>t. R (TrimSpace url) t p \<and> d \<le> time_Sub now t))
    \<and> (c' = c \<or> cache_step R c c')"
proof -
  have inv: "reported R c"
    by (rule cache.inv_reachable [OF _ assms(1)]) (simp add: newPriceCache_def)
  have ttl: "ttl c = d" using ttl_cache_steps [OF assms(1)] by (simp add: newPriceCache_def)
  show ?thesis
    using get_reported [OF inv assms(2), of url w p c' w'] get_stale [OF inv, of Fetch now url w p _ c' w']
      get_cache_step [OF assms(3,2)] assms(3) ttl
    by (cases err) simp_all
qed

theorem get_price_reported_witness:
  "\<exists>c'. get (\<lambda>k. retI (Fin 42)) 7 ''u'' (newPriceCache 300) () = (Inr (Fin 42, None), c', ())
     \<and> cache_step (\<lambda>k t p. p = Fin 42) (newPriceCache 300) c'"
proof -
  have "honest (\<lambda>k t p. p = Fin 42) 7 (\<lambda>k. retI (Fin 42) :: (unit, f64) io)"
    by (simp add: honest_def retI_def)
  moreover have g: "get (\<lambda>k. retI (Fin 42)) 7 ''u'' (newPriceCache 300) ()
     = (Inr (Fin 42, None), store_price (TrimSpace ''u'') (Fin 42) 7 (newPriceCache 300), ())"
    by (simp add: get_def lookup_fresh_def newPriceCache_def retI_def Let_def)
  moreover have "store_price (TrimSpace ''u'') (Fin 42) 7 (newPriceCache 300) \<noteq> newPriceCache 300"
    by (simp add: store_price_def newPriceCache_def)
  ultimately show ?thesis
    using get_price_reported [of "\<lambda>k t p. p = Fin 42" 300 "newPriceCache 300" 7 "\<lambda>k. retI (Fin 42)"
        "''u''" "()" "Fin 42" None]
    by auto
qed

end
