(* ===== verification/Txmatch.thy ===== *)
theory Txmatch
  imports Tx
begin

text \<open>
  The structural filters over transactions: \<^verbatim>\<open>pkg/solver/txmatch/txmatch.go\<close>.

  A predicate is a function on a transaction that may be nil; a Go value of function type may itself
  be nil, hence the options in the arguments of the combinators. An option of \<^verbatim>\<open>HasOutput\<close> or
  \<^verbatim>\<open>HasInput\<close> is, as in the source, a function that updates the accumulated criteria.
\<close>

section \<open>Combinators\<close>

type_synonym predicate = "psbt option \<Rightarrow> bool"

definition Always :: "bool \<Rightarrow> predicate" where
  "Always v = (\<lambda>tx. v)"

fun All :: "predicate option list \<Rightarrow> predicate" where
  "All [] tx = True"
| "All (p # ps) tx = (case p of None \<Rightarrow> False | Some f \<Rightarrow> if \<not> f tx then False else All ps tx)"

fun Any :: "predicate option list \<Rightarrow> predicate" where
  "Any [] tx = False"
| "Any (p # ps) tx = (if (case p of None \<Rightarrow> False | Some f \<Rightarrow> f tx) then True else Any ps tx)"

definition NotP :: "predicate option \<Rightarrow> predicate" where
  "NotP p = (\<lambda>tx. case p of None \<Rightarrow> False | Some f \<Rightarrow> \<not> f tx)"

section \<open>Simple predicates\<close>

definition unsigned_tx :: "psbt option \<Rightarrow> msgtx option" where
  "unsigned_tx tx = (case tx of None \<Rightarrow> None | Some t \<Rightarrow> UnsignedTx t)"

definition HasOutputCount :: "int \<Rightarrow> predicate" where
  "HasOutputCount n tx = (case unsigned_tx tx of None \<Rightarrow> False | Some t \<Rightarrow> int (length (TxOut t)) = n)"

definition HasInputCount :: "int \<Rightarrow> predicate" where
  "HasInputCount n tx = (case unsigned_tx tx of None \<Rightarrow> False | Some t \<Rightarrow> int (length (TxIn t)) = n)"

definition HasLockTime :: "u32 \<Rightarrow> predicate" where
  "HasLockTime lt tx = (case unsigned_tx tx of None \<Rightarrow> False | Some t \<Rightarrow> LockTime t = lt)"

fun hasKey :: "bytes \<Rightarrow> bytes option list \<Rightarrow> bool" where
  "hasKey key [] = False"
| "hasKey key (u # us) = (if (case u of None \<Rightarrow> False | Some k \<Rightarrow> k = key) then True else hasKey key us)"

definition HasUnknownGlobalField :: "bytes \<Rightarrow> predicate" where
  "HasUnknownGlobalField key tx = (case tx of None \<Rightarrow> False | Some t \<Rightarrow> hasKey key (Unknowns t))"

section \<open>Outputs\<close>

record outputCriteria =
  oc_indexSet :: bool
  oc_index :: int
  oc_amount :: "(u64 \<Rightarrow> bool) option"
  oc_script :: "(bytes \<Rightarrow> bool) option"

type_synonym outputOpt = "outputCriteria \<Rightarrow> outputCriteria"

definition OutputIndex :: "int \<Rightarrow> outputOpt" where
  "OutputIndex i c = c\<lparr>oc_indexSet := True, oc_index := i\<rparr>"

definition OutputAmount :: "u64 \<Rightarrow> outputOpt" where
  "OutputAmount amount c = c\<lparr>oc_amount := Some (\<lambda>v. v = amount)\<rparr>"

definition OutputAmountAtLeast :: "u64 \<Rightarrow> outputOpt" where
  "OutputAmountAtLeast lo c = c\<lparr>oc_amount := Some (\<lambda>v. v \<ge> lo)\<rparr>"

definition OutputAmountAtMost :: "u64 \<Rightarrow> outputOpt" where
  "OutputAmountAtMost hi c = c\<lparr>oc_amount := Some (\<lambda>v. v \<le> hi)\<rparr>"

definition OutputAmountInRange :: "u64 \<Rightarrow> u64 \<Rightarrow> outputOpt" where
  "OutputAmountInRange lo hi c = c\<lparr>oc_amount := Some (\<lambda>v. v \<ge> lo \<and> v \<le> hi)\<rparr>"

definition OutputScript :: "bytes \<Rightarrow> outputOpt" where
  "OutputScript scr c = c\<lparr>oc_script := Some (\<lambda>s. s = scr)\<rparr>"

definition OutputScriptMatching :: "(bytes \<Rightarrow> bool) option \<Rightarrow> outputOpt" where
  "OutputScriptMatching f c = c\<lparr>oc_script := f\<rparr>"

definition no_output_criteria :: outputCriteria where
  "no_output_criteria = \<lparr>oc_indexSet = False, oc_index = 0, oc_amount = None, oc_script = None\<rparr>"

definition apply_opts :: "('c \<Rightarrow> 'c) option list \<Rightarrow> 'c \<Rightarrow> 'c" where
  "apply_opts opts c = fold (\<lambda>opt c. case opt of None \<Rightarrow> c | Some f \<Rightarrow> f c) opts c"

definition matchOutput :: "txout option \<Rightarrow> outputCriteria \<Rightarrow> bool" where
  "matchOutput out c = (case out of None \<Rightarrow> False
     | Some x \<Rightarrow> if (case oc_amount c of None \<Rightarrow> False | Some f \<Rightarrow> \<not> f (Value x)) then False
                 else if (case oc_script c of None \<Rightarrow> False | Some f \<Rightarrow> \<not> f (PkScript x)) then False
                 else True)"

definition HasOutput :: "outputOpt option list \<Rightarrow> predicate" where
  "HasOutput opts tx =
     (let c = apply_opts opts no_output_criteria in
      case unsigned_tx tx of None \<Rightarrow> False
      | Some t \<Rightarrow>
          if oc_indexSet c then
            if oc_index c < 0 \<or> oc_index c \<ge> int (length (TxOut t)) then False
            else matchOutput (TxOut t ! nat (oc_index c)) c
          else list_ex (\<lambda>out. matchOutput out c) (TxOut t))"

section \<open>Inputs\<close>

record inputCriteria =
  ic_indexSet :: bool
  ic_index :: int
  ic_prevOut :: "(outpoint \<Rightarrow> bool) option"
  ic_sequence :: "(u32 \<Rightarrow> bool) option"

type_synonym inputOpt = "inputCriteria \<Rightarrow> inputCriteria"

definition InputIndex :: "int \<Rightarrow> inputOpt" where
  "InputIndex i c = c\<lparr>ic_indexSet := True, ic_index := i\<rparr>"

definition InputSpending :: "outpoint \<Rightarrow> inputOpt" where
  "InputSpending op c = c\<lparr>ic_prevOut := Some (\<lambda>got. got = op)\<rparr>"

definition InputSequence :: "u32 \<Rightarrow> inputOpt" where
  "InputSequence s c = c\<lparr>ic_sequence := Some (\<lambda>got. got = s)\<rparr>"

definition no_input_criteria :: inputCriteria where
  "no_input_criteria = \<lparr>ic_indexSet = False, ic_index = 0, ic_prevOut = None, ic_sequence = None\<rparr>"

definition matchInput :: "txin option \<Rightarrow> inputCriteria \<Rightarrow> bool" where
  "matchInput i c = (case i of None \<Rightarrow> False
     | Some x \<Rightarrow> if (case ic_prevOut c of None \<Rightarrow> False | Some f \<Rightarrow> \<not> f (PreviousOutPoint x)) then False
                 else if (case ic_sequence c of None \<Rightarrow> False | Some f \<Rightarrow> \<not> f (Sequence x)) then False
                 else True)"

definition HasInput :: "inputOpt option list \<Rightarrow> predicate" where
  "HasInput opts tx =
     (let c = apply_opts opts no_input_criteria in
      case unsigned_tx tx of None \<Rightarrow> False
      | Some t \<Rightarrow>
          if ic_indexSet c then
            if ic_index c < 0 \<or> ic_index c \<ge> int (length (TxIn t)) then False
            else matchInput (TxIn t ! nat (ic_index c)) c
          else list_ex (\<lambda>i. matchInput i c) (TxIn t))"

section \<open>What the combinators mean\<close>

lemma All_iff: "All ps tx \<longleftrightarrow> list_all (\<lambda>p. \<exists>f. p = Some f \<and> f tx) ps"
  by (induction ps) (auto split: option.split)

lemma Any_iff: "Any ps tx \<longleftrightarrow> list_ex (\<lambda>p. \<exists>f. p = Some f \<and> f tx) ps"
  by (induction ps) (auto split: option.split)

lemma hasKey_iff: "hasKey key us \<longleftrightarrow> Some key \<in> set us"
  by (induction us) (auto split: option.split)

text \<open>Predicates that reject a missing transaction, as the source promises of every constructor.\<close>

definition rejects_nil :: "predicate \<Rightarrow> bool" where
  "rejects_nil p \<longleftrightarrow> (\<forall>tx. unsigned_tx tx = None \<longrightarrow> \<not> p tx)"

lemma rejects_nil_simple:
  "rejects_nil (HasOutputCount n)" "rejects_nil (HasInputCount n)" "rejects_nil (HasLockTime lt)"
  "rejects_nil (HasOutput oos)" "rejects_nil (HasInput ios)"
  by (simp_all add: rejects_nil_def HasOutputCount_def HasInputCount_def HasLockTime_def HasOutput_def
      HasInput_def Let_def)

section \<open>Independent criteria\<close>

text \<open>An output passes when each criterion that is set accepts it; the criteria left by a sequence of
  options are, for each kind, those of the last option of the kind.\<close>

definition passes :: "('v \<Rightarrow> bool) option \<Rightarrow> 'v \<Rightarrow> bool" where
  "passes f v = (case f of None \<Rightarrow> True | Some g \<Rightarrow> g v)"

lemma matchOutput_passes:
  "matchOutput out c \<longleftrightarrow> (\<exists>x. out = Some x \<and> passes (oc_amount c) (Value x) \<and> passes (oc_script c) (PkScript x))"
  by (auto simp: matchOutput_def passes_def split: option.splits)

lemma matchInput_passes:
  "matchInput i c \<longleftrightarrow> (\<exists>x. i = Some x \<and> passes (ic_prevOut c) (PreviousOutPoint x) \<and> passes (ic_sequence c) (Sequence x))"
  by (auto simp: matchInput_def passes_def split: option.splits)

lemma apply_opts_simps [simp]:
  "apply_opts [] c = c" "apply_opts (None # opts) c = apply_opts opts c"
  "apply_opts (Some f # opts) c = apply_opts opts (f c)"
  by (simp_all add: apply_opts_def)

lemma index_or_any:
  "(if fixed then if i < 0 \<or> i \<ge> int (length xs) then False else P (xs ! nat i) else list_ex P xs)
   \<longleftrightarrow> (\<exists>n < length xs. (fixed \<longrightarrow> i = int n) \<and> P (xs ! n))"
proof (cases fixed)
  case True
  show ?thesis
  proof (cases "i < 0 \<or> i \<ge> int (length xs)")
    case False
    then obtain n where "i = int n" using nonneg_int_cases by (metis not_le)
    then show ?thesis using True False by auto
  qed (use True in auto)
qed (auto simp: list_ex_length)

section \<open>Properties\<close>

text \<open>\<^verbatim>\<open>HasOutput\<close> holds of a transaction iff it has an output, the one at the index that is set
  if any, that is not nil and is accepted by the amount criterion and by the script criterion that
  the options leave in place; an index out of range is a miss, never a panic.\<close>

lemma HasOutput_iff:
  "HasOutput opts tx \<longleftrightarrow> (\<exists>t n x. unsigned_tx tx = Some t \<and> n < length (TxOut t) \<and> TxOut t ! n = Some x
     \<and> (oc_indexSet (apply_opts opts no_output_criteria) \<longrightarrow>
          oc_index (apply_opts opts no_output_criteria) = int n)
     \<and> passes (oc_amount (apply_opts opts no_output_criteria)) (Value x)
     \<and> passes (oc_script (apply_opts opts no_output_criteria)) (PkScript x))"
proof (cases "unsigned_tx tx")
  case (Some t)
  let ?c = "apply_opts opts no_output_criteria"
  show ?thesis
    using index_or_any [of "oc_indexSet ?c" "oc_index ?c" "TxOut t" "\<lambda>x. matchOutput x ?c"] Some
    by (auto simp add: HasOutput_def Let_def matchOutput_passes split del: if_split)
qed (simp add: HasOutput_def)

lemma HasOutput_iff_witness:
  "HasOutput [Some (OutputIndex 0), None, Some (OutputAmountAtLeast 5)]
     (Some \<lparr>UnsignedTx = Some \<lparr>TxIn = [], TxOut = [Some \<lparr>Value = 7, PkScript = []\<rparr>], LockTime = 0\<rparr>, Unknowns = []\<rparr>)
   \<and> \<not> HasOutput [Some (OutputIndex 3)]
     (Some \<lparr>UnsignedTx = Some \<lparr>TxIn = [], TxOut = [Some \<lparr>Value = 7, PkScript = []\<rparr>], LockTime = 0\<rparr>, Unknowns = []\<rparr>)"
  by (auto simp: HasOutput_iff unsigned_tx_def OutputIndex_def OutputAmountAtLeast_def no_output_criteria_def
      passes_def)

text \<open>\<^verbatim>\<open>HasInput\<close> likewise, over inputs, outpoints and sequence numbers.\<close>

lemma HasInput_iff:
  "HasInput opts tx \<longleftrightarrow> (\<exists>t n x. unsigned_tx tx = Some t \<and> n < length (TxIn t) \<and> TxIn t ! n = Some x
     \<and> (\<not> ic_indexSet (apply_opts opts no_input_criteria)
        \<or> ic_index (apply_opts opts no_input_criteria) = int n)
     \<and> passes (ic_prevOut (apply_opts opts no_input_criteria)) (PreviousOutPoint x)
     \<and> passes (ic_sequence (apply_opts opts no_input_criteria)) (Sequence x))"
proof (cases "unsigned_tx tx")
  case (Some t)
  let ?c = "apply_opts opts no_input_criteria"
  show ?thesis
    using index_or_any [of "ic_indexSet ?c" "ic_index ?c" "TxIn t" "\<lambda>x. matchInput x ?c"] Some
    by (auto simp add: HasInput_def Let_def matchInput_passes split del: if_split)
qed (simp add: HasInput_def)

lemma HasInput_iff_witness:
  "HasInput [Some (InputIndex 1), Some (InputSequence 9)]
     (Some \<lparr>UnsignedTx = Some \<lparr>TxIn = [None, Some \<lparr>PreviousOutPoint = \<lparr>Hash = [], Index = 0\<rparr>, Sequence = 9\<rparr>],
        TxOut = [], LockTime = 0\<rparr>, Unknowns = []\<rparr>)"
  unfolding HasInput_iff
  by (auto simp: unsigned_tx_def InputIndex_def InputSequence_def no_input_criteria_def passes_def
      intro!: exI [of _ 1])

text \<open>The promise that a nil transaction yields false from every constructor holds of the
  constructors over counts, lock time, outputs and inputs, but not of \<^verbatim>\<open>Always\<close>, \<^verbatim>\<open>All\<close> and \<^verbatim>\<open>Not\<close>;
  and an amount option given after another replaces it: a range given as a lower and an upper bound
  accepts values below the lower bound.\<close>

lemma txmatch_surprises:
  "Always True None \<and> All [] None \<and> NotP (Some (HasOutputCount 1)) None
   \<and> HasOutput [Some (OutputAmountAtLeast 100), Some (OutputAmountAtMost 200)]
       (Some \<lparr>UnsignedTx = Some \<lparr>TxIn = [], TxOut = [Some \<lparr>Value = 7, PkScript = []\<rparr>], LockTime = 0\<rparr>,
              Unknowns = []\<rparr>)"
  by (simp add: Always_def NotP_def HasOutputCount_def unsigned_tx_def HasOutput_def Let_def
      OutputAmountAtLeast_def OutputAmountAtMost_def no_output_criteria_def matchOutput_def)

end
