(* ===== verification/Builder.thy ===== *)
theory Builder
  imports Txmatch Banco
begin

text \<open>
  The toolkit that assembles plugins from stages: \<^verbatim>\<open>pkg/solver/builder/builder.go\<close> and
  \<^verbatim>\<open>pkg/solver/builder/extension.go\<close>.

  A builder accumulates filters, a decoder, validators and a solve action; \<open>Build\<close> makes a plugin of
  them, or panics. Decoders, validators and the action reach services, so they act on a world \<open>'w\<close>.
  Match returns \<open>Some intent\<close> for the source's \<^verbatim>\<open>(intent, true)\<close> and \<open>None\<close> for \<^verbatim>\<open>(zero, false)\<close>, with
  the reports it logged; a panic in a stage is the failure \<open>Panic\<close>, recovered by the solver only.
\<close>

section \<open>Builder\<close>

type_synonym ('w, 't) decode_func = "psbt option \<Rightarrow> ('w, 't) io"
type_synonym ('w, 't) validate_func = "'t \<Rightarrow> ('w, bool) io"
type_synonym ('w, 't) solve_func = "'t \<Rightarrow> ('w, unit) io"

record ('w, 't) builder =
  b_filters :: "predicate list"
  b_decode :: "('w, 't) decode_func option"
  b_validators :: "('w, 't) validate_func list"
  b_solve :: "('w, 't) solve_func option"
  b_log :: bool

definition For :: "('w, 't) builder" where
  "For = \<lparr>b_filters = [], b_decode = None, b_validators = [], b_solve = None, b_log = False\<rparr>"

definition Filter :: "predicate option \<Rightarrow> ('w, 't) builder \<Rightarrow> ('w, 't) builder" where
  "Filter p b = (case p of None \<Rightarrow> b | Some f \<Rightarrow> b\<lparr>b_filters := b_filters b @ [f]\<rparr>)"

definition Decode :: "('w, 't) decode_func option \<Rightarrow> ('w, 't) builder \<Rightarrow> ('w, 't) builder" where
  "Decode f b = b\<lparr>b_decode := f\<rparr>"

definition Validate :: "('w, 't) validate_func option \<Rightarrow> ('w, 't) builder \<Rightarrow> ('w, 't) builder" where
  "Validate f b = (case f of None \<Rightarrow> b | Some v \<Rightarrow> b\<lparr>b_validators := b_validators b @ [v]\<rparr>)"

definition SolveWith :: "('w, 't) solve_func option \<Rightarrow> ('w, 't) builder \<Rightarrow> ('w, 't) builder" where
  "SolveWith f b = b\<lparr>b_solve := f\<rparr>"

definition WithLogger :: "bool \<Rightarrow> ('w, 't) builder \<Rightarrow> ('w, 't) builder" where
  "WithLogger l b = b\<lparr>b_log := l\<rparr>"

record ('w, 't) plugin =
  p_filters :: "predicate list"
  p_decode :: "('w, 't) decode_func"
  p_validators :: "('w, 't) validate_func list"
  p_solve :: "('w, 't) solve_func"
  p_log :: bool

definition Build :: "('w, 't) builder \<Rightarrow> ('w, 't) plugin result" where
  "Build b = (case b_decode b of
     None \<Rightarrow> Inl (Panic ''builder: Decode is required'')
   | Some d \<Rightarrow> (case b_solve b of
       None \<Rightarrow> Inl (Panic ''builder: Solve is required'')
     | Some s \<Rightarrow> Inr \<lparr>p_filters = b_filters b, p_decode = d, p_validators = b_validators b,
                      p_solve = s, p_log = b_log b\<rparr>))"

section \<open>Plugin\<close>

type_synonym report = "string \<times> goerr"

definition report :: "('w, 't) plugin \<Rightarrow> goerr \<Rightarrow> string \<Rightarrow> report list" where
  "report p e msg = (if errors_Is e ErrSkip \<or> \<not> p_log p then [] else [(msg, e)])"

fun runFilters :: "predicate list \<Rightarrow> psbt option \<Rightarrow> bool" where
  "runFilters [] tx = True"
| "runFilters (f # fs) tx = (if \<not> f tx then False else runFilters fs tx)"

fun runValidators :: "('w, 't) plugin \<Rightarrow> ('w, 't) validate_func list \<Rightarrow> 't \<Rightarrow> 'w \<Rightarrow>
    ('t option \<times> report list) result \<times> 'w" where
  "runValidators p [] intent w = (Inr (Some intent, []), w)"
| "runValidators p (v # vs) intent w = (case v intent w of
     (Inl (Error e), w') \<Rightarrow> (Inr (None, report p e ''builder: validate failed''), w')
   | (Inl (Panic m), w') \<Rightarrow> (Inl (Panic m), w')
   | (Inr ok, w') \<Rightarrow> if \<not> ok then (Inr (None, []), w') else runValidators p vs intent w')"

definition Match :: "('w, 't) plugin \<Rightarrow> psbt option \<Rightarrow> 'w \<Rightarrow>
    ('t option \<times> report list) result \<times> 'w" where
  "Match p tx w =
     (if \<not> runFilters (p_filters p) tx then (Inr (None, []), w)
      else (case p_decode p tx w of
          (Inl (Error e), w') \<Rightarrow> (Inr (None, report p e ''builder: decode failed''), w')
        | (Inl (Panic m), w') \<Rightarrow> (Inl (Panic m), w')
        | (Inr intent, w') \<Rightarrow> runValidators p (p_validators p) intent w'))"

text \<open>The type assertion of Solve: an intent of another type is dropped.\<close>

definition Solve :: "('w, 't) plugin \<Rightarrow> ('u \<Rightarrow> 't option) \<Rightarrow> 'u \<Rightarrow> ('w, unit) io" where
  "Solve p as_T intent = (case as_T intent of None \<Rightarrow> retI () | Some typed \<Rightarrow> p_solve p typed)"

section \<open>Extensions\<close>

type_synonym ('w, 't, 'x) extension_decoder = "psbt \<Rightarrow> 'x extension \<Rightarrow> ('w, 't) io"

definition HasArkExtension :: "(bytes \<Rightarrow> bool) \<Rightarrow> predicate" where
  "HasArkExtension IsExtension = HasOutput [Some (OutputScriptMatching (Some IsExtension))]"

definition extensionDecode :: "('aid, 'pk, 'x) banco_lib \<Rightarrow> ('w, 't, 'x) extension_decoder \<Rightarrow>
    ('w, 't) decode_func" where
  "extensionDecode B decode tx = (case tx of
     None \<Rightarrow> liftI (failR ErrSkip)
   | Some t \<Rightarrow> (case UnsignedTx t of
       None \<Rightarrow> liftI (failR ErrSkip)
     | Some u \<Rightarrow> (case NewExtensionFromTx B (Some u) of
         Inl (Error e) \<Rightarrow>
           if errors_Is e ErrExtensionNotFound then liftI (failR ErrSkip) else liftI (failR e)
       | Inl (Panic m) \<Rightarrow> liftI (Inl (Panic m))
       | Inr ext \<Rightarrow> decode t ext)))"

definition ForExtension :: "('aid, 'pk, 'x) banco_lib \<Rightarrow> (bytes \<Rightarrow> bool) \<Rightarrow>
    ('w, 't, 'x) extension_decoder option \<Rightarrow> ('w, 't) builder result" where
  "ForExtension B IsExtension decode = (case decode of
     None \<Rightarrow> Inl (Panic ''builder: ForExtension requires a decoder'')
   | Some d \<Rightarrow> Inr (Decode (Some (extensionDecode B d)) (Filter (Some (HasArkExtension IsExtension)) For)))"

section \<open>Gates\<close>

lemma runFilters_iff: "runFilters fs tx \<longleftrightarrow> list_all (\<lambda>f. f tx) fs"
  by (induction fs) auto

text \<open>\<open>approves vs intent w w'\<close>: each validator, run on the world its predecessor left, approves.\<close>

fun approves :: "('w, 't) validate_func list \<Rightarrow> 't \<Rightarrow> 'w \<Rightarrow> 'w \<Rightarrow> bool" where
  "approves [] intent w w' = (w' = w)"
| "approves (v # vs) intent w w' = (\<exists>w1. v intent w = (Inr True, w1) \<and> approves vs intent w1 w')"

lemma runValidators_Some:
  "runValidators p vs intent w = (Inr (Some t, rs), w') \<longleftrightarrow>
   t = intent \<and> rs = [] \<and> approves vs intent w w'"
  by (induction vs arbitrary: w) (auto split: prod.splits sum.splits failure.splits if_splits)

lemma Match_Some:
  "Match p tx w = (Inr (Some t, rs), w') \<longleftrightarrow>
   list_all (\<lambda>f. f tx) (p_filters p) \<and> rs = []
   \<and> (\<exists>w1. p_decode p tx w = (Inr t, w1) \<and> approves (p_validators p) t w1 w')"
  by (auto simp: Match_def runFilters_iff runValidators_Some split: prod.splits sum.splits failure.splits)

text \<open>How many reports a run makes, and for which errors.\<close>

lemma runValidators_reports:
  "runValidators p vs intent w = (Inr (r, rs), w') \<Longrightarrow>
   length rs \<le> 1 \<and> list_all (\<lambda>(m, e). \<not> errors_Is e ErrSkip \<and> p_log p) rs \<and> (r \<noteq> None \<longrightarrow> rs = [])"
  by (induction vs arbitrary: w)
    (auto simp: report_def split: prod.splits sum.splits failure.splits if_splits)

lemma runValidators_append:
  "approves vs intent w w1 \<Longrightarrow> runValidators p (vs @ us) intent w = runValidators p us intent w1"
  by (induction vs arbitrary: w) auto

section \<open>Properties\<close>

text \<open>C35. A plugin hands on an intent exactly when the transaction passes every filter, the decoder
  returns that intent, and every validator, in the order of registration and each in the world the
  previous one left, approves it; then nothing is reported.\<close>

theorem Match_gates:
  "Match p tx w = (Inr (Some t, rs), w') \<longleftrightarrow>
   list_all (\<lambda>f. f tx) (p_filters p) \<and> rs = []
   \<and> (\<exists>w1. p_decode p tx w = (Inr t, w1) \<and> approves (p_validators p) t w1 w')"
  by (rule Match_Some)

text \<open>Stages short-circuit: a rejecting filter ends the match with no decoder or validator run,
  no report and the world unchanged; and the first validator that declines or fails after others
  approved ends it there, whatever validators follow: with no report when it declines, and with one
  report when it fails with an error other than the skip sentinel and a logger is set.\<close>

lemma Match_short_circuits:
  assumes "list_all (\<lambda>f. f tx) (p_filters p)" and "p_decode p tx w = (Inr t, w1)"
    and "p_validators p = vs @ v # us" and "approves vs t w1 w2"
  shows "(\<not> f tx \<longrightarrow> Match (p\<lparr>p_filters := f # fs\<rparr>) tx w = (Inr (None, []), w))
    \<and> (v t w2 = (Inr False, w') \<longrightarrow> Match p tx w = (Inr (None, []), w'))
    \<and> (v t w2 = (failR e, w') \<longrightarrow> Match p tx w = (Inr (None,
         if errors_Is e ErrSkip \<or> \<not> p_log p then [] else [(''builder: validate failed'', e)]), w'))"
  using assms(1-3) runValidators_append [OF assms(4), of p "v # us"]
  by (auto simp: Match_def runFilters_iff report_def)

lemma Match_short_circuits_witness:
  "\<exists>p :: (nat, nat) plugin. Match p None 0 = (Inr (None, []), 3)"
proof -
  let ?p = "\<lparr>p_filters = [Always True], p_decode = \<lambda>_ w. (Inr 42, w + 1),
     p_validators = [\<lambda>_ w. (Inr True, w + 1), \<lambda>_ w. (Inr False, w + 1), \<lambda>_ w. (Inr True, w + 10)],
     p_solve = \<lambda>_. retI (), p_log = True\<rparr> :: (nat, nat) plugin"
  have "Match ?p None 0 = (Inr (None, []), 3)"
    using Match_short_circuits [of None ?p 0 42 1 "[\<lambda>_ w. (Inr True, w + 1)]" "\<lambda>_ w. (Inr False, w + 1)"
        "[\<lambda>_ w. (Inr True, w + 10)]" 2 "Always True" "[]" 3]
    by (simp add: Always_def)
  then show ?thesis by blast
qed

end
