(* ===== verification/Plugin.thy ===== *)
theory Plugin
  imports Builder Price
begin

text \<open>
  The banco plugin: \<^verbatim>\<open>pkg/banco/plugin.go\<close>, \<^verbatim>\<open>pkg/banco/config.go\<close> and the event of
  \<^verbatim>\<open>pkg/banco/events.go\<close>.

  The plugin is assembled by the builder from the decoder, three validators and the solve action. Its
  world is the taker's world, the price cache and the events the listener was notified of. The pair
  repository, the price feed, the clock and the wallet balance are fields of \<open>banco_env\<close>; log lines
  are not modelled.
\<close>

section \<open>Configuration and state\<close>

record fulfillment_event =
  ev_Pair :: string
  ev_DepositAsset :: string
  ev_DepositAmount :: u64
  ev_WantAsset :: string
  ev_WantAmount :: u64
  ev_OfferTxid :: string
  ev_FulfillTxid :: string
  ev_Timestamp :: int

record 'w plugin_world =
  pw_ark :: "'w world"
  pw_cache :: priceCache
  pw_events :: "fulfillment_event list"

record ('aid, 'pk, 'x, 'z, 'w) banco_env =
  env_lib :: "('aid, 'pk, 'x) banco_lib"
  env_taker :: "('aid, 'pk, 'x, 'z, 'w) taker_lib"
  env_IsExtension :: "bytes \<Rightarrow> bool"
  env_List :: "('w, pair list) io option"
  env_Fetch :: "string \<Rightarrow> ('w, f64) io"
  env_Now :: "('w, int) io"
  env_Balance :: "('w, u64) io"
  env_listener :: bool
  env_PriceCacheTTL :: int
  env_log :: bool

definition defaultPriceCacheTTL :: int where
  "defaultPriceCacheTTL = 5 * 60 * 1000000000"

text \<open>A logger always ends up configured.\<close>

definition WithDefault :: "('aid, 'pk, 'x, 'z, 'w) banco_env \<Rightarrow> ('aid, 'pk, 'x, 'z, 'w) banco_env" where
  "WithDefault cfg =
     (let cfg1 = (if env_PriceCacheTTL cfg = 0 then cfg\<lparr>env_PriceCacheTTL := defaultPriceCacheTTL\<rparr> else cfg)
      in if \<not> env_log cfg1 then cfg1\<lparr>env_log := True\<rparr> else cfg1)"

definition arkI :: "('w, 'a) io \<Rightarrow> ('w plugin_world, 'a) io" where
  "arkI m = (\<lambda>w. case extI m (pw_ark w) of (r, a) \<Rightarrow> (r, w\<lparr>pw_ark := a\<rparr>))"

section \<open>Stages\<close>

record ('aid, 'pk) matched_offer =
  mo_Offer :: "('aid, 'pk) banco_offer"
  mo_Pair :: pair

fun findMatchingPair :: "('aid, 'pk, 'x) contract_lib \<Rightarrow> pair list \<Rightarrow> ('aid, 'pk) banco_offer \<Rightarrow>
    pair option" where
  "findMatchingPair L [] o' = None"
| "findMatchingPair L (p # ps) o' =
     (if Base p \<noteq> DepositAssetStr L o' then findMatchingPair L ps o'
      else if Quote p \<noteq> WantAssetStr L o' then findMatchingPair L ps o'
      else Some p)"

definition decode :: "('aid, 'pk, 'x, 'z, 'w) banco_env \<Rightarrow> psbt \<Rightarrow> 'x extension \<Rightarrow>
    ('w plugin_world, ('aid, 'pk) matched_offer) io" where
  "decode E tx ext =
     bindI (liftI (NewOfferFromExtension (env_lib E) (UnsignedTx tx) ext)) (\<lambda>offer. case offer of
       None \<Rightarrow> liftI (failR ErrSkip)
     | Some o' \<Rightarrow> (case env_List E of
         None \<Rightarrow> liftI (failR ErrSkip)
       | Some List \<Rightarrow> bindI (wrapI ''list pairs'' (arkI List)) (\<lambda>pairs.
           case findMatchingPair (base_lib (env_lib E)) pairs o' of
             None \<Rightarrow> liftI (failR ErrSkip)
           | Some p \<Rightarrow> retI \<lparr>mo_Offer = o', mo_Pair = p\<rparr>)))"

definition checkAmountInRange :: "('aid, 'pk) matched_offer \<Rightarrow> ('w plugin_world, bool) io" where
  "checkAmountInRange m =
     (if WantAmount (bo_Offer (mo_Offer m)) < MinAmount (mo_Pair m)
         \<or> WantAmount (bo_Offer (mo_Offer m)) > MaxAmount (mo_Pair m)
      then retI False else retI True)"

text \<open>\<open>getPrice\<close> is the call of the cache: the clock is read first, then the cache is used with the
  feed.\<close>

definition getPrice :: "('aid, 'pk, 'x, 'z, 'w) banco_env \<Rightarrow> string \<Rightarrow>
    ('w plugin_world, f64 \<times> goerr option) io" where
  "getPrice E url = bindI (arkI (env_Now E)) (\<lambda>now w.
     case get (\<lambda>key. extI (env_Fetch E key)) now url (pw_cache w) (pw_ark w) of
       (r, c', a') \<Rightarrow> (r, w\<lparr>pw_cache := c', pw_ark := a'\<rparr>))"

definition priceInTolerance :: "('aid, 'pk) matched_offer \<Rightarrow> f64 \<times> goerr option \<Rightarrow> bool" where
  "priceInTolerance m got = (case got of (feedPrice, err) \<Rightarrow>
     if err \<noteq> None \<and> feq feedPrice (Zero False) then False
     else let feedPrice' = (if InvertPrice (mo_Pair m) then fdiv f1 feedPrice else feedPrice) in
       (case ComputePrice (mo_Offer m) (mo_Pair m) of
          None \<Rightarrow> False
        | Some offerPrice \<Rightarrow> validatePrice offerPrice feedPrice'))"

definition checkPriceTolerance :: "('aid, 'pk, 'x, 'z, 'w) banco_env \<Rightarrow> ('aid, 'pk) matched_offer \<Rightarrow>
    ('w plugin_world, bool) io" where
  "checkPriceTolerance E m =
     bindI (getPrice E (PriceFeed (mo_Pair m))) (\<lambda>got. retI (priceInTolerance m got))"

definition checkBTCBalance :: "('aid, 'pk, 'x, 'z, 'w) banco_env \<Rightarrow> ('aid, 'pk) matched_offer \<Rightarrow>
    ('w plugin_world, bool) io" where
  "checkBTCBalance E m =
     (if WantAsset (bo_Offer (mo_Offer m)) \<noteq> None then retI True
      else bindI (wrapI ''get balance'' (arkI (env_Balance E))) (\<lambda>total.
        if total < WantAmount (bo_Offer (mo_Offer m)) then retI False else retI True))"

definition fulfillmentEvent :: "('aid, 'pk, 'x) contract_lib \<Rightarrow> ('aid, 'pk) matched_offer \<Rightarrow> string \<Rightarrow>
    int \<Rightarrow> fulfillment_event" where
  "fulfillmentEvent L m txid now =
     \<lparr>ev_Pair = Pair (mo_Pair m), ev_DepositAsset = DepositAssetStr L (mo_Offer m),
      ev_DepositAmount = DepositAmount (mo_Offer m), ev_WantAsset = WantAssetStr L (mo_Offer m),
      ev_WantAmount = WantAmount (bo_Offer (mo_Offer m)), ev_OfferTxid = FundingTxid (mo_Offer m),
      ev_FulfillTxid = txid, ev_Timestamp = now\<rparr>"

definition onFulfill :: "fulfillment_event \<Rightarrow> ('w plugin_world, unit) io" where
  "onFulfill ev = (\<lambda>w. (Inr (), w\<lparr>pw_events := pw_events w @ [ev]\<rparr>))"

definition fulfill :: "('aid, 'pk, 'x, 'z, 'w) banco_env \<Rightarrow> ('aid, 'pk) matched_offer \<Rightarrow>
    ('w plugin_world, unit) io" where
  "fulfill E m = (\<lambda>w.
     case FulfillOffer (env_taker E) (bo_Offer (mo_Offer m)) (pw_ark w) of
       (Inl (Error e), a) \<Rightarrow> (Inr (), w\<lparr>pw_ark := a\<rparr>)
     | (Inl (Panic p), a) \<Rightarrow> (Inl (Panic p), w\<lparr>pw_ark := a\<rparr>)
     | (Inr txid, a) \<Rightarrow>
         if \<not> env_listener E then (Inr (), w\<lparr>pw_ark := a\<rparr>)
         else bindI (arkI (env_Now E)) (\<lambda>now.
                onFulfill (fulfillmentEvent (base_lib (env_lib E)) m txid now)) (w\<lparr>pw_ark := a\<rparr>))"

definition NewPlugin :: "('aid, 'pk, 'x, 'z, 'w) banco_env \<Rightarrow>
    ('w plugin_world, ('aid, 'pk) matched_offer) plugin result" where
  "NewPlugin cfg =
     (let E = WithDefault cfg in
      bindR (ForExtension (env_lib E) (env_IsExtension E) (Some (decode E))) (\<lambda>b.
        Build (WithLogger (env_log E) (SolveWith (Some (fulfill E))
          (Validate (Some (checkBTCBalance E)) (Validate (Some (checkPriceTolerance E))
            (Validate (Some checkAmountInRange) b)))))))"

definition initWorld :: "('aid, 'pk, 'x, 'z, 'w) banco_env \<Rightarrow> 'w world \<Rightarrow> 'w plugin_world" where
  "initWorld cfg a = \<lparr>pw_ark = a, pw_cache = newPriceCache (env_PriceCacheTTL (WithDefault cfg)),
     pw_events = []\<rparr>"

section \<open>The assembled plugin\<close>

lemma NewPlugin_eq:
  "NewPlugin cfg = Inr
     \<lparr>p_filters = [HasArkExtension (env_IsExtension (WithDefault cfg))],
      p_decode = extensionDecode (env_lib (WithDefault cfg)) (decode (WithDefault cfg)),
      p_validators = [checkAmountInRange, checkPriceTolerance (WithDefault cfg),
        checkBTCBalance (WithDefault cfg)],
      p_solve = fulfill (WithDefault cfg), p_log = env_log (WithDefault cfg)\<rparr>"
  by (simp add: NewPlugin_def ForExtension_def Build_def WithLogger_def SolveWith_def Validate_def
      Decode_def Filter_def For_def Let_def)

lemma WithDefault_keeps [simp]:
  "env_lib (WithDefault cfg) = env_lib cfg" "env_taker (WithDefault cfg) = env_taker cfg"
  "env_List (WithDefault cfg) = env_List cfg" "env_Balance (WithDefault cfg) = env_Balance cfg"
  "env_IsExtension (WithDefault cfg) = env_IsExtension cfg" "env_Fetch (WithDefault cfg) = env_Fetch cfg"
  "env_Now (WithDefault cfg) = env_Now cfg" "env_listener (WithDefault cfg) = env_listener cfg"
  by (simp_all add: WithDefault_def Let_def)

lemma findMatchingPair_find:
  "findMatchingPair L ps o' = find (\<lambda>p. Base p = DepositAssetStr L o' \<and> Quote p = WantAssetStr L o') ps"
  by (induction ps) auto

lemma extensionDecode_Inr:
  "extensionDecode B d tx w = (Inr x, w') \<longleftrightarrow>
   (\<exists>t u ext. tx = Some t \<and> UnsignedTx t = Some u \<and> NewExtensionFromTx B (Some u) = Inr ext
      \<and> d t ext w = (Inr x, w'))"
  by (auto simp: extensionDecode_def liftI_eq split: option.splits sum.splits failure.splits)

lemma decode_Inr:
  assumes "decode E tx ext w = (Inr m, w')"
  obtains List pairs a b where
    "NewOfferFromExtension (env_lib E) (UnsignedTx tx) ext = Inr (Some (mo_Offer m))"
    and "env_List E = Some List" and "List a = (Inr pairs, b)"
    and "find (\<lambda>p. Base p = DepositAssetStr (base_lib (env_lib E)) (mo_Offer m)
           \<and> Quote p = WantAssetStr (base_lib (env_lib E)) (mo_Offer m)) pairs = Some (mo_Pair m)"
  using assms
  by (auto simp: decode_def result_simps findMatchingPair_find arkI_def extI_def split: prod.splits)

subsection \<open>Matching asks for nothing\<close>

definition silent :: "('w plugin_world, 'a) io \<Rightarrow> bool" where
  "silent m \<longleftrightarrow> (\<forall>w. rpcs (pw_ark (snd (m w))) = rpcs (pw_ark w) \<and> pw_events (snd (m w)) = pw_events w)"

lemma silentD: "silent m \<Longrightarrow> m w = (r, w') \<Longrightarrow> rpcs (pw_ark w') = rpcs (pw_ark w) \<and> pw_events w' = pw_events w"
  unfolding silent_def by (metis snd_conv)

lemma silent_basic [intro!]: "silent (retI x)" "silent (liftI r)" "silent (arkI a)"
  by (auto simp: silent_def retI_def liftI_def arkI_def extI_def split: prod.splits)

lemma silent_wrapI [intro!]: "silent m \<Longrightarrow> silent (wrapI msg m)"
  by (simp add: silent_def wrapI_def)

lemma silent_bindI [intro]: "silent m \<Longrightarrow> (\<And>x. silent (f x)) \<Longrightarrow> silent (bindI m f)"
  by (auto simp: silent_def bindI_def split: prod.split sum.split) (metis snd_conv)+

lemma get_quiet:
  assumes "\<And>key. quiet (Fetch key)" and "get Fetch now url c a = (r, c', a')"
  shows "rpcs a' = rpcs a"
  using assms(2) emitsD [OF assms(1), of "TrimSpace url" a]
  by (auto simp: get_def Let_def split: option.splits prod.splits sum.splits failure.splits)

lemma silent_getPrice: "silent (getPrice E url)"
  unfolding getPrice_def
proof (rule silent_bindI [OF silent_basic(3)])
  show "silent (\<lambda>w. case get (\<lambda>key. extI (env_Fetch E key)) now url (pw_cache w) (pw_ark w) of
      (r, c', a') \<Rightarrow> (r, w\<lparr>pw_cache := c', pw_ark := a'\<rparr>))" for now
    unfolding silent_def
    using get_quiet [of "\<lambda>key. extI (env_Fetch E key)" now url, OF quiet_extI]
    by (auto split: prod.split)
qed

lemma silent_stages:
  "silent (decode E tx ext)" "silent (checkAmountInRange m)" "silent (checkPriceTolerance E m)"
  "silent (checkBTCBalance E m)"
  unfolding decode_def checkAmountInRange_def checkPriceTolerance_def checkBTCBalance_def
  by (intro silent_bindI silent_wrapI silent_basic silent_getPrice |
      auto split: option.split intro!: silent_bindI silent_wrapI silent_basic)+

lemma silent_extensionDecode: "(\<And>t e. silent (d t e)) \<Longrightarrow> silent (extensionDecode B d tx)"
  by (auto simp: extensionDecode_def split: option.split sum.split failure.split)

section \<open>Fulfilment events\<close>

lemma fulfill_events:
  assumes "fulfill E m w = (r, w')" and "pw_events w' \<noteq> pw_events w"
  obtains txid a now where "FulfillOffer (env_taker E) (bo_Offer (mo_Offer m)) (pw_ark w) = (Inr txid, a)"
    and "rpcs (pw_ark w') = rpcs a"
    and "pw_events w' = pw_events w @ [fulfillmentEvent (base_lib (env_lib E)) m txid now]"
  using assms
  by (auto simp: fulfill_def bindI_def arkI_def extI_def onFulfill_def
      split: prod.splits sum.splits failure.splits if_splits)

section \<open>Prices\<close>

lemma feed_range_inverse: "feed_range q \<Longrightarrow> feed_range (1 / q)"
proof -
  assume q: "feed_range q"
  then have "0 < q" unfolding feed_range_def
    by (meson less_le_trans zero_less_numeral zero_less_power_int)
  moreover have "1 / pow2 800 = pow2 (- 800)" "1 / pow2 (- 800) = pow2 800"
    by (simp_all add: power_int_minus field_simps)
  ultimately show ?thesis
    using q frac_le [of 1 1 q "pow2 800"] frac_le [of 1 1 "pow2 (- 800)" q]
    by (simp add: feed_range_def)
qed

definition feed_price :: "pair \<Rightarrow> rat \<Rightarrow> rat" where
  "feed_price p q = (if InvertPrice p then 1 / q else q)"

lemma feed_price_fl:
  assumes "feed_range q"
  shows "\<exists>k \<le> 2. fl k (if InvertPrice p then fdiv f1 (Fin q) else Fin q) (feed_price p q)"
    and "feed_range (feed_price p q)"
proof -
  have pos: "0 < q" using assms unfolding feed_range_def
    by (meson less_le_trans zero_less_numeral zero_less_power_int)
  then have q: "fl 0 (Fin q) q" by (simp add: fl_def close_refl)
  have "mid_range (1 / q)" using feed_range_scaled [OF feed_range_inverse [OF assms], of 1] by simp
  from fl_div [OF fl_constants(3) q _ this] have "fl 2 (fdiv f1 (Fin q)) (1 / q)"
    by (simp add: numeral_2_eq_2)
  with q show "\<exists>k \<le> 2. fl k (if InvertPrice p then fdiv f1 (Fin q) else Fin q) (feed_price p q)"
    by (auto simp: feed_price_def)
  show "feed_range (feed_price p q)"
    using assms feed_range_inverse by (simp add: feed_price_def)
qed

lemma priceInTolerance_Fin:
  assumes "feed_range q"
  shows "priceInTolerance m (Fin q, err) \<longleftrightarrow> (\<exists>x. ComputePrice (mo_Offer m) (mo_Pair m) = Some x
     \<and> validatePrice x (if InvertPrice (mo_Pair m) then fdiv f1 (Fin q) else Fin q))"
proof -
  have "0 < q" using assms unfolding feed_range_def
    by (meson less_le_trans zero_less_numeral zero_less_power_int)
  then show ?thesis by (simp add: priceInTolerance_def feq_def Let_def split: option.split)
qed

section \<open>A sample environment\<close>

definition sample_pair :: pair where
  "sample_pair = \<lparr>Pair = EncodeToString (replicate 34 5) @ CHR ''/'' # EncodeToString (replicate 34 7),
     MinAmount = 10, MaxAmount = 5000, BaseDecimals = 0, QuoteDecimals = 0, PriceFeed = ''u'',
     InvertPrice = False\<rparr>"

definition sample_env :: "(bytes, bytes, unit, bytes, unit) banco_env" where
  "sample_env = \<lparr>env_lib = sample_banco_lib, env_taker = sample_taker,
     env_IsExtension = (\<lambda>s. s = [0x6a]), env_List = Some (retI [sample_pair]),
     env_Fetch = (\<lambda>key. retI (Fin (205 / 4096))), env_Now = retI 7, env_Balance = retI 0,
     env_listener = True, env_PriceCacheTTL = 0, env_log = False\<rparr>"

definition sample_match :: "(bytes, bytes) matched_offer" where
  "sample_match = \<lparr>mo_Offer = sample_banco_offer, mo_Pair = sample_pair\<rparr>"

definition sample_psbt :: psbt where
  "sample_psbt = \<lparr>UnsignedTx = Some sample_tx, Unknowns = []\<rparr>"

lemma sample_pair_parts:
  "Base sample_pair = EncodeToString (replicate 34 5)" "Quote sample_pair = EncodeToString (replicate 34 7)"
proof -
  have "CHR ''/'' \<notin> set (EncodeToString (replicate 34 5))" by code_simp
  then show "Base sample_pair = EncodeToString (replicate 34 5)"
    "Quote sample_pair = EncodeToString (replicate 34 7)"
    by (simp_all add: Base_def Quote_def sample_pair_def SplitN2_append)
qed

lemma sample_assets:
  "DepositAssetStr sample_lib sample_banco_offer = EncodeToString (replicate 34 5)"
  "WantAssetStr sample_lib sample_banco_offer = EncodeToString (replicate 34 7)"
  by (simp_all add: DepositAssetStr_def WantAssetStr_def sample_banco_offer_def sample_offer_def sample_lib_def)

lemma sample_amounts [simp]: "DepositAmount sample_banco_offer = 50" "WantAmount (bo_Offer sample_banco_offer) = 1000"
  by (simp_all add: sample_banco_offer_def sample_offer_def)

lemma sample_usual: "usual_decimals sample_pair"
  by (simp add: usual_decimals_def sample_pair_def)

lemma sample_feed_range: "feed_range (205 / 4096)"
  by (simp add: feed_range_def power_int_def power_divide)

section \<open>Tolerance of a matched offer\<close>

lemma tolerance_bounds:
  assumes "usual_decimals (mo_Pair m)" and "feed_range q" and "priceInTolerance m (Fin q, err)"
  shows "feed_price (mo_Pair m) q * (99 / 100) \<le> exact_price (mo_Offer m) (mo_Pair m) * (1 + pow2 (- 48))"
    and "exact_price (mo_Offer m) (mo_Pair m) \<le> feed_price (mo_Pair m) q * (101 / 100) * (1 + pow2 (- 48))"
proof -
  obtain k where k: "k \<le> 2" "fl k (if InvertPrice (mo_Pair m) then fdiv f1 (Fin q) else Fin q)
      (feed_price (mo_Pair m) q)" using feed_price_fl(1) [OF assms(2)] by blast
  obtain x where x: "ComputePrice (mo_Offer m) (mo_Pair m) = Some x"
    "validatePrice x (if InvertPrice (mo_Pair m) then fdiv f1 (Fin q) else Fin q)"
    using assms(3) by (auto simp: priceInTolerance_Fin [OF assms(2)])
  note b = validatePrice_bounds [OF ComputePrice_fl [OF x(1) assms(1)] k(2,1) feed_price_fl(2) [OF assms(2)] x(2)]
  show "feed_price (mo_Pair m) q * (99 / 100) \<le> exact_price (mo_Offer m) (mo_Pair m) * (1 + pow2 (- 48))"
    by (rule b(1))
  show "exact_price (mo_Offer m) (mo_Pair m) \<le> feed_price (mo_Pair m) q * (101 / 100) * (1 + pow2 (- 48))"
    by (rule b(2))
qed

lemma tolerance_complete:
  assumes "usual_decimals (mo_Pair m)" and "feed_range q"
    and "DepositAmount (mo_Offer m) \<noteq> 0" and "WantAmount (bo_Offer (mo_Offer m)) \<noteq> 0"
    and "feed_price (mo_Pair m) q * (99 / 100) * (1 + pow2 (- 48)) < exact_price (mo_Offer m) (mo_Pair m)"
    and "exact_price (mo_Offer m) (mo_Pair m) * (1 + pow2 (- 48)) < feed_price (mo_Pair m) q * (101 / 100)"
  shows "priceInTolerance m (Fin q, err)"
proof -
  obtain k where k: "k \<le> 2" "fl k (if InvertPrice (mo_Pair m) then fdiv f1 (Fin q) else Fin q)
      (feed_price (mo_Pair m) q)" using feed_price_fl(1) [OF assms(2)] by blast
  obtain x where x: "ComputePrice (mo_Offer m) (mo_Pair m) = Some x"
    using assms(3,4) by (simp add: ComputePrice_def Let_def)
  from validatePrice_complete [OF ComputePrice_fl [OF x assms(1)] k(2,1) feed_price_fl(2) [OF assms(2)] assms(5,6)]
  show ?thesis using x by (simp add: priceInTolerance_Fin [OF assms(2)])
qed

lemma sample_tolerated: "priceInTolerance sample_match (Fin (205 / 4096), err)"
proof (rule tolerance_complete)
  have e: "exact_price (mo_Offer sample_match) (mo_Pair sample_match) = 1 / 20"
    by (simp add: exact_price_def sample_match_def sample_pair_def)
  have f: "feed_price (mo_Pair sample_match) (205 / 4096) = 205 / 4096"
    by (simp add: feed_price_def sample_match_def sample_pair_def)
  show "feed_price (mo_Pair sample_match) (205 / 4096) * (99 / 100) * (1 + pow2 (- 48))
      < exact_price (mo_Offer sample_match) (mo_Pair sample_match)"
    unfolding e f by (simp add: power_int_def power_divide)
  show "exact_price (mo_Offer sample_match) (mo_Pair sample_match) * (1 + pow2 (- 48))
      < feed_price (mo_Pair sample_match) (205 / 4096) * (101 / 100)"
    unfolding e f by (simp add: power_int_def power_divide)
qed (simp_all add: sample_match_def sample_usual sample_feed_range)

lemma sample_matched:
  "\<exists>p w'. NewPlugin sample_env = Inr p
     \<and> Match p (Some sample_psbt) (initWorld sample_env \<lparr>outside = (), rpcs = []\<rparr>) = (Inr (Some sample_match, []), w')"
proof -
  let ?E = "WithDefault sample_env" and ?w = "initWorld sample_env \<lparr>outside = (), rpcs = []\<rparr>"
  have sel: "env_lib sample_env = sample_banco_lib" "env_List sample_env = Some (retI [sample_pair])"
    "env_Fetch sample_env = (\<lambda>key. retI (Fin (205 / 4096)))" "env_Now sample_env = retI 7"
    "env_IsExtension sample_env = (\<lambda>s. s = [0x6a])"
    by (simp_all add: sample_env_def)
  have "HasArkExtension (env_IsExtension ?E) (Some sample_psbt)"
    by (simp add: sel HasArkExtension_def HasOutput_def OutputScriptMatching_def no_output_criteria_def
        unsigned_tx_def sample_psbt_def sample_tx_def matchOutput_def)
  moreover have "extensionDecode sample_banco_lib (decode ?E) (Some sample_psbt) ?w = (Inr sample_match, ?w)"
  proof -
    have "NewExtensionFromTx sample_banco_lib (Some sample_tx) = Inr [UnknownPacket PacketType sample_data]"
      by (simp add: sample_banco_lib_def contract_lib.defs banco_lib.defs)
    moreover have "arkI (retI [sample_pair]) ?w = (Inr [sample_pair], ?w)"
      by (simp add: arkI_def extI_def retI_def initWorld_def)
    ultimately show ?thesis
      by (simp add: extensionDecode_def decode_def sample_psbt_def sel sample_detected findMatchingPair_find
          sample_pair_parts sample_assets sample_match_def bindI_def wrapI_def liftI_def retI_def)
  qed
  moreover have "checkAmountInRange sample_match ?w = (Inr True, ?w)"
    by (simp add: checkAmountInRange_def sample_match_def sample_pair_def retI_def)
  moreover obtain w2 where "checkPriceTolerance ?E sample_match ?w = (Inr True, w2)"
    by (simp add: checkPriceTolerance_def getPrice_def sel bindI_def arkI_def extI_def retI_def get_def
        lookup_fresh_def initWorld_def newPriceCache_def Let_def sample_tolerated)
  moreover have "checkBTCBalance ?E sample_match w2 = (Inr True, w2)"
    by (simp add: checkBTCBalance_def sample_match_def sample_banco_offer_def sample_offer_def retI_def)
  ultimately show ?thesis by (simp add: NewPlugin_eq Match_Some sel)
qed

section \<open>Properties\<close>



text \<open>C17. The one percent is one percent, up to rounding: for a finite feed price in a wide range and
  decimals from 0 to 31, an offer that passes has an exact price within one percent of the feed price
  (of its inverse, when the pair says so), widened by a factor of \<open>1 + 2 ^ - 48\<close>; and every offer
  with nonzero amounts within one percent narrowed by that factor passes.\<close>

theorem price_tolerance_exact:
  assumes "usual_decimals (mo_Pair m)" and "feed_range q"
  shows "(priceInTolerance m (Fin q, err) \<longrightarrow>
       feed_price (mo_Pair m) q * (99 / 100) \<le> exact_price (mo_Offer m) (mo_Pair m) * (1 + pow2 (- 48))
     \<and> exact_price (mo_Offer m) (mo_Pair m) \<le> feed_price (mo_Pair m) q * (101 / 100) * (1 + pow2 (- 48)))
   \<and> (DepositAmount (mo_Offer m) \<noteq> 0 \<and> WantAmount (bo_Offer (mo_Offer m)) \<noteq> 0
     \<and> feed_price (mo_Pair m) q * (99 / 100) * (1 + pow2 (- 48)) < exact_price (mo_Offer m) (mo_Pair m)
     \<and> exact_price (mo_Offer m) (mo_Pair m) * (1 + pow2 (- 48)) < feed_price (mo_Pair m) q * (101 / 100) \<longrightarrow>
       priceInTolerance m (Fin q, err))"
  by (intro conjI impI; (elim conjE)?;
      (rule tolerance_bounds [OF assms] tolerance_complete [OF assms]; assumption)?)

theorem price_tolerance_exact_witness:
  "(205 / 4096 :: rat) * (99 / 100) \<le> 1 / 20 * (1 + pow2 (- 48))"
  using price_tolerance_exact [of sample_match "205 / 4096" None] sample_tolerated [of None]
  by (simp add: sample_match_def sample_usual sample_feed_range feed_price_def exact_price_def sample_pair_def)

text \<open>An event reaches the listener only for a fulfilment that was submitted: if the solve action
  publishes anything, it is one event, with the matched offer's pair, assets, amounts and funding
  transaction and the transaction identifier the introspector returned, the contract was verified
  first, and a submission is among the requests made.\<close>

lemma fulfill_event_submitted:
  assumes "fulfill E m w = (r, w')" and "pw_events w' \<noteq> pw_events w"
  shows "\<exists>txid now new signs tx cps.
      pw_events w' = pw_events w @ [fulfillmentEvent (base_lib (env_lib E)) m txid now]
    \<and> contract_matches (env_taker E) (bo_Offer (mo_Offer m))
    \<and> rpcs (pw_ark w') = rpcs (pw_ark w) @ new \<and> new = signs @ [RpcSubmit tx cps]"
proof -
  obtain txid a now where f: "FulfillOffer (env_taker E) (bo_Offer (mo_Offer m)) (pw_ark w) = (Inr txid, a)"
    and a: "rpcs (pw_ark w') = rpcs a"
      "pw_events w' = pw_events w @ [fulfillmentEvent (base_lib (env_lib E)) m txid now]"
    using fulfill_events [OF assms] .
  from FulfillOffer_cases [OF f] a show ?thesis by (auto simp: submission_def)
qed

lemma fulfill_event_submitted_witness:
  "\<exists>ev. pw_events (snd (fulfill sample_env sample_match
      (initWorld sample_env \<lparr>outside = (), rpcs = []\<rparr>))) = [ev]"
proof -
  let ?w = "initWorld sample_env \<lparr>outside = (), rpcs = []\<rparr>"
  obtain id a where "FulfillOffer sample_taker sample_offer \<lparr>outside = (), rpcs = []\<rparr> = (Inr id, a)"
    using sample_fulfill by blast
  then have "pw_events (snd (fulfill sample_env sample_match ?w)) \<noteq> pw_events ?w"
    by (simp add: fulfill_def sample_env_def sample_match_def sample_banco_offer_def initWorld_def bindI_def
        arkI_def extI_def retI_def onFulfill_def)
  then show ?thesis
    using fulfill_event_submitted [of sample_env sample_match ?w "fst (fulfill sample_env sample_match ?w)"
        "snd (fulfill sample_env sample_match ?w)"]
    by (auto simp: initWorld_def)
qed

lemma fulfill_rewrite:
  "snd (fulfill E m w) = (case FulfillOffer (env_taker E) (bo_Offer (mo_Offer m)) (pw_ark w) of
     (Inl f, a) \<Rightarrow> w\<lparr>pw_ark := a\<rparr>
   | (Inr txid, a) \<Rightarrow> snd ((if env_listener E then bindI (arkI (env_Now E)) (\<lambda>now.
        onFulfill (fulfillmentEvent (base_lib (env_lib E)) m txid now)) else retI ()) (w\<lparr>pw_ark := a\<rparr>)))"
  by (simp add: fulfill_def retI_def split: prod.split sum.split failure.split)

lemma fulfill_ark_cong:
  assumes "bo_Offer (mo_Offer m') = bo_Offer (mo_Offer m)"
  shows "pw_ark (snd (fulfill E m' w)) = pw_ark (snd (fulfill E m w))"
  unfolding fulfill_rewrite assms
  by (simp add: bindI_def arkI_def extI_def onFulfill_def retI_def split: prod.split sum.split)

text \<open>C9. What is spent is not what was matched. If the solve action publishes an event, the plan it
  submitted spends the first output the indexer lists at the swap address, with that output's amount;
  and the requests made are the same whatever asset, funding transaction and amount the match found.\<close>

theorem deposit_not_bound:
  assumes "fulfill E m w = (r, w')" and "pw_events w' \<noteq> pw_events w"
  shows "(\<exists>p wp v vs u u'. prepareFulfill (env_taker E) (bo_Offer (mo_Offer m)) (pw_ark w) = (Inr p, wp)
      \<and> Indexer_GetVtxos (env_taker E) (EncodeToString (SwapPkScript (bo_Offer (mo_Offer m)))) u = (Inr (v # vs), u')
      \<and> coin_outpoint (env_taker E) v = Inr (vi_Outpoint (hd (fp_inputs p)))
      \<and> vi_Amount (hd (fp_inputs p)) = vtxo_Amount v)
    \<and> (\<forall>d txid amt. pw_ark (snd (fulfill E (m\<lparr>mo_Offer := (mo_Offer m)
          \<lparr>DepositAsset := d, FundingTxid := txid, DepositAmount := amt\<rparr>\<rparr>) w)) = pw_ark w')"
proof -
  obtain txid a now where "FulfillOffer (env_taker E) (bo_Offer (mo_Offer m)) (pw_ark w) = (Inr txid, a)"
    using fulfill_events [OF assms] .
  then obtain p wp where p: "prepareFulfill (env_taker E) (bo_Offer (mo_Offer m)) (pw_ark w) = (Inr p, wp)"
    by (auto simp: FulfillOffer_def bindI_eq_Inr)
  obtain c v vs tvs scr w1 w2 w3 where "fulfill_contract (env_taker E) (bo_Offer (mo_Offer m)) (pw_ark w) = (Inr c, w1)" and
    v: "extI (Indexer_GetVtxos (env_taker E) (EncodeToString (SwapPkScript (bo_Offer (mo_Offer m))))) w1 = (Inr (v # vs), w2)"
    and plan: "planTx (env_taker E) (bo_Offer (mo_Offer m)) c v tvs scr = Inr p" by (rule prepareFulfill_stages [OF p])
  from plan have "swapInput (env_taker E) c v = Inr (hd (fp_inputs p))"
    by (auto simp: planTx_def result_simps)
  then have "coin_outpoint (env_taker E) v = Inr (vi_Outpoint (hd (fp_inputs p)))"
    "vi_Amount (hd (fp_inputs p)) = vtxo_Amount v"
    by (rule swapInput_outpoint, rule swapInput_amount)
  moreover obtain u u' where "Indexer_GetVtxos (env_taker E) (EncodeToString (SwapPkScript (bo_Offer (mo_Offer m)))) u = (Inr (v # vs), u')"
    using v by (auto simp: extI_def split: prod.splits)
  moreover have "pw_ark (snd (fulfill E (m\<lparr>mo_Offer := (mo_Offer m)
      \<lparr>DepositAsset := d, FundingTxid := t, DepositAmount := amt\<rparr>\<rparr>) w)) = pw_ark w'" for d t amt
    using fulfill_ark_cong [of "m\<lparr>mo_Offer := (mo_Offer m)\<lparr>DepositAsset := d, FundingTxid := t, DepositAmount := amt\<rparr>\<rparr>" m E w]
      assms(1) by simp
  ultimately show ?thesis using p by (intro conjI exI [of _ p] exI [of _ wp] exI [of _ v] exI [of _ vs] exI [of _ u] exI [of _ u'] allI) assumption+
qed

text \<open>Behind a dust coin without assets the deposit of 50 units is not touched, and the event reports it.\<close>

abbreviation dust_taker :: "(bytes, bytes, unit, bytes, unit) taker_lib" where
  "dust_taker \<equiv> sample_indexer [sample_vtxo ''dd'' 330 [], sample_vtxo ''aa'' 5000 sample_swap_assets]"

lemma sample_build_dust:
  "\<exists>q. buildFulfillAssetPacket sample_lib sample_asset_lib rev (\<lambda>ks. ks) [] sample_taker_assets sample_offer = Inr q"
proof -
  have "\<not> isl (buildFulfillAssetPacket sample_lib sample_asset_lib rev (\<lambda>ks. ks) [] sample_taker_assets sample_offer)"
    by code_simp
  then show ?thesis
    by (cases "buildFulfillAssetPacket sample_lib sample_asset_lib rev (\<lambda>ks. ks) [] sample_taker_assets sample_offer") auto
qed

lemma dust_fulfill:
  "\<exists>p id a. prepareFulfill dust_taker sample_offer w = (Inr p, w)
     \<and> vi_Outpoint (hd (fp_inputs p)) = \<lparr>Hash = map of_char ''dd'', Index = 0\<rparr>
     \<and> FulfillOffer dust_taker sample_offer w = (Inr id, a)"
proof -
  obtain q where "buildFulfillAssetPacket sample_lib sample_asset_lib rev (\<lambda>ks. ks) [] sample_taker_assets sample_offer = Inr q"
    using sample_build_dust by blast
  from sample_prepare_first [OF _ this, of "''dd''" 330 "[sample_vtxo ''aa'' 5000 sample_swap_assets]" w]
  obtain p i j k where p: "prepareFulfill dust_taker sample_offer w = (Inr p, w)" "fp_inputs p = [i, j, k]"
    "vi_Outpoint i = \<lparr>Hash = map of_char ''dd'', Index = 0\<rparr>" by auto
  then show ?thesis
    by (auto simp: FulfillOffer_def submitFulfill_def signCheckpoints_def signI_def io_eval)
qed

theorem deposit_not_bound_witness:
  "\<exists>p ev wp. pw_events (snd (fulfill (sample_env\<lparr>env_taker := dust_taker\<rparr>) sample_match
      (initWorld sample_env \<lparr>outside = (), rpcs = []\<rparr>))) = [ev] \<and> ev_DepositAmount ev = 50
    \<and> prepareFulfill dust_taker sample_offer \<lparr>outside = (), rpcs = []\<rparr> = (Inr p, wp) \<and> vi_Amount (hd (fp_inputs p)) = 330"
proof -
  let ?E = "sample_env\<lparr>env_taker := dust_taker\<rparr>" and ?w = "initWorld sample_env \<lparr>outside = (), rpcs = []\<rparr>"
  obtain p id a where p: "prepareFulfill dust_taker sample_offer \<lparr>outside = (), rpcs = []\<rparr> = (Inr p, \<lparr>outside = (), rpcs = []\<rparr>)"
    and f: "FulfillOffer dust_taker sample_offer \<lparr>outside = (), rpcs = []\<rparr> = (Inr id, a)" using dust_fulfill by blast
  have e: "fulfill ?E sample_match ?w = (Inr (), (?w\<lparr>pw_ark := a\<rparr>)\<lparr>pw_events := [fulfillmentEvent sample_lib sample_match id 7]\<rparr>)"
    using f by (simp add: fulfill_def sample_env_def sample_match_def sample_banco_offer_def initWorld_def bindI_def
        arkI_def extI_def retI_def onFulfill_def)
  with deposit_not_bound [OF e] p have "vi_Amount (hd (fp_inputs p)) = 330"
    by (auto simp: initWorld_def sample_match_def sample_banco_offer_def retI_def sample_vtxo_def)
  with e p show ?thesis
    by (auto simp: fulfillmentEvent_def sample_match_def sample_banco_offer_def)
qed

end
