(* ===== verification/Solver.thy ===== *)
theory Solver
  imports Tx
begin

text \<open>
  The solver runtime: \<^verbatim>\<open>pkg/solver/solver.go\<close>, and its source of transactions,
  \<^verbatim>\<open>pkg/solver/arkdsource/arkdsource.go\<close>.

  \<open>Run\<close> is a goroutine that receives, matches and starts solves, which are goroutines of their own;
  others send on the channel, close it and cancel the context. It is the step relation \<open>run_step\<close>:
  one rule per atomic action, interleaved in any order. A Match or a Solve of a plugin is one action
  on the world \<open>'w\<close> the plugins share. A plugin's Match and Solve return no error, so the only failure
  of their results is a panic.

  The fields \<open>rs_sent\<close>, \<open>rs_received\<close>, \<open>rs_calls\<close>, \<open>rs_started\<close> and \<open>rs_finished\<close> record what
  happened; no rule reads them.
\<close>

section \<open>Plugins and panics\<close>

record ('w, 'i) solver_plugin =
  sp_Match :: "psbt \<Rightarrow> ('w, 'i option) io"
  sp_Solve :: "'i \<Rightarrow> ('w, unit) io"

definition safeMatch :: "('w, 'i) solver_plugin \<Rightarrow> psbt \<Rightarrow> 'w \<Rightarrow> 'i option \<times> 'w" where
  "safeMatch p tx w = (case sp_Match p tx w of (Inl panic, w') \<Rightarrow> (None, w') | (Inr r, w') \<Rightarrow> (r, w'))"

definition safeSolve :: "('w, 'i) solver_plugin \<Rightarrow> 'i \<Rightarrow> 'w \<Rightarrow> 'w" where
  "safeSolve p intent w = (case sp_Solve p intent w of (Inl panic, w') \<Rightarrow> w' | (Inr _, w') \<Rightarrow> w')"

section \<open>Run\<close>

datatype phase = Looping | Matching psbt nat | Draining "goerr option" | Returned "goerr option"

record ('w, 'i) run_state =
  rs_phase :: phase
  rs_chan :: "psbt option list"
  rs_closed :: bool
  rs_ctxErr :: "goerr option"
  rs_inflight :: "(nat \<times> 'i) multiset"
  rs_world :: 'w
  rs_sent :: "psbt option list"
  rs_received :: "psbt option list"
  rs_calls :: "(psbt \<times> nat) list"
  rs_started :: "(nat \<times> 'i) list"
  rs_finished :: "(nat \<times> 'i) list"

definition run_start :: "'w \<Rightarrow> ('w, 'i) run_state" where
  "run_start w = \<lparr>rs_phase = Looping, rs_chan = [], rs_closed = False, rs_ctxErr = None,
     rs_inflight = {#}, rs_world = w, rs_sent = [], rs_received = [], rs_calls = [], rs_started = [],
     rs_finished = []\<rparr>"

definition after_recv :: "psbt option \<Rightarrow> phase" where
  "after_recv tx = (case tx of None \<Rightarrow> Looping | Some t \<Rightarrow> Matching t 0)"

text \<open>What the goroutine does with the result of a Match, and at the end of a Solve.\<close>

definition end_match :: "psbt \<Rightarrow> nat \<Rightarrow> 'i option \<Rightarrow> 'w \<Rightarrow> ('w, 'i) run_state \<Rightarrow> ('w, 'i) run_state" where
  "end_match t n r w s =
     (let s' = s\<lparr>rs_phase := Matching t (Suc n), rs_world := w, rs_calls := rs_calls s @ [(t, n)]\<rparr>
      in case r of None \<Rightarrow> s'
         | Some i \<Rightarrow> s'\<lparr>rs_inflight := add_mset (n, i) (rs_inflight s), rs_started := rs_started s @ [(n, i)]\<rparr>)"

definition end_solve :: "nat \<Rightarrow> 'i \<Rightarrow> 'w \<Rightarrow> ('w, 'i) run_state \<Rightarrow> ('w, 'i) run_state" where
  "end_solve n i w s = s\<lparr>rs_inflight := rs_inflight s - {#(n, i)#}, rs_world := w,
     rs_finished := rs_finished s @ [(n, i)]\<rparr>"

definition do_match :: "('w, 'i) solver_plugin list \<Rightarrow> psbt \<Rightarrow> nat \<Rightarrow> ('w, 'i) run_state \<Rightarrow>
    ('w, 'i) run_state" where
  "do_match ps t n s = (case safeMatch (ps ! n) t (rs_world s) of (r, w') \<Rightarrow> end_match t n r w' s)"

definition do_solve :: "('w, 'i) solver_plugin list \<Rightarrow> nat \<Rightarrow> 'i \<Rightarrow> ('w, 'i) run_state \<Rightarrow>
    ('w, 'i) run_state" where
  "do_solve ps n i s = end_solve n i (safeSolve (ps ! n) i (rs_world s)) s"

text \<open>The actions of Run and of the solves it started.\<close>

inductive own_step :: "('w, 'i) solver_plugin list \<Rightarrow> ('w, 'i) run_state \<Rightarrow> ('w, 'i) run_state \<Rightarrow> bool"
  for ps where
  ctx_done: "rs_phase s = Looping \<Longrightarrow> rs_ctxErr s = Some e \<Longrightarrow>
    own_step ps s (s\<lparr>rs_phase := Draining (Some e)\<rparr>)"
| chan_closed: "rs_phase s = Looping \<Longrightarrow> rs_chan s = [] \<Longrightarrow> rs_closed s \<Longrightarrow>
    own_step ps s (s\<lparr>rs_phase := Draining None\<rparr>)"
| recv: "rs_phase s = Looping \<Longrightarrow> rs_chan s = tx # rest \<Longrightarrow>
    own_step ps s (s\<lparr>rs_phase := after_recv tx, rs_chan := rest, rs_received := rs_received s @ [tx]\<rparr>)"
| match: "rs_phase s = Matching t n \<Longrightarrow> n < length ps \<Longrightarrow> own_step ps s (do_match ps t n s)"
| matched: "rs_phase s = Matching t n \<Longrightarrow> n = length ps \<Longrightarrow> own_step ps s (s\<lparr>rs_phase := Looping\<rparr>)"
| solve: "(n, i) \<in># rs_inflight s \<Longrightarrow> own_step ps s (do_solve ps n i s)"
| drained: "rs_phase s = Draining r \<Longrightarrow> rs_inflight s = {#} \<Longrightarrow>
    own_step ps s (s\<lparr>rs_phase := Returned r\<rparr>)"

text \<open>The actions of its callers.\<close>

inductive env_step :: "('w, 'i) run_state \<Rightarrow> ('w, 'i) run_state \<Rightarrow> bool" where
  send: "\<not> rs_closed s \<Longrightarrow> env_step s (s\<lparr>rs_chan := rs_chan s @ [tx], rs_sent := rs_sent s @ [tx]\<rparr>)"
| close: "\<not> rs_closed s \<Longrightarrow> env_step s (s\<lparr>rs_closed := True\<rparr>)"
| cancel: "rs_ctxErr s = None \<Longrightarrow> env_step s (s\<lparr>rs_ctxErr := Some e\<rparr>)"

definition run_step :: "('w, 'i) solver_plugin list \<Rightarrow> ('w, 'i) run_state \<Rightarrow> ('w, 'i) run_state \<Rightarrow> bool" where
  "run_step ps s t \<longleftrightarrow> own_step ps s t \<or> env_step s t"

inductive_cases own_stepE: "own_step ps s t"
inductive_cases env_stepE: "env_step s t"

section \<open>The source of transactions\<close>

text \<open>One turn of the loop of \<^verbatim>\<open>Subscribe\<close>: what the select statement picked. For a transaction,
  \<open>delivered\<close> tells whether the second select sent it or saw the context canceled.\<close>

datatype 'b stream_choice =
    CtxDone
  | StreamClosed
  | StreamErr goerr
  | NoArkTx
  | ArkTx 'b bool

fun subscribe_loop :: "('b \<Rightarrow> psbt result) \<Rightarrow> 'b stream_choice list \<Rightarrow> psbt list" where
  "subscribe_loop NewFromRawBytes [] = []"
| "subscribe_loop NewFromRawBytes (CtxDone # cs) = []"
| "subscribe_loop NewFromRawBytes (StreamClosed # cs) = []"
| "subscribe_loop NewFromRawBytes (StreamErr e # cs) = subscribe_loop NewFromRawBytes cs"
| "subscribe_loop NewFromRawBytes (NoArkTx # cs) = subscribe_loop NewFromRawBytes cs"
| "subscribe_loop NewFromRawBytes (ArkTx b delivered # cs) = (case NewFromRawBytes b of
     Inl e \<Rightarrow> subscribe_loop NewFromRawBytes cs
   | Inr pkt \<Rightarrow> if delivered then pkt # subscribe_loop NewFromRawBytes cs else [])"

definition Subscribe :: "goerr option \<Rightarrow> ('b \<Rightarrow> psbt result) \<Rightarrow> 'b stream_choice list \<Rightarrow> psbt list" where
  "Subscribe err NewFromRawBytes cs = (case err of
     Some e \<Rightarrow> [] | None \<Rightarrow> subscribe_loop NewFromRawBytes cs)"

section \<open>Invariants of a run\<close>

text \<open>Every received transaction that is not nil is offered to every plugin once, in order.\<close>

definition all_calls :: "nat \<Rightarrow> psbt option list \<Rightarrow> (psbt \<times> nat) list" where
  "all_calls k rcv = concat (map (\<lambda>tx. case tx of None \<Rightarrow> [] | Some t \<Rightarrow> map (Pair t) [0..<k]) rcv)"

definition calls_ok :: "nat \<Rightarrow> ('w, 'i) run_state \<Rightarrow> bool" where
  "calls_ok k s = (case rs_phase s of
     Matching t n \<Rightarrow> n \<le> k \<and> (\<exists>rcv. rs_received s = rcv @ [Some t]
        \<and> rs_calls s = all_calls k rcv @ map (Pair t) [0..<n])
   | _ \<Rightarrow> rs_calls s = all_calls k (rs_received s))"

definition phase_ok :: "('w, 'i) run_state \<Rightarrow> bool" where
  "phase_ok s = (case rs_phase s of
     Draining None \<Rightarrow> rs_closed s \<and> rs_chan s = []
   | Draining (Some e) \<Rightarrow> rs_ctxErr s = Some e
   | Returned None \<Rightarrow> rs_closed s \<and> rs_chan s = [] \<and> rs_inflight s = {#}
   | Returned (Some e) \<Rightarrow> rs_ctxErr s = Some e \<and> rs_inflight s = {#}
   | _ \<Rightarrow> True)"

definition run_inv :: "nat \<Rightarrow> ('w, 'i) run_state \<Rightarrow> bool" where
  "run_inv k s \<longleftrightarrow> phase_ok s \<and> calls_ok k s
     \<and> rs_sent s = rs_received s @ rs_chan s
     \<and> mset (rs_started s) = rs_inflight s + mset (rs_finished s)"

lemma all_calls_append: "all_calls k (xs @ ys) = all_calls k xs @ all_calls k ys"
  by (simp add: all_calls_def)

lemma end_match_simps [simp]:
  "rs_phase (end_match t n r w s) = Matching t (Suc n)" "rs_chan (end_match t n r w s) = rs_chan s"
  "rs_received (end_match t n r w s) = rs_received s" "rs_sent (end_match t n r w s) = rs_sent s"
  "rs_calls (end_match t n r w s) = rs_calls s @ [(t, n)]" "rs_finished (end_match t n r w s) = rs_finished s"
  "rs_closed (end_match t n r w s) = rs_closed s" "rs_ctxErr (end_match t n r w s) = rs_ctxErr s"
  "rs_world (end_match t n r w s) = w"
  by (simp_all add: end_match_def Let_def split: option.split)

lemma end_solve_simps [simp]:
  "rs_phase (end_solve n i w s) = rs_phase s" "rs_chan (end_solve n i w s) = rs_chan s"
  "rs_received (end_solve n i w s) = rs_received s" "rs_sent (end_solve n i w s) = rs_sent s"
  "rs_calls (end_solve n i w s) = rs_calls s" "rs_started (end_solve n i w s) = rs_started s"
  "rs_finished (end_solve n i w s) = rs_finished s @ [(n, i)]"
  "rs_inflight (end_solve n i w s) = rs_inflight s - {#(n, i)#}"
  "rs_closed (end_solve n i w s) = rs_closed s" "rs_ctxErr (end_solve n i w s) = rs_ctxErr s"
  "rs_world (end_solve n i w s) = w"
  by (simp_all add: end_solve_def)

lemma do_match_simps [simp]:
  "rs_phase (do_match ps t n s) = Matching t (Suc n)" "rs_chan (do_match ps t n s) = rs_chan s"
  "rs_finished (do_match ps t n s) = rs_finished s"
  "rs_closed (do_match ps t n s) = rs_closed s" "rs_ctxErr (do_match ps t n s) = rs_ctxErr s"
  by (simp_all add: do_match_def split: prod.split)

lemma do_solve_simps [simp]:
  "rs_phase (do_solve ps n i s) = rs_phase s" "rs_chan (do_solve ps n i s) = rs_chan s"
  "rs_started (do_solve ps n i s) = rs_started s"
  "rs_finished (do_solve ps n i s) = rs_finished s @ [(n, i)]"
  "rs_inflight (do_solve ps n i s) = rs_inflight s - {#(n, i)#}"
  "rs_closed (do_solve ps n i s) = rs_closed s" "rs_ctxErr (do_solve ps n i s) = rs_ctxErr s"
  by (simp_all add: do_solve_def)

lemma end_match_started:
  "mset (rs_started s) = rs_inflight s + M \<Longrightarrow>
   mset (rs_started (end_match t n r w s)) = rs_inflight (end_match t n r w s) + M"
  by (simp add: end_match_def Let_def split: option.split)

lemma size_do_match: "size (rs_inflight (do_match ps t n s)) \<le> Suc (size (rs_inflight s))"
  by (simp add: do_match_def end_match_def Let_def split: prod.split option.split)

lemma run_inv_end_match:
  assumes "run_inv k s" and "rs_phase s = Matching t n" and "n < k"
  shows "run_inv k (end_match t n r w s)"
  using assms end_match_started [of s _ t n r w] by (auto simp: run_inv_def phase_ok_def calls_ok_def)

lemma run_inv_end_solve:
  assumes "run_inv k s" and "(n, i) \<in># rs_inflight s"
  shows "run_inv k (end_solve n i w s)"
  using assms by (auto simp: run_inv_def phase_ok_def calls_ok_def split: phase.splits option.splits)

lemma run_inv_start: "run_inv k (run_start w)"
  by (simp add: run_inv_def run_start_def phase_ok_def calls_ok_def all_calls_def)

lemma run_inv_own:
  assumes "run_inv (length ps) s" and "own_step ps s t"
  shows "run_inv (length ps) t"
  using assms(2)
proof cases
  case (recv tx rest)
  with assms(1) show ?thesis
    by (cases tx) (auto simp: run_inv_def phase_ok_def calls_ok_def after_recv_def all_calls_append
        all_calls_def)
next
  case (match t n)
  with assms(1) show ?thesis by (auto simp: do_match_def split: prod.split intro: run_inv_end_match)
next
  case (matched t n)
  with assms(1) show ?thesis
    by (auto simp: run_inv_def phase_ok_def calls_ok_def all_calls_append) (simp add: all_calls_def)
next
  case (solve n i)
  with assms(1) show ?thesis by (simp add: do_solve_def run_inv_end_solve)
qed (use assms(1) in \<open>auto simp: run_inv_def phase_ok_def calls_ok_def split: option.splits\<close>)

lemma run_inv_env:
  assumes "run_inv k s" and "env_step s t"
  shows "run_inv k t"
  using assms(2)
proof cases
  case (send tx)
  with assms(1) show ?thesis
    by (auto simp: run_inv_def phase_ok_def calls_ok_def split: phase.splits option.splits)
qed (use assms(1) in \<open>auto simp: run_inv_def phase_ok_def calls_ok_def split: phase.splits option.splits\<close>)

interpretation run: invariant_system "\<lambda>s. \<exists>w. s = run_start w" "run_step ps" "run_inv (length ps)" for ps
  by unfold_locales (auto simp: run_step_def run_inv_start intro: run_inv_own run_inv_env)

section \<open>Shutdown\<close>

text \<open>A bound on the actions Run and its solves can still take before the callers act again.\<close>

definition run_measure :: "nat \<Rightarrow> ('w, 'i) run_state \<Rightarrow> nat" where
  "run_measure k s = (2 * k + 4) * length (rs_chan s) + size (rs_inflight s)
     + (case rs_phase s of Looping \<Rightarrow> 3 | Matching t n \<Rightarrow> 2 * (k - n) + 4 | Draining r \<Rightarrow> 1 | Returned r \<Rightarrow> 0)"

lemma own_step_measure:
  assumes "own_step ps s t"
  shows "run_measure (length ps) t < run_measure (length ps) s"
  using assms
proof cases
  case (recv tx rest)
  then show ?thesis by (cases tx) (simp_all add: run_measure_def after_recv_def)
next
  case (match t n)
  then show ?thesis using size_do_match [of ps t n s] by (simp add: run_measure_def)
next
  case (solve n i)
  then have "size (rs_inflight s - {#(n, i)#}) < size (rs_inflight s)" by (simp add: size_Diff1_less)
  then show ?thesis using solve by (simp add: run_measure_def)
qed (simp_all add: run_measure_def)

definition shut_down :: "('w, 'i) run_state \<Rightarrow> bool" where
  "shut_down s \<longleftrightarrow> rs_ctxErr s \<noteq> None \<or> rs_closed s"

definition returned :: "('w, 'i) run_state \<Rightarrow> bool" where
  "returned s = (case rs_phase s of Returned r \<Rightarrow> True | _ \<Rightarrow> False)"

lemma own_step_shut_down: "own_step ps s t \<Longrightarrow> shut_down s \<Longrightarrow> shut_down t"
  by (auto elim!: own_stepE simp: shut_down_def)

lemma progress:
  assumes "run_inv (length ps) s" and "shut_down s" and "\<not> returned s"
  shows "\<exists>t. own_step ps s t"
proof (cases "rs_phase s")
  case Looping
  show ?thesis
  proof (cases "rs_ctxErr s")
    case None
    with assms(2) have "rs_closed s" by (simp add: shut_down_def)
    with Looping show ?thesis by (cases "rs_chan s") (auto intro: own_step.intros)
  qed (auto intro: own_step.ctx_done [OF Looping])
next
  case (Matching t n)
  with assms(1) have "n \<le> length ps" by (simp add: run_inv_def calls_ok_def)
  then consider "n < length ps" | "n = length ps" by linarith
  then show ?thesis using own_step.match [OF Matching] own_step.matched [OF Matching]
    by cases blast+
next
  case (Draining r)
  show ?thesis
  proof (cases "rs_inflight s")
    case empty
    then show ?thesis using own_step.drained [OF Draining] by blast
  next
    case (add x M)
    then have "(fst x, snd x) \<in># rs_inflight s" by simp
    then show ?thesis by (blast intro: own_step.solve)
  qed
qed (use assms(3) in \<open>simp add: returned_def\<close>)

lemma run_terminates:
  assumes "run_inv (length ps) s" and "shut_down s"
  shows "\<exists>t. (own_step ps)\<^sup>*\<^sup>* s t \<and> returned t"
  using assms
proof (induction "run_measure (length ps) s" arbitrary: s rule: less_induct)
  case less
  show ?case
  proof (cases "returned s")
    case False
    then obtain u where u: "own_step ps s u" using progress less.prems by blast
    from less.hyps [OF own_step_measure [OF u] run_inv_own [OF less.prems(1) u]
        own_step_shut_down [OF u less.prems(2)]]
    show ?thesis using u by (meson converse_rtranclp_into_rtranclp)
  qed blast
qed

section \<open>The stream\<close>

definition decoded :: "('b \<Rightarrow> psbt result) \<Rightarrow> 'b stream_choice list \<Rightarrow> psbt list" where
  "decoded dec cs = List.map_filter (\<lambda>c. case c of
     ArkTx b _ \<Rightarrow> (case dec b of Inr pkt \<Rightarrow> Some pkt | Inl _ \<Rightarrow> None) | _ \<Rightarrow> None) cs"

definition ends :: "'b stream_choice \<Rightarrow> bool" where
  "ends c = (case c of CtxDone \<Rightarrow> True | StreamClosed \<Rightarrow> True | ArkTx b d \<Rightarrow> \<not> d | _ \<Rightarrow> False)"

lemma subscribe_loop_prefix: "\<exists>rest. decoded dec cs = subscribe_loop dec cs @ rest"
  by (induction dec cs rule: subscribe_loop.induct)
    (auto simp: decoded_def map_filter_simps split: sum.splits)

lemma subscribe_loop_complete:
  "list_all (\<lambda>c. \<not> ends c) cs \<Longrightarrow> subscribe_loop dec (cs @ [StreamClosed]) = decoded dec cs"
  by (induction dec cs rule: subscribe_loop.induct)
    (auto simp: decoded_def map_filter_simps ends_def split: sum.splits)

section \<open>A sample run\<close>

definition sample_solver_plugin :: "(nat, nat) solver_plugin" where
  "sample_solver_plugin = \<lparr>sp_Match = (\<lambda>tx w. (Inr (Some 7), w)), sp_Solve = (\<lambda>i w. (Inl (Panic ''boom''), w + i))\<rparr>"

definition panicking_plugin :: "(nat, nat) solver_plugin" where
  "panicking_plugin = \<lparr>sp_Match = (\<lambda>tx w. (Inl (Panic ''boom''), w)), sp_Solve = (\<lambda>i w. (Inr (), w))\<rparr>"

definition sample_pkt :: psbt where
  "sample_pkt = \<lparr>UnsignedTx = None, Unknowns = []\<rparr>"

definition sample_end :: "(nat, nat) run_state" where
  "sample_end = \<lparr>rs_phase = Returned None, rs_chan = [], rs_closed = True, rs_ctxErr = None,
     rs_inflight = {#}, rs_world = 7, rs_sent = [Some sample_pkt], rs_received = [Some sample_pkt],
     rs_calls = [(sample_pkt, 0), (sample_pkt, 1)], rs_started = [(1, 7)], rs_finished = [(1, 7)]\<rparr>"

lemma own_rtranclp: "own_step ps s t \<Longrightarrow> (run_step ps)\<^sup>*\<^sup>* t u \<Longrightarrow> (run_step ps)\<^sup>*\<^sup>* s u"
  and env_rtranclp: "env_step s t \<Longrightarrow> (run_step ps)\<^sup>*\<^sup>* t u \<Longrightarrow> (run_step ps)\<^sup>*\<^sup>* s u"
  by (auto simp: run_step_def intro: converse_rtranclp_into_rtranclp)

lemma sample_run: "(run_step [panicking_plugin, sample_solver_plugin])\<^sup>*\<^sup>* (run_start 0) sample_end"
  apply (rule env_rtranclp [OF env_step.send [of _ "Some sample_pkt"]], simp add: run_start_def)
  apply (rule env_rtranclp [OF env_step.close], simp add: run_start_def)
  apply (rule own_rtranclp [OF own_step.recv], simp add: run_start_def, simp add: run_start_def)
  apply (rule own_rtranclp [OF own_step.match], simp add: after_recv_def, simp)
  apply (rule own_rtranclp [OF own_step.match], simp, simp)
  apply (rule own_rtranclp [OF own_step.matched], simp, simp)
  apply (rule own_rtranclp [OF own_step.solve [of 1 7]])
   apply (simp add: do_match_def end_match_def safeMatch_def panicking_plugin_def sample_solver_plugin_def)
  apply (rule own_rtranclp [OF own_step.chan_closed], simp, simp, simp)
  apply (rule own_rtranclp [OF own_step.drained], simp)
   apply (simp add: do_match_def end_match_def safeMatch_def panicking_plugin_def sample_solver_plugin_def run_start_def)
  by (simp add: sample_end_def do_match_def end_match_def do_solve_def end_solve_def safeMatch_def safeSolve_def panicking_plugin_def
      sample_solver_plugin_def run_start_def)

section \<open>Properties\<close>

text \<open>C3. Run returns cleanly: when it has returned, in whatever order matches, solves, sends, closing
  and cancellation were interleaved and whichever plugins panicked, no solve is in flight, the solves
  that ran are exactly those of the matched intents, each once, and every transaction it received was
  offered to every plugin once, in order. It returned nil only with the channel closed and everything
  sent received, and an error only if that is the context's error.\<close>

theorem Run_returns_clean:
  assumes "(run_step ps)\<^sup>*\<^sup>* (run_start w) s" and "rs_phase s = Returned r"
  shows "rs_inflight s = {#} \<and> mset (rs_finished s) = mset (rs_started s)
    \<and> rs_calls s = all_calls (length ps) (rs_received s)
    \<and> (case r of None \<Rightarrow> rs_closed s \<and> rs_received s = rs_sent s | Some e \<Rightarrow> rs_ctxErr s = Some e)"
proof -
  have "run_inv (length ps) s" by (rule run.inv_reachable [OF _ assms(1)]) blast
  with assms(2) show ?thesis
    by (auto simp: run_inv_def phase_ok_def calls_ok_def split: option.splits)
qed

theorem Run_returns_clean_witness:
  "rs_inflight sample_end = {#} \<and> mset (rs_finished sample_end) = mset (rs_started sample_end)"
  using Run_returns_clean [OF sample_run, of None] by (simp add: sample_end_def)

text \<open>Run returns: once the context is canceled or the channel closed, if the callers do nothing
  more, no schedule is endless (every action lowers a bound) and none gets stuck before Run has
  returned, so a state in which it has returned is reached.\<close>

lemma Run_returns:
  assumes "(run_step ps)\<^sup>*\<^sup>* (run_start w) s" and "shut_down s"
  shows "(\<exists>t. (own_step ps)\<^sup>*\<^sup>* s t \<and> returned t)
    \<and> (\<forall>t. (own_step ps)\<^sup>*\<^sup>* s t \<and> \<not> returned t \<longrightarrow> (\<exists>u. own_step ps t u))
    \<and> (\<forall>t u. own_step ps t u \<longrightarrow> run_measure (length ps) u < run_measure (length ps) t)"
proof -
  have inv: "run_inv (length ps) s" by (rule run.inv_reachable [OF _ assms(1)]) blast
  have "run_inv (length ps) t \<and> shut_down t" if "(own_step ps)\<^sup>*\<^sup>* s t" for t
    using that by (induction rule: rtranclp_induct) (auto simp: inv assms(2) intro: run_inv_own own_step_shut_down)
  then show ?thesis
    using run_terminates [OF inv assms(2)] progress own_step_measure by blast
qed

lemma Run_returns_witness:
  "\<exists>t. (own_step [panicking_plugin])\<^sup>*\<^sup>* ((run_start 0)\<lparr>rs_closed := True\<rparr>) t \<and> returned t"
proof -
  have "(run_step [panicking_plugin])\<^sup>*\<^sup>* (run_start 0) ((run_start 0)\<lparr>rs_closed := True\<rparr>)"
    by (rule env_rtranclp [OF env_step.close]) (simp_all add: run_start_def)
  from Run_returns [OF this] show ?thesis by (simp add: shut_down_def)
qed

text \<open>C38. The consumer of the subscription gets, in order, a prefix of the transactions of the stream
  that decode, nothing when subscribing fails, and all of them when the stream closes without the
  context having been canceled; stream errors, events of other kinds and undecodable transactions are
  skipped.\<close>

theorem Subscribe_decoded:
  "(\<exists>rest. decoded dec cs = Subscribe None dec cs @ rest) \<and> Subscribe (Some e) dec cs = []
   \<and> (list_all (\<lambda>c. \<not> ends c) ds \<longrightarrow> Subscribe None dec (ds @ [StreamClosed]) = decoded dec ds)"
  by (simp add: Subscribe_def subscribe_loop_prefix subscribe_loop_complete)

theorem Subscribe_decoded_witness:
  "Subscribe None (\<lambda>b. if b then Inr sample_pkt else failR (ErrExt ''psbt'')) ([StreamErr Canceled, ArkTx False True,
     NoArkTx, ArkTx True True] @ [StreamClosed]) = [sample_pkt]"
proof -
  have "list_all (\<lambda>c. \<not> ends c) [StreamErr Canceled, ArkTx False True, NoArkTx, ArkTx True True]"
    by (simp add: ends_def)
  then show ?thesis
    using Subscribe_decoded [of "\<lambda>b. if b then Inr sample_pkt else failR (ErrExt ''psbt'')" _ _
        "[StreamErr Canceled, ArkTx False True, NoArkTx, ArkTx True True]"]
    by (auto simp: decoded_def map_filter_simps)
qed

end
