(* ===== verification/Repo.thy ===== *)
theory Repo
  imports Plugin
begin

text \<open>
  Persistence: the SQLite repositories of \<^verbatim>\<open>internal/infrastructure/db/sqlite\<close> (\<^verbatim>\<open>repo.go\<close>,
  \<^verbatim>\<open>trade_repo.go\<close>), the queries they use (\<^verbatim>\<open>sqlc/query.sql.go\<close>, \<^verbatim>\<open>sqlc/models.go\<close>, and the schema in
  \<^verbatim>\<open>migration\<close>), and the interfaces of \<^verbatim>\<open>internal/core/ports\<close>.

  A table is the list of its rows. A statement may fail in the engine: its first argument is that
  failure, and then the table is unchanged. A query without ORDER BY returns the rows in an order that
  SQL leaves open, the argument \<open>scan\<close>. INTEGER columns hold 64 bits, so amounts are words; Go's \<^verbatim>\<open>int\<close>
  and \<^verbatim>\<open>int64\<close> have the same range here, so decimals are carried over as they are.
\<close>

section \<open>Rows\<close>

record banco_pair_row =
  bp_pair :: string
  bp_min_amount :: i64
  bp_max_amount :: i64
  bp_base_decimals :: int
  bp_quote_decimals :: int
  bp_price_feed :: string
  bp_invert_price :: i64

record trade_row =
  tr_id :: int
  tr_pair :: string
  tr_deposit_asset :: string
  tr_deposit_amount :: i64
  tr_want_asset :: string
  tr_want_amount :: i64
  tr_offer_txid :: string
  tr_fulfill_txid :: string
  tr_created_at :: int

record db =
  db_pairs :: "banco_pair_row list"
  db_trades :: "trade_row list"
  db_last_id :: int

definition empty_db :: db where
  "empty_db = \<lparr>db_pairs = [], db_trades = [], db_last_id = 0\<rparr>"

section \<open>Queries\<close>

definition ErrUnique :: goerr where
  "ErrUnique = ErrExt ''UNIQUE constraint failed: banco_pair.pair''"

definition ErrFull :: goerr where
  "ErrFull = ErrExt ''database or disk is full''"

definition InsertPair :: "goerr option \<Rightarrow> banco_pair_row \<Rightarrow> db \<Rightarrow> unit result \<times> db" where
  "InsertPair fault r d = (case fault of
     Some e \<Rightarrow> (failR e, d)
   | None \<Rightarrow> if bp_pair r \<in> bp_pair ` set (db_pairs d) then (failR ErrUnique, d)
             else (Inr (), d\<lparr>db_pairs := db_pairs d @ [r]\<rparr>))"

definition UpdatePairQuery :: "goerr option \<Rightarrow> banco_pair_row \<Rightarrow> db \<Rightarrow> nat result \<times> db" where
  "UpdatePairQuery fault r d = (case fault of
     Some e \<Rightarrow> (failR e, d)
   | None \<Rightarrow> (Inr (length (filter (\<lambda>x. bp_pair x = bp_pair r) (db_pairs d))),
              d\<lparr>db_pairs := map (\<lambda>x. if bp_pair x = bp_pair r then r else x) (db_pairs d)\<rparr>))"

definition DeletePair :: "goerr option \<Rightarrow> string \<Rightarrow> db \<Rightarrow> unit result \<times> db" where
  "DeletePair fault n d = (case fault of
     Some e \<Rightarrow> (failR e, d)
   | None \<Rightarrow> (Inr (), d\<lparr>db_pairs := filter (\<lambda>x. bp_pair x \<noteq> n) (db_pairs d)\<rparr>))"

definition ListPairsQuery :: "goerr option \<Rightarrow> (banco_pair_row list \<Rightarrow> banco_pair_row list) \<Rightarrow> db \<Rightarrow>
    banco_pair_row list result" where
  "ListPairsQuery fault scan d = (case fault of Some e \<Rightarrow> failR e | None \<Rightarrow> Inr (scan (db_pairs d)))"

text \<open>AUTOINCREMENT: an identifier larger than any used before, up to the largest 64-bit integer.\<close>

definition InsertTrade :: "goerr option \<Rightarrow> trade_row \<Rightarrow> db \<Rightarrow> unit result \<times> db" where
  "InsertTrade fault r d = (case fault of
     Some e \<Rightarrow> (failR e, d)
   | None \<Rightarrow> if db_last_id d \<ge> 2 ^ 63 - 1 then (failR ErrFull, d)
             else (Inr (), d\<lparr>db_trades := db_trades d @ [r\<lparr>tr_id := db_last_id d + 1\<rparr>],
                             db_last_id := db_last_id d + 1\<rparr>))"

text \<open>ORDER BY created_at DESC, id DESC: the order in which a row comes first.\<close>

datatype recency = Recency (rc_time: int) (rc_id: int)

instantiation recency :: linorder
begin

definition less_eq_recency :: "recency \<Rightarrow> recency \<Rightarrow> bool" where
  "less_eq_recency a b \<longleftrightarrow> rc_time a > rc_time b \<or> (rc_time a = rc_time b \<and> rc_id a \<ge> rc_id b)"

definition less_recency :: "recency \<Rightarrow> recency \<Rightarrow> bool" where
  "less_recency a b \<longleftrightarrow> rc_time a > rc_time b \<or> (rc_time a = rc_time b \<and> rc_id a > rc_id b)"

instance
  by standard (auto simp: less_eq_recency_def less_recency_def recency.expand)

end

definition recency_of :: "trade_row \<Rightarrow> recency" where
  "recency_of r = Recency (tr_created_at r) (tr_id r)"

definition ListTradesQuery :: "goerr option \<Rightarrow> int \<Rightarrow> db \<Rightarrow> trade_row list result" where
  "ListTradesQuery fault limit d = (case fault of
     Some e \<Rightarrow> failR e
   | None \<Rightarrow> Inr (if limit < 0 then sort_key recency_of (db_trades d)
                  else take (nat limit) (sort_key recency_of (db_trades d))))"

section \<open>The pair repository\<close>

definition boolToInt :: "bool \<Rightarrow> i64" where
  "boolToInt b = (if b then 1 else 0)"

definition pairParams :: "pair \<Rightarrow> banco_pair_row" where
  "pairParams p = \<lparr>bp_pair = Pair p, bp_min_amount = MinAmount p, bp_max_amount = MaxAmount p,
     bp_base_decimals = BaseDecimals p, bp_quote_decimals = QuoteDecimals p,
     bp_price_feed = PriceFeed p, bp_invert_price = boolToInt (InvertPrice p)\<rparr>"

definition toDomainPair :: "banco_pair_row \<Rightarrow> pair" where
  "toDomainPair r = \<lparr>Pair = bp_pair r, MinAmount = bp_min_amount r, MaxAmount = bp_max_amount r,
     BaseDecimals = bp_base_decimals r, QuoteDecimals = bp_quote_decimals r,
     PriceFeed = bp_price_feed r, InvertPrice = (bp_invert_price r \<noteq> 0)\<rparr>"

definition pairs_List :: "goerr option \<Rightarrow> (banco_pair_row list \<Rightarrow> banco_pair_row list) \<Rightarrow> db \<Rightarrow>
    pair list result" where
  "pairs_List fault scan d = bindR (ListPairsQuery fault scan d) (\<lambda>rows. Inr (map toDomainPair rows))"

definition pairs_Add :: "goerr option \<Rightarrow> pair \<Rightarrow> db \<Rightarrow> unit result \<times> db" where
  "pairs_Add fault p d = InsertPair fault (pairParams p) d"

definition pairs_Update :: "goerr option \<Rightarrow> pair \<Rightarrow> db \<Rightarrow> unit result \<times> db" where
  "pairs_Update fault p d = (case UpdatePairQuery fault (pairParams p) d of
     (Inl e, d') \<Rightarrow> (Inl e, d')
   | (Inr rows, d') \<Rightarrow> if rows = 0 then (failR ErrPairNotFound, d') else (Inr (), d'))"

definition pairs_Remove :: "goerr option \<Rightarrow> string \<Rightarrow> db \<Rightarrow> unit result \<times> db" where
  "pairs_Remove fault n d = DeletePair fault n d"

section \<open>The trade repository\<close>

record trade =
  t_ID :: int
  t_Pair :: string
  t_DepositAsset :: string
  t_DepositAmount :: u64
  t_WantAsset :: string
  t_WantAmount :: u64
  t_OfferTxid :: string
  t_FulfillTxid :: string
  t_CreatedAt :: int

text \<open>A time is in nanoseconds since the epoch; \<^verbatim>\<open>Unix\<close> drops what is below a second.\<close>

definition Unix :: "int \<Rightarrow> int" where
  "Unix t = t div 1000000000"

definition tradeParams :: "trade \<Rightarrow> trade_row" where
  "tradeParams t = \<lparr>tr_id = 0, tr_pair = t_Pair t, tr_deposit_asset = t_DepositAsset t,
     tr_deposit_amount = t_DepositAmount t, tr_want_asset = t_WantAsset t,
     tr_want_amount = t_WantAmount t, tr_offer_txid = t_OfferTxid t,
     tr_fulfill_txid = t_FulfillTxid t, tr_created_at = Unix (t_CreatedAt t)\<rparr>"

definition toTrade :: "trade_row \<Rightarrow> trade" where
  "toTrade r = \<lparr>t_ID = tr_id r, t_Pair = tr_pair r, t_DepositAsset = tr_deposit_asset r,
     t_DepositAmount = tr_deposit_amount r, t_WantAsset = tr_want_asset r,
     t_WantAmount = tr_want_amount r, t_OfferTxid = tr_offer_txid r,
     t_FulfillTxid = tr_fulfill_txid r, t_CreatedAt = tr_created_at r * 1000000000\<rparr>"

definition trades_Add :: "goerr option \<Rightarrow> trade \<Rightarrow> db \<Rightarrow> unit result \<times> db" where
  "trades_Add fault t d = InsertTrade fault (tradeParams t) d"

definition trades_List :: "goerr option \<Rightarrow> int \<Rightarrow> db \<Rightarrow> trade list result" where
  "trades_List fault limit d =
     bindR (ListTradesQuery fault (if limit \<le> 0 then 100 else limit) d) (\<lambda>rows. Inr (map toTrade rows))"

section \<open>The contract of a pair repository\<close>

text \<open>What the interface \<^verbatim>\<open>ports.PairRepository\<close> promises, over the map from names to pairs that a
  repository stands for: the errors and the effect of every operation, also when the store fails.\<close>

type_synonym pair_map = "string \<Rightarrow> pair option"

definition spec_Add :: "goerr option \<Rightarrow> pair \<Rightarrow> pair_map \<Rightarrow> unit result \<times> pair_map" where
  "spec_Add fault p m = (case fault of Some e \<Rightarrow> (failR e, m) | None \<Rightarrow>
     if m (Pair p) = None then (Inr (), m(Pair p := Some p)) else (failR ErrUnique, m))"

definition spec_Update :: "goerr option \<Rightarrow> pair \<Rightarrow> pair_map \<Rightarrow> unit result \<times> pair_map" where
  "spec_Update fault p m = (case fault of Some e \<Rightarrow> (failR e, m) | None \<Rightarrow>
     if m (Pair p) = None then (failR ErrPairNotFound, m) else (Inr (), m(Pair p := Some p)))"

definition spec_Remove :: "goerr option \<Rightarrow> string \<Rightarrow> pair_map \<Rightarrow> unit result \<times> pair_map" where
  "spec_Remove fault n m = (case fault of Some e \<Rightarrow> (failR e, m) | None \<Rightarrow> (Inr (), m(n := None)))"

lemmas spec_defs = spec_Add_def spec_Update_def spec_Remove_def

text \<open>A sequence of operations, each with the failure of the store it meets.\<close>

datatype pair_op = OpAdd pair | OpUpdate pair | OpRemove string

fun run_ops :: "(goerr option \<Rightarrow> pair \<Rightarrow> 'd \<Rightarrow> unit result \<times> 'd) \<Rightarrow> (goerr option \<Rightarrow> pair \<Rightarrow> 'd \<Rightarrow> unit result \<times> 'd) \<Rightarrow>
    (goerr option \<Rightarrow> string \<Rightarrow> 'd \<Rightarrow> unit result \<times> 'd) \<Rightarrow> (goerr option \<times> pair_op) list \<Rightarrow> 'd \<Rightarrow>
    unit result list \<times> 'd" where
  "run_ops A U R [] d = ([], d)"
| "run_ops A U R ((f, OpAdd p) # ops) d = (case A f p d of (r, d') \<Rightarrow> apfst ((#) r) (run_ops A U R ops d'))"
| "run_ops A U R ((f, OpUpdate p) # ops) d = (case U f p d of (r, d') \<Rightarrow> apfst ((#) r) (run_ops A U R ops d'))"
| "run_ops A U R ((f, OpRemove n) # ops) d = (case R f n d of (r, d') \<Rightarrow> apfst ((#) r) (run_ops A U R ops d'))"

lemma spec_ran:
  "spec_Add f p m = (r, m') \<Longrightarrow> ran m' \<subseteq> insert p (ran m)"
  "spec_Update f p m = (r, m') \<Longrightarrow> ran m' \<subseteq> insert p (ran m)"
  "spec_Remove f n m = (r, m') \<Longrightarrow> ran m' \<subseteq> ran m"
  by (auto simp: spec_defs ran_def split: option.splits if_splits)

locale pair_repository =
  fixes Add Update :: "goerr option \<Rightarrow> pair \<Rightarrow> 'd \<Rightarrow> unit result \<times> 'd"
    and Remove :: "goerr option \<Rightarrow> string \<Rightarrow> 'd \<Rightarrow> unit result \<times> 'd"
    and view :: "'d \<Rightarrow> pair_map"
    and invar :: "'d \<Rightarrow> bool"
  assumes Add_refines: "invar d \<Longrightarrow> Add f p d = (r, d') \<Longrightarrow> invar d' \<and> spec_Add f p (view d) = (r, view d')"
    and Update_refines: "invar d \<Longrightarrow> Update f p d = (r, d') \<Longrightarrow> invar d' \<and> spec_Update f p (view d) = (r, view d')"
    and Remove_refines: "invar d \<Longrightarrow> Remove f n d = (r, d') \<Longrightarrow> invar d' \<and> spec_Remove f n (view d) = (r, view d')"
begin

lemmas refines = Add_refines Update_refines Remove_refines

lemma run_refines:
  "invar d \<Longrightarrow> run_ops Add Update Remove ops d = (rs, d') \<Longrightarrow>
   invar d' \<and> run_ops spec_Add spec_Update spec_Remove ops (view d) = (rs, view d')"
proof (induction ops arbitrary: d rs)
  case (Cons x ops)
  obtain f op where x: "x = (f, op)" by (cases x)
  obtain r e where r: "(case op of OpAdd p \<Rightarrow> Add f p d | OpUpdate p \<Rightarrow> Update f p d | OpRemove n \<Rightarrow> Remove f n d) = (r, e)"
    by (cases "case op of OpAdd p \<Rightarrow> Add f p d | OpUpdate p \<Rightarrow> Update f p d | OpRemove n \<Rightarrow> Remove f n d")
  with Cons.prems(2) x obtain rs' where rs: "run_ops Add Update Remove ops e = (rs', d')" "rs = r # rs'"
    by (cases op; cases "run_ops Add Update Remove ops e") simp_all
  show ?case
    using r x rs(2) Cons.IH [OF _ rs(1)] refines [OF Cons.prems(1)] by (cases op) fastforce+
qed simp

text \<open>What holds of every pair handed to the repository holds of every pair in it.\<close>

lemma ran_ops:
  assumes "invar d" and "ran (view d) \<subseteq> S"
  shows "p \<in> S \<Longrightarrow> Add f p d = (r, d') \<Longrightarrow> ran (view d') \<subseteq> S"
    and "p \<in> S \<Longrightarrow> Update f p d = (r, d') \<Longrightarrow> ran (view d') \<subseteq> S"
    and "Remove f n d = (r, d') \<Longrightarrow> ran (view d') \<subseteq> S"
  by (metis Add_refines [OF assms(1)] assms(2) spec_ran(1) insert_subset order_trans, metis Update_refines [OF assms(1)] assms(2) spec_ran(2) insert_subset order_trans, metis Remove_refines [OF assms(1)] assms(2) spec_ran(3) order_trans)

end

subsection \<open>The SQLite repository keeps it\<close>

definition pairs_inv :: "db \<Rightarrow> bool" where
  "pairs_inv d \<longleftrightarrow> distinct (map bp_pair (db_pairs d))"

definition pairs_view :: "db \<Rightarrow> pair_map" where
  "pairs_view d = map_of (map (\<lambda>r. (bp_pair r, toDomainPair r)) (db_pairs d))"

lemma toDomainPair_pairParams [simp]: "toDomainPair (pairParams p) = p"
  by (simp add: toDomainPair_def pairParams_def boolToInt_def)

lemma bp_pair_pairParams [simp]: "bp_pair (pairParams p) = Pair p"
  by (simp add: pairParams_def)

lemma pairs_view_None: "pairs_view d n = None \<longleftrightarrow> n \<notin> bp_pair ` set (db_pairs d)"
  by (auto simp: pairs_view_def map_of_eq_None_iff image_iff)

lemma map_of_updated:
  "map_of (map (\<lambda>r. (bp_pair r, toDomainPair r)) (map (\<lambda>x. if bp_pair x = bp_pair y then y else x) rs)) =
   (if bp_pair y \<in> bp_pair ` set rs
    then (map_of (map (\<lambda>r. (bp_pair r, toDomainPair r)) rs))(bp_pair y := Some (toDomainPair y))
    else map_of (map (\<lambda>r. (bp_pair r, toDomainPair r)) rs))"
  by (induction rs) (auto simp: fun_eq_iff)

lemma map_of_deleted:
  "map_of (map (\<lambda>r. (bp_pair r, toDomainPair r)) (filter (\<lambda>x. bp_pair x \<noteq> n) rs)) =
   (map_of (map (\<lambda>r. (bp_pair r, toDomainPair r)) rs))(n := None)"
  by (induction rs) (auto simp: fun_eq_iff)

lemma map_of_snoc: "map_of xs k = None \<Longrightarrow> map_of (xs @ [(k, v)]) = (map_of xs)(k := Some v)"
  by (rule ext) (simp add: map_add_def split: option.splits)

lemma distinct_updated:
  "distinct (map bp_pair (map (\<lambda>x. if bp_pair x = bp_pair y then y else x) rs)) = distinct (map bp_pair rs)"
proof -
  have "map bp_pair (map (\<lambda>x. if bp_pair x = bp_pair y then y else x) rs) = map bp_pair rs" by simp
  then show ?thesis by (simp only:)
qed

lemma no_row_named: "filter (\<lambda>x. bp_pair x = n) rs = [] \<longleftrightarrow> n \<notin> bp_pair ` set rs"
  by (auto simp: filter_empty_conv)

interpretation sqlite: pair_repository pairs_Add pairs_Update pairs_Remove pairs_view pairs_inv
proof
  fix d d' f p r n
  assume inv: "pairs_inv d"
  show "pairs_inv d' \<and> spec_Add f p (pairs_view d) = (r, pairs_view d')" if "pairs_Add f p d = (r, d')"
    using that inv map_of_snoc [of "map (\<lambda>r. (bp_pair r, toDomainPair r)) (db_pairs d)" "Pair p" p]
      pairs_view_None [of d "Pair p"]
    by (auto simp: pairs_Add_def InsertPair_def spec_Add_def pairs_inv_def pairs_view_def
        split: option.splits if_splits)
  show "pairs_inv d' \<and> spec_Update f p (pairs_view d) = (r, pairs_view d')" if "pairs_Update f p d = (r, d')"
    using that inv pairs_view_None [of d "Pair p"] map_of_updated [of "pairParams p" "db_pairs d"]
      distinct_updated [of "pairParams p" "db_pairs d"]
    by (auto simp: pairs_Update_def UpdatePairQuery_def spec_Update_def pairs_inv_def pairs_view_def
        no_row_named split: option.splits if_splits)
  show "pairs_inv d' \<and> spec_Remove f n (pairs_view d) = (r, pairs_view d')" if "pairs_Remove f n d = (r, d')"
    using that inv
    by (auto simp: pairs_Remove_def DeletePair_def spec_Remove_def pairs_inv_def pairs_view_def
        map_of_deleted distinct_map_filter split: option.splits)
qed

lemma pairs_inv_empty: "pairs_inv empty_db" and pairs_view_empty: "pairs_view empty_db = (\<lambda>n. None)"
  by (simp_all add: pairs_inv_def pairs_view_def empty_db_def fun_eq_iff)

text \<open>\<open>scan\<close> returns the rows of a table in some order.\<close>

definition reorders :: "('r list \<Rightarrow> 'r list) \<Rightarrow> bool" where
  "reorders scan \<longleftrightarrow> (\<forall>rs. mset (scan rs) = mset rs)"

lemma pairs_List_view:
  assumes "reorders scan" and "pairs_inv d" and "pairs_List None scan d = Inr ps"
  shows "distinct (map Pair ps)" and "set ps = ran (pairs_view d)"
proof -
  have m: "mset (scan (db_pairs d)) = mset (db_pairs d)" using assms(1) by (simp add: reorders_def)
  have ps: "ps = map toDomainPair (scan (db_pairs d))"
    using assms(3) by (simp add: pairs_List_def ListPairsQuery_def)
  have "mset (map bp_pair (scan (db_pairs d))) = mset (map bp_pair (db_pairs d))" using m by simp
  then have "distinct (map bp_pair (scan (db_pairs d)))"
    using assms(2) by (metis pairs_inv_def mset_eq_imp_distinct_iff)
  then show "distinct (map Pair ps)" by (simp add: ps toDomainPair_def comp_def)
  have "ran (pairs_view d) = toDomainPair ` set (db_pairs d)"
    using assms(2) unfolding pairs_view_def pairs_inv_def
    by (subst ran_distinct) (auto simp: comp_def image_image)
  then show "set ps = ran (pairs_view d)" using mset_eq_setD [OF m] by (simp add: ps)
qed

section \<open>The trades that were stored\<close>

definition trade_order :: "trade \<Rightarrow> trade \<Rightarrow> bool" where
  "trade_order a b \<longleftrightarrow> t_CreatedAt a > t_CreatedAt b \<or> (t_CreatedAt a = t_CreatedAt b \<and> t_ID a > t_ID b)"

text \<open>A trade as it is read back: numbered, and with its time cut to the second.\<close>

definition stored :: "trade \<Rightarrow> int \<Rightarrow> trade" where
  "stored t i = t\<lparr>t_ID := i, t_CreatedAt := Unix (t_CreatedAt t) * 1000000000\<rparr>"

fun add_trades :: "(goerr option \<times> trade) list \<Rightarrow> db \<Rightarrow> db" where
  "add_trades [] d = d"
| "add_trades ((f, t) # ts) d = add_trades ts (snd (trades_Add f t d))"

definition accepted :: "(goerr option \<times> trade) list \<Rightarrow> trade list" where
  "accepted adds = map snd (filter (\<lambda>a. fst a = None) adds)"

lemma toTrade_tradeParams: "toTrade ((tradeParams t)\<lparr>tr_id := i\<rparr>) = stored t i"
  by (simp add: toTrade_def tradeParams_def stored_def)

lemma add_trades_stored:
  assumes "db_last_id d + int (length adds) < 2 ^ 63"
  shows "map toTrade (db_trades (add_trades adds d)) = map toTrade (db_trades d)
    @ map2 stored (accepted adds) [db_last_id d + 1..db_last_id d + int (length (accepted adds))]"
  using assms
proof (induction adds d rule: add_trades.induct)
  case (2 f t ts d)
  show ?case
  proof (cases f)
    case None
    let ?d = "snd (trades_Add f t d)"
    have d: "db_trades ?d = db_trades d @ [(tradeParams t)\<lparr>tr_id := db_last_id d + 1\<rparr>]"
      "db_last_id ?d = db_last_id d + 1"
      using None 2(2) by (simp_all add: trades_Add_def InsertTrade_def)
    have "[db_last_id d + 1..db_last_id d + (1 + int (length (accepted ts)))] =
        (db_last_id d + 1) # [db_last_id d + 2..db_last_id d + (1 + int (length (accepted ts)))]"
      by (subst upto_rec1) (simp_all add: add.commute)
    with 2 d None show ?thesis by (simp add: accepted_def toTrade_tradeParams algebra_simps)
  next
    case (Some e)
    with 2 show ?thesis by (simp add: accepted_def trades_Add_def InsertTrade_def)
  qed
qed (simp add: accepted_def)

lemma recency_trade_order:
  "recency_of a \<le> recency_of b \<Longrightarrow> tr_id a \<noteq> tr_id b \<Longrightarrow> trade_order (toTrade a) (toTrade b)"
  by (auto simp: less_eq_recency_def recency_of_def trade_order_def toTrade_def)

lemma sorted_trades:
  assumes "distinct (map tr_id rs)"
  shows "sorted_wrt trade_order (map toTrade (sort_key recency_of rs))"
proof -
  have "sorted_wrt (\<lambda>a b. recency_of a \<le> recency_of b) (sort_key recency_of rs)"
    using sorted_sort_key [of recency_of rs] by (simp add: sorted_map)
  moreover have "distinct (map tr_id (sort_key recency_of rs))"
    using assms by (metis mset_eq_imp_distinct_iff mset_map mset_sort)
  then have "sorted_wrt (\<lambda>a b. tr_id a \<noteq> tr_id b) (sort_key recency_of rs)"
    by (simp add: distinct_map distinct_conv_nth sorted_wrt_iff_nth_less)
  ultimately have "sorted_wrt (\<lambda>a b. trade_order (toTrade a) (toTrade b)) (sort_key recency_of rs)"
    unfolding sorted_wrt_iff_nth_less using recency_trade_order by blast
  then show ?thesis by (simp add: sorted_wrt_map)
qed

lemma trades_List_eq:
  "trades_List None limit d = Inr (take (nat (if limit \<le> 0 then 100 else limit))
     (map toTrade (sort_key recency_of (db_trades d))))"
  by (simp add: trades_List_def ListTradesQuery_def take_map)

lemma stored_ids: "map t_ID (map2 stored ts [1..int (length ts)]) = [1..int (length ts)]"
proof -
  have "map t_ID (map2 stored ts is) = map snd (zip ts is)" for "is"
    by (simp add: stored_def split_def)
  then have "map t_ID (map2 stored ts [1..int (length ts)]) = map snd (zip ts [1..int (length ts)])" .
  then show ?thesis by (simp add: map_snd_zip del: map_map)
qed

section \<open>Samples\<close>

definition sample_trade :: "int \<Rightarrow> trade" where
  "sample_trade t = \<lparr>t_ID = 0, t_Pair = ''a/b'', t_DepositAsset = ''a'', t_DepositAmount = 50, t_WantAsset = ''b'',
     t_WantAmount = 1000, t_OfferTxid = ''x'', t_FulfillTxid = ''y'', t_CreatedAt = t\<rparr>"

definition sample_ops :: "(goerr option \<times> pair_op) list" where
  "sample_ops = [(None, OpUpdate sample_pair), (None, OpAdd sample_pair),
     (None, OpAdd (sample_pair\<lparr>MinAmount := 1\<rparr>)), (None, OpUpdate (sample_pair\<lparr>MinAmount := 2\<rparr>))]"

section \<open>Properties\<close>

text \<open>C16. The pair repository refines a map from names to pairs: after any sequence of additions,
  updates and removals on a fresh database, with the engine failing anywhere, the results are those of
  the map, errors included (an addition of a name in use and an update of an unknown name are refused
  and change nothing), and listing returns the pairs of the map, each name once, in whatever order the
  rows are scanned.\<close>

theorem pairs_refine_map:
  assumes "reorders scan" and "run_ops pairs_Add pairs_Update pairs_Remove ops empty_db = (rs, d)"
  shows "\<exists>m ps. run_ops spec_Add spec_Update spec_Remove ops (\<lambda>n. None) = (rs, m)
    \<and> pairs_List None scan d = Inr ps \<and> distinct (map Pair ps) \<and> set ps = ran m"
proof -
  have *: "pairs_inv d" "run_ops spec_Add spec_Update spec_Remove ops (\<lambda>n. None) = (rs, pairs_view d)"
    using sqlite.run_refines [OF pairs_inv_empty assms(2)] by (simp_all add: pairs_view_empty)
  obtain ps where "pairs_List None scan d = Inr ps" by (simp add: pairs_List_def ListPairsQuery_def)
  with pairs_List_view [OF assms(1) *(1) this] *(2) show ?thesis by blast
qed

theorem pairs_refine_map_witness:
  "\<exists>m. run_ops spec_Add spec_Update spec_Remove sample_ops (\<lambda>n. None) =
     ([failR ErrPairNotFound, Inr (), failR ErrUnique, Inr ()], m)
   \<and> ran m = {sample_pair\<lparr>MinAmount := 2\<rparr>}"
proof -
  have run: "run_ops pairs_Add pairs_Update pairs_Remove sample_ops empty_db =
    ([failR ErrPairNotFound, Inr (), failR ErrUnique, Inr ()],
     empty_db\<lparr>db_pairs := [pairParams (sample_pair\<lparr>MinAmount := 2\<rparr>)]\<rparr>)"
    by (simp add: sample_ops_def pairs_Add_def pairs_Update_def InsertPair_def UpdatePairQuery_def
        empty_db_def)
  have "reorders rev" by (simp add: reorders_def)
  from pairs_refine_map [OF this run] show ?thesis
    by (auto simp: pairs_List_def ListPairsQuery_def)
qed

text \<open>C30. The trade repository returns the newest trades: after any sequence of additions on a fresh
  database, a listing with a limit (100 if it is not positive) returns that many of the trades that
  were accepted, or all if there are fewer, with identifiers in the order of addition and times cut to
  the second, newest first and then by identifier; every trade it leaves out is older than all it
  returns. Failed additions leave no trace.\<close>

theorem trades_List_newest:
  assumes "int (length adds) < 2 ^ 63"
  shows "\<exists>out rest. trades_List None limit (add_trades adds empty_db) = Inr out
    \<and> length out = min (nat (if limit \<le> 0 then 100 else limit)) (length (accepted adds))
    \<and> sorted_wrt trade_order (out @ rest)
    \<and> mset (out @ rest) = mset (map2 stored (accepted adds) [1..int (length (accepted adds))])"
proof -
  let ?rows = "db_trades (add_trades adds empty_db)" and ?n = "nat (if limit \<le> 0 then 100 else limit)"
  let ?all = "map toTrade (sort_key recency_of ?rows)"
  have rows: "map toTrade ?rows = map2 stored (accepted adds) [1..int (length (accepted adds))]"
    using add_trades_stored [of empty_db adds] assms by (simp add: empty_db_def)
  have "map tr_id ?rows = map t_ID (map toTrade ?rows)" by (simp add: toTrade_def)
  then have "distinct (map tr_id ?rows)" by (simp only: rows stored_ids distinct_upto)
  then have "sorted_wrt trade_order ?all" by (rule sorted_trades)
  moreover have "mset ?all = mset (map toTrade ?rows)" by simp
  moreover have "length ?rows = length (accepted adds)"
    using arg_cong [OF rows, of length] by simp
  ultimately show ?thesis
    by (intro exI [of _ "take ?n ?all"] exI [of _ "drop ?n ?all"])
      (simp add: trades_List_eq rows min.commute)
qed

theorem trades_List_newest_witness:
  "\<exists>out rest. trades_List None 1 (add_trades [(None, sample_trade 1500000000),
       (Some Canceled, sample_trade 9000000000), (None, sample_trade 1900000000)] empty_db) = Inr out
     \<and> length out = 1 \<and> sorted_wrt trade_order (out @ rest)
     \<and> mset (out @ rest) = {#(sample_trade 1000000000)\<lparr>t_ID := 1\<rparr>, (sample_trade 1000000000)\<lparr>t_ID := 2\<rparr>#}"
proof -
  have "[1..2::int] = [1, 2]" by (simp add: upto.simps)
  then show ?thesis
    using trades_List_newest [of "[(None, sample_trade 1500000000), (Some Canceled, sample_trade 9000000000),
        (None, sample_trade 1900000000)]" 1]
    by (simp add: accepted_def stored_def sample_trade_def Unix_def)
qed

end
