(* ===== verification/Service.thy ===== *)
theory Service
  imports Repo
begin

text \<open>
  The application service: \<^verbatim>\<open>internal/core/application/service.go\<close> and
  \<^verbatim>\<open>internal/core/application/trade_listener.go\<close>.

  The service acts on the database and on the world outside, \<open>'w\<close>: the ark client, the indexer, and the
  database engine, of which \<open>svc_fault\<close> tells how the next statement fails, if it does, and \<open>svc_scan\<close>
  in which order it reads the rows of a table. An indexer or a trade repository may be missing (nil).
  The run loop the service owns is a state machine of its own, at the end of the theory.
\<close>

section \<open>The service and its world\<close>

record 'w svc_world =
  sw_out :: 'w
  sw_db :: db

record ark_balance =
  SpendableAmount :: u64
  LockedAmount :: "u64 list"
  OffchainBalance_Total :: u64

record 'w service_env =
  svc_GetAsset :: "(string \<Rightarrow> ('w, (string \<times> string) list option) io) option"
  svc_Balance :: "('w, ark_balance) io"
  svc_NewOffchainAddress :: "('w, string) io"
  svc_NewBoardingAddress :: "('w, string) io"
  svc_tradeRepo :: bool
  svc_fault :: "'w \<Rightarrow> goerr option \<times> 'w"
  svc_scan :: "'w \<Rightarrow> banco_pair_row list \<Rightarrow> banco_pair_row list"

definition outI :: "('w, 'a) io \<Rightarrow> ('w svc_world, 'a) io" where
  "outI m = (\<lambda>w. case m (sw_out w) of (r, u) \<Rightarrow> (r, w\<lparr>sw_out := u\<rparr>))"

definition repoI :: "'w service_env \<Rightarrow> (goerr option \<Rightarrow> db \<Rightarrow> 'a result \<times> db) \<Rightarrow> ('w svc_world, 'a) io" where
  "repoI S f = (\<lambda>w. case svc_fault S (sw_out w) of (fault, u) \<Rightarrow>
     (case f fault (sw_db w) of (r, d) \<Rightarrow> (r, w\<lparr>sw_out := u, sw_db := d\<rparr>)))"

definition wrapArgs :: "string \<Rightarrow> goarg list \<Rightarrow> 'a result \<Rightarrow> 'a result" where
  "wrapArgs msg as m = (case m of Inl (Error e) \<Rightarrow> failR (ErrWrap msg as e) | _ \<Rightarrow> m)"

section \<open>Decimals and validation\<close>

definition btcDecimals :: int where
  "btcDecimals = 8"

definition splitPair :: "string \<Rightarrow> (string \<times> string) option" where
  "splitPair name = (case SplitN2 CHR ''/'' name of
     [a, b] \<Rightarrow> if a = [] \<or> b = [] then None else Some (a, b) | _ \<Rightarrow> None)"

definition ErrPairFormat :: goerr where
  "ErrPairFormat = ErrNew (''pair must be in format '' @ CHR 0x27 # ''base/quote'' @ [CHR 0x27])"

text \<open>The loop over the metadata: the first entry with the key \<^verbatim>\<open>decimals\<close> decides.\<close>

fun metadataDecimals :: "string \<Rightarrow> (string \<times> string) list \<Rightarrow> int result" where
  "metadataDecimals assetID [] = failR (ErrFmt ''asset %s: no decimals metadata'' [ArgStr assetID])"
| "metadataDecimals assetID ((key, val) # mds) =
     (if key \<noteq> ''decimals'' then metadataDecimals assetID mds
      else case Atoi val of
        Inl _ \<Rightarrow> failR (ErrFmt ''asset %s: invalid decimals metadata %q'' [ArgStr assetID, ArgStr val])
      | Inr n \<Rightarrow> if n < 0 then failR (ErrFmt ''asset %s: negative decimals %d'' [ArgStr assetID, ArgInt n])
                else Inr n)"

definition assetDecimals :: "'w service_env \<Rightarrow> string \<Rightarrow> ('w, int) io" where
  "assetDecimals S assetID =
     (if assetID = ''BTC'' then retI btcDecimals
      else case svc_GetAsset S of
        None \<Rightarrow> liftI (failR (ErrNew ''indexer not configured''))
      | Some GetAsset \<Rightarrow>
          bindI (\<lambda>w. apfst (wrapArgs ''asset %s'' [ArgStr assetID]) (GetAsset assetID w)) (\<lambda>info. case info of
            None \<Rightarrow> liftI (failR (ErrFmt ''asset %s: not found'' [ArgStr assetID]))
          | Some md \<Rightarrow> liftI (metadataDecimals assetID md)))"

definition resolveDecimals :: "'w service_env \<Rightarrow> pair \<Rightarrow> ('w, pair) io" where
  "resolveDecimals S p = (case splitPair (Pair p) of
     None \<Rightarrow> liftI (failR ErrPairFormat)
   | Some (base, quote) \<Rightarrow>
       bindI (wrapI ''resolve base decimals'' (assetDecimals S base)) (\<lambda>baseDec.
       bindI (wrapI ''resolve quote decimals'' (assetDecimals S quote)) (\<lambda>quoteDec.
         retI (p\<lparr>BaseDecimals := baseDec, QuoteDecimals := quoteDec\<rparr>))))"

definition validatePair :: "pair \<Rightarrow> unit result" where
  "validatePair p =
     (if Pair p = [] then failR (ErrNew ''pair name is required'')
      else if splitPair (Pair p) = None then failR ErrPairFormat
      else if MinAmount p = 0 then failR (ErrNew ''min_amount must be greater than 0'')
      else if MaxAmount p = 0 then failR (ErrNew ''max_amount must be greater than 0'')
      else if MinAmount p > MaxAmount p
        then failR (ErrNew ''min_amount must be less than or equal to max_amount'')
      else if PriceFeed p = [] then failR (ErrNew ''price_feed is required'')
      else Inr ())"

section \<open>Operations\<close>

definition AddPair :: "'w service_env \<Rightarrow> pair \<Rightarrow> ('w svc_world, unit) io" where
  "AddPair S p = bindI (outI (resolveDecimals S p)) (\<lambda>resolved.
     bindI (wrapI ''invalid pair'' (liftI (validatePair resolved))) (\<lambda>_.
       repoI S (\<lambda>fault. pairs_Add fault resolved)))"

definition UpdatePair :: "'w service_env \<Rightarrow> pair \<Rightarrow> ('w svc_world, unit) io" where
  "UpdatePair S p = bindI (outI (resolveDecimals S p)) (\<lambda>resolved.
     bindI (wrapI ''invalid pair'' (liftI (validatePair resolved))) (\<lambda>_.
       repoI S (\<lambda>fault. pairs_Update fault resolved)))"

definition RemovePair :: "'w service_env \<Rightarrow> string \<Rightarrow> ('w svc_world, unit) io" where
  "RemovePair S n = (if n = [] then liftI (failR (ErrNew ''pair name is required''))
     else repoI S (\<lambda>fault. pairs_Remove fault n))"

definition ListPairs :: "'w service_env \<Rightarrow> ('w svc_world, pair list) io" where
  "ListPairs S = (\<lambda>w. repoI S (\<lambda>fault d. (pairs_List fault (svc_scan S (sw_out w)) d, d)) w)"

text \<open>Without a trade repository the result is nil, which ranges like an empty list.\<close>

definition ListTrades :: "'w service_env \<Rightarrow> int \<Rightarrow> ('w svc_world, trade list) io" where
  "ListTrades S limit = (if \<not> svc_tradeRepo S then retI []
     else repoI S (\<lambda>fault d. (trades_List fault limit d, d)))"

record balance =
  OnchainSpendable :: u64
  OnchainLocked :: u64
  OffchainTotal :: u64

definition GetBalance :: "'w service_env \<Rightarrow> ('w svc_world, balance) io" where
  "GetBalance S = bindI (wrapI ''failed to get balance'' (outI (svc_Balance S))) (\<lambda>bal.
     retI \<lparr>OnchainSpendable = SpendableAmount bal,
       OnchainLocked = foldl (+) 0 (LockedAmount bal),
       OffchainTotal = OffchainBalance_Total bal\<rparr>)"

record wallet_address =
  OffchainAddress :: string
  BoardingAddress :: string

definition GetAddress :: "'w service_env \<Rightarrow> ('w svc_world, wallet_address) io" where
  "GetAddress S =
     bindI (wrapI ''failed to get offchain address'' (outI (svc_NewOffchainAddress S))) (\<lambda>offchain.
     bindI (wrapI ''failed to get boarding address'' (outI (svc_NewBoardingAddress S))) (\<lambda>boarding.
       retI \<lparr>OffchainAddress = offchain, BoardingAddress = boarding\<rparr>))"

section \<open>The trade listener\<close>

definition tradeOf :: "fulfillment_event \<Rightarrow> trade" where
  "tradeOf evt = \<lparr>t_ID = 0, t_Pair = ev_Pair evt, t_DepositAsset = ev_DepositAsset evt,
     t_DepositAmount = ev_DepositAmount evt, t_WantAsset = ev_WantAsset evt,
     t_WantAmount = ev_WantAmount evt, t_OfferTxid = ev_OfferTxid evt,
     t_FulfillTxid = ev_FulfillTxid evt, t_CreatedAt = ev_Timestamp evt\<rparr>"

text \<open>A failure to store the trade is logged and otherwise ignored.\<close>

definition OnFulfill :: "'w service_env \<Rightarrow> fulfillment_event \<Rightarrow> 'w svc_world \<Rightarrow> 'w svc_world" where
  "OnFulfill S evt w = snd (repoI S (\<lambda>fault. trades_Add fault (tradeOf evt)) w)"

section \<open>Valid pairs\<close>

definition valid_pair :: "pair \<Rightarrow> bool" where
  "valid_pair p \<longleftrightarrow> Base p \<noteq> [] \<and> Quote p \<noteq> [] \<and> Pair p = Base p @ CHR ''/'' # Quote p
     \<and> 0 < MinAmount p \<and> MinAmount p \<le> MaxAmount p \<and> PriceFeed p \<noteq> []
     \<and> 0 \<le> BaseDecimals p \<and> 0 \<le> QuoteDecimals p
     \<and> (Base p = ''BTC'' \<longrightarrow> BaseDecimals p = 8) \<and> (Quote p = ''BTC'' \<longrightarrow> QuoteDecimals p = 8)"

lemma splitPair_Some:
  "splitPair n = Some (a, b) \<longleftrightarrow> n = a @ CHR ''/'' # b \<and> CHR ''/'' \<notin> set a \<and> a \<noteq> [] \<and> b \<noteq> []"
proof
  show "splitPair n = Some (a, b) \<Longrightarrow> n = a @ CHR ''/'' # b \<and> CHR ''/'' \<notin> set a \<and> a \<noteq> [] \<and> b \<noteq> []"
    by (rule SplitN2_cases [of "CHR ''/''" n]) (auto simp: splitPair_def split: if_splits)
qed (auto simp: splitPair_def SplitN2_append)

lemma splitPair_Base_Quote: "splitPair (Pair p) = Some (a, b) \<Longrightarrow> Base p = a \<and> Quote p = b"
  by (auto simp: splitPair_Some Base_def Quote_def SplitN2_append)

lemma metadataDecimals_nonneg: "metadataDecimals a md = Inr n \<Longrightarrow> 0 \<le> n"
  by (induction a md rule: metadataDecimals.induct) (auto split: if_splits sum.splits)

lemma assetDecimals_Inr:
  "assetDecimals S a w = (Inr n, w') \<Longrightarrow> 0 \<le> n \<and> (a = ''BTC'' \<longrightarrow> n = 8)"
  by (auto simp: assetDecimals_def retI_def btcDecimals_def result_simps liftI_def
      split: if_splits option.splits dest: metadataDecimals_nonneg)

lemma validatePair_Inr:
  "validatePair p = Inr () \<longleftrightarrow> splitPair (Pair p) \<noteq> None \<and> 0 < MinAmount p \<and> MinAmount p \<le> MaxAmount p
     \<and> PriceFeed p \<noteq> []"
proof -
  have "splitPair [] = None" by (simp add: splitPair_def)
  then show ?thesis
    by (auto simp: validatePair_def word_gt_0 not_less word_le_0_iff)
qed

lemma resolved_valid:
  assumes "resolveDecimals S p w = (Inr q, w')" and "validatePair q = Inr ()"
  shows "valid_pair q" and "Pair q = Pair p"
proof -
  obtain a b m n w1 where ab: "splitPair (Pair p) = Some (a, b)" and
    q: "assetDecimals S a w = (Inr m, w1)" "assetDecimals S b w1 = (Inr n, w')"
      "q = p\<lparr>BaseDecimals := m, QuoteDecimals := n\<rparr>"
    using assms(1) by (auto simp: resolveDecimals_def result_simps liftI_def split: option.splits)
  then have "splitPair (Pair q) = Some (a, b)" by simp
  with splitPair_Base_Quote [OF this] show "valid_pair q"
    using assms(2) assetDecimals_Inr [OF q(1)] assetDecimals_Inr [OF q(2)] q(3)
    by (auto simp: valid_pair_def validatePair_Inr splitPair_Some)
  show "Pair q = Pair p" using q(3) by simp
qed

text \<open>Every way the database changes while the daemon runs: the operations of the service, trades
  being stored, and anything that changes only the outside world.\<close>

inductive service_step :: "'w service_env \<Rightarrow> 'w svc_world \<Rightarrow> 'w svc_world \<Rightarrow> bool" for S where
  "AddPair S p w = (r, w') \<Longrightarrow> service_step S w w'"
| "UpdatePair S p w = (r, w') \<Longrightarrow> service_step S w w'"
| "RemovePair S n w = (r, w') \<Longrightarrow> service_step S w w'"
| "ListPairs S w = (r, w') \<Longrightarrow> service_step S w w'"
| "ListTrades S k w = (r, w') \<Longrightarrow> service_step S w w'"
| "service_step S w (OnFulfill S evt w)"
| "service_step S w (w\<lparr>sw_out := u\<rparr>)"

definition service_inv :: "'w svc_world \<Rightarrow> bool" where
  "service_inv w \<longleftrightarrow> pairs_inv (sw_db w) \<and> ran (pairs_view (sw_db w)) \<subseteq> Collect valid_pair"

lemma pairs_fields:
  "db_pairs d' = db_pairs d \<Longrightarrow> pairs_inv d' = pairs_inv d \<and> pairs_view d' = pairs_view d"
  by (simp add: pairs_inv_def pairs_view_def)

lemma repoI_pairs:
  assumes "service_inv w" and "repoI S f w = (r, w')"
    and "\<And>fault r d. f fault (sw_db w) = (r, d) \<Longrightarrow> pairs_inv d \<and> ran (pairs_view d) \<subseteq> Collect valid_pair"
  shows "service_inv w'"
proof -
  obtain fault u d where "f fault (sw_db w) = (r, d)" and "w' = w\<lparr>sw_out := u, sw_db := d\<rparr>"
    using assms(2) by (auto simp: repoI_def split: prod.splits)
  with assms(3) show ?thesis by (simp add: service_inv_def)
qed

lemma repoI_untouched:
  assumes "service_inv w" and "repoI S f w = (r, w')"
    and "\<And>fault r d. f fault (sw_db w) = (r, d) \<Longrightarrow> db_pairs d = db_pairs (sw_db w)"
  shows "service_inv w'"
  using assms(1) pairs_fields [OF assms(3)] by (intro repoI_pairs [OF assms(1,2)]) (simp add: service_inv_def)

lemma outI_inv: "service_inv w \<Longrightarrow> outI m w = (r, w') \<Longrightarrow> service_inv w'"
  by (auto simp: outI_def service_inv_def split: prod.splits)

lemma stores_valid:
  assumes "pairs_inv d" and "ran (pairs_view d) \<subseteq> Collect valid_pair"
  shows "valid_pair q \<Longrightarrow> pairs_Add fault q d = (r, d') \<Longrightarrow>
      pairs_inv d' \<and> ran (pairs_view d') \<subseteq> Collect valid_pair"
    and "valid_pair q \<Longrightarrow> pairs_Update fault q d = (r, d') \<Longrightarrow>
      pairs_inv d' \<and> ran (pairs_view d') \<subseteq> Collect valid_pair"
    and "pairs_Remove fault n d = (r, d') \<Longrightarrow> pairs_inv d' \<and> ran (pairs_view d') \<subseteq> Collect valid_pair"
  using sqlite.refines(1) [OF assms(1), of fault q] sqlite.ran_ops(1) [OF assms, of q fault]
    sqlite.refines(2) [OF assms(1), of fault q] sqlite.ran_ops(2) [OF assms, of q fault]
    sqlite.refines(3) [OF assms(1), of fault n] sqlite.ran_ops(3) [OF assms, of fault n]
  by simp_all

text \<open>Addition and update share their shape: resolve, validate, store.\<close>

definition resolve_store :: "'w service_env \<Rightarrow> (goerr option \<Rightarrow> pair \<Rightarrow> db \<Rightarrow> unit result \<times> db) \<Rightarrow> pair \<Rightarrow>
    ('w svc_world, unit) io" where
  "resolve_store S store p = bindI (outI (resolveDecimals S p)) (\<lambda>q.
     bindI (wrapI ''invalid pair'' (liftI (validatePair q))) (\<lambda>_. repoI S (\<lambda>fault. store fault q)))"

lemma AddPair_resolve_store: "AddPair S p = resolve_store S pairs_Add p"
  and UpdatePair_resolve_store: "UpdatePair S p = resolve_store S pairs_Update p"
  by (simp_all add: AddPair_def UpdatePair_def resolve_store_def)

lemma resolveDecimals_keeps:
  "resolveDecimals S p w = (Inr q, w') \<Longrightarrow> \<exists>m n. q = p\<lparr>BaseDecimals := m, QuoteDecimals := n\<rparr>"
  by (auto simp: resolveDecimals_def result_simps liftI_def split: option.splits)

lemma resolve_store_failed:
  assumes "resolve_store S store p w = (r, w')" and "resolveDecimals S p (sw_out w) = (r1, u)"
    and "\<not> (\<exists>q. r1 = Inr q \<and> validatePair q = Inr ())"
  shows "sw_db w' = sw_db w \<and> r \<noteq> Inr ()"
proof (cases r1)
  case (Inl e)
  then show ?thesis using assms(1,2) by (auto simp: resolve_store_def outI_def bindI_def)
next
  case (Inr q)
  with assms(3) obtain e where "validatePair q = Inl e" by (cases "validatePair q") auto
  then show ?thesis using assms(1,2) Inr
    by (cases e) (auto simp: resolve_store_def outI_def bindI_def wrapI_def liftI_def)
qed

lemma resolve_store_effect:
  assumes "resolve_store S store p w = (r, w')"
  obtains "sw_db w' = sw_db w" and "r \<noteq> Inr ()"
  | fault m n where "valid_pair (p\<lparr>BaseDecimals := m, QuoteDecimals := n\<rparr>)"
      and "store fault (p\<lparr>BaseDecimals := m, QuoteDecimals := n\<rparr>) (sw_db w) = (r, sw_db w')"
proof -
  obtain r1 u where o1: "resolveDecimals S p (sw_out w) = (r1, u)" by fastforce
  show ?thesis
  proof (cases "\<exists>q. r1 = Inr q \<and> validatePair q = Inr ()")
    case True
    then obtain q where q: "r1 = Inr q" "validatePair q = Inr ()" by blast
    with o1 assms have "repoI S (\<lambda>fault. store fault q) (w\<lparr>sw_out := u\<rparr>) = (r, w')"
      by (simp add: resolve_store_def outI_def bindI_def wrapI_def liftI_def)
    then obtain fault where store: "store fault q (sw_db w) = (r, sw_db w')"
      by (auto simp: repoI_def split: prod.splits)
    from o1 q(1) have "resolveDecimals S p (sw_out w) = (Inr q, u)" by simp
    with resolved_valid(1) [OF this q(2)] resolveDecimals_keeps [OF this] store that(2) show ?thesis by blast
  next
    case False
    with resolve_store_failed [OF assms o1] that(1) show ?thesis by blast
  qed
qed

lemma AddPair_inv: "service_inv w \<Longrightarrow> AddPair S p w = (r, w') \<Longrightarrow> service_inv w'"
  unfolding AddPair_resolve_store
  by (erule resolve_store_effect) (simp add: service_inv_def, unfold service_inv_def, elim conjE, rule stores_valid(1))

lemma UpdatePair_inv: "service_inv w \<Longrightarrow> UpdatePair S p w = (r, w') \<Longrightarrow> service_inv w'"
  unfolding UpdatePair_resolve_store
  by (erule resolve_store_effect) (simp add: service_inv_def, unfold service_inv_def, elim conjE, rule stores_valid(2))

lemma RemovePair_inv: "service_inv w \<Longrightarrow> RemovePair S n w = (r, w') \<Longrightarrow> service_inv w'"
proof (cases "n = []")
  case False
  assume inv: "service_inv w" and r: "RemovePair S n w = (r, w')"
  from r False have "repoI S (\<lambda>fault. pairs_Remove fault n) w = (r, w')" by (simp add: RemovePair_def)
  then show ?thesis
    by (rule repoI_pairs [OF inv]) (use inv in \<open>auto simp: service_inv_def dest: stores_valid(3)\<close>)
qed (simp add: RemovePair_def liftI_def)

lemma service_inv_step:
  assumes "service_inv w" and "service_step S w w'"
  shows "service_inv w'"
  using assms(2)
proof cases
  case (4 r)
  then show ?thesis unfolding ListPairs_def by (rule repoI_untouched [OF assms(1)]) simp
next
  case (5 k r)
  then show ?thesis using assms(1) repoI_untouched [OF assms(1), of S _ r w']
    by (auto simp: ListTrades_def retI_def split: if_splits)
next
  case (6 evt)
  have "\<And>fault r d. trades_Add fault (tradeOf evt) (sw_db w) = (r, d) \<Longrightarrow> db_pairs d = db_pairs (sw_db w)"
    by (auto simp: trades_Add_def InsertTrade_def split: option.splits if_splits)
  with repoI_untouched [OF assms(1), of S "\<lambda>fault. trades_Add fault (tradeOf evt)"] show ?thesis
    unfolding 6 OnFulfill_def by (metis prod.collapse)
next
  case (7 u)
  then show ?thesis using assms(1) by (simp add: service_inv_def)
qed (rule AddPair_inv [OF assms(1)] UpdatePair_inv [OF assms(1)] RemovePair_inv [OF assms(1)]; assumption)+

interpretation service: invariant_system "\<lambda>w. sw_db w = empty_db" "service_step S" service_inv for S
  by unfold_locales
    (simp add: service_inv_def pairs_inv_empty pairs_view_empty, rule service_inv_step)

section \<open>Listed pairs\<close>

lemma ListPairs_Inr:
  assumes "ListPairs S w = (Inr ps, w')"
  shows "pairs_List None (svc_scan S (sw_out w)) (sw_db w) = Inr ps"
  using assms
  by (auto simp: ListPairs_def repoI_def pairs_List_def ListPairsQuery_def split: prod.splits option.splits)

lemma listed_valid:
  assumes "reorders (svc_scan S (sw_out w))" and "service_inv w" and "ListPairs S w = (Inr ps, w')"
  shows "distinct (map Pair ps)" and "\<And>p. p \<in> set ps \<Longrightarrow> valid_pair p" and "set ps = ran (pairs_view (sw_db w))"
proof -
  have inv: "pairs_inv (sw_db w)" "ran (pairs_view (sw_db w)) \<subseteq> Collect valid_pair"
    using assms(2) by (simp_all add: service_inv_def)
  note l = pairs_List_view [OF assms(1) inv(1) ListPairs_Inr [OF assms(3)]]
  show "distinct (map Pair ps)" and "set ps = ran (pairs_view (sw_db w))" by (rule l)+
  show "valid_pair p" if "p \<in> set ps" for p using that l(2) inv(2) by blast
qed

text \<open>A valid pair is determined by its base and quote among pairs with distinct names.\<close>

lemma match_unique:
  assumes "distinct (map Pair ps)" and "\<And>p. p \<in> set ps \<Longrightarrow> valid_pair p"
  shows "findMatchingPair L ps o' = Some p \<longleftrightarrow>
    p \<in> set ps \<and> Base p = DepositAssetStr L o' \<and> Quote p = WantAssetStr L o'"
proof -
  have "q = p" if "q \<in> set ps" "p \<in> set ps" "Base q = Base p" "Quote q = Quote p" for q p
  proof -
    have "Pair q = Pair p" using that assms(2) [OF that(1)] assms(2) [OF that(2)] by (simp add: valid_pair_def)
    then show ?thesis using assms(1) that(1,2) by (simp add: distinct_map inj_on_def)
  qed
  moreover have "q \<in> set ps \<and> Base q = DepositAssetStr L o' \<and> Quote q = WantAssetStr L o'"
    if "findMatchingPair L ps o' = Some q" for q
    using that by (auto simp: findMatchingPair_find find_Some_iff)
  moreover have "findMatchingPair L ps o' \<noteq> None"
    if "p \<in> set ps" "Base p = DepositAssetStr L o'" "Quote p = WantAssetStr L o'"
    using that by (auto simp: findMatchingPair_find find_None_iff)
  ultimately show ?thesis by (metis not_None_eq)
qed

section \<open>Effect of the operations\<close>

lemma pairs_Add_effect:
  assumes "pairs_inv d" and "pairs_Add f q d = (r, d')"
  shows "if r = Inr () then pairs_view d (Pair q) = None \<and> pairs_view d' = (pairs_view d)(Pair q := Some q)
    else pairs_view d' = pairs_view d"
  using sqlite.Add_refines [OF assms] by (auto simp: spec_defs split: option.splits if_splits)

lemma pairs_Update_effect:
  assumes "pairs_inv d" and "pairs_Update f q d = (r, d')"
  shows "if r = Inr () then pairs_view d (Pair q) \<noteq> None \<and> pairs_view d' = (pairs_view d)(Pair q := Some q)
    else pairs_view d' = pairs_view d"
  using sqlite.Update_refines [OF assms] by (auto simp: spec_defs split: option.splits if_splits)

text \<open>Only the name of the request changed, to a valid pair that differs from it in its decimals.\<close>

definition stores :: "pair \<Rightarrow> db \<Rightarrow> db \<Rightarrow> bool" where
  "stores p d d' \<longleftrightarrow> (\<exists>m n. valid_pair (p\<lparr>BaseDecimals := m, QuoteDecimals := n\<rparr>)
     \<and> pairs_view d' = (pairs_view d)(Pair p := Some (p\<lparr>BaseDecimals := m, QuoteDecimals := n\<rparr>)))"

lemma resolve_store_outcome:
  assumes "resolve_store S store p w = (r, w')"
    and "\<And>f q d'. store f q (sw_db w) = (r, d') \<Longrightarrow>
      if r = Inr () then ok (Pair q) \<and> pairs_view d' = (pairs_view (sw_db w))(Pair q := Some q)
      else pairs_view d' = pairs_view (sw_db w)"
  shows "if r = Inr () then ok (Pair p) \<and> stores p (sw_db w) (sw_db w')
    else pairs_view (sw_db w') = pairs_view (sw_db w)"
  using assms(1)
proof (rule resolve_store_effect)
  fix fault m n
  assume v: "valid_pair (p\<lparr>BaseDecimals := m, QuoteDecimals := n\<rparr>)"
    and s: "store fault (p\<lparr>BaseDecimals := m, QuoteDecimals := n\<rparr>) (sw_db w) = (r, sw_db w')"
  from assms(2) [OF s] v show ?thesis by (auto simp: stores_def split: if_splits)
qed simp

lemma ran_pairs_view: "p \<in> ran (pairs_view d) \<longleftrightarrow> pairs_view d (Pair p) = Some p"
proof -
  have "Pair p = n" if "pairs_view d n = Some p" for n
    using that by (auto simp: pairs_view_def toDomainPair_def dest!: map_of_SomeD)
  then show ?thesis by (auto simp: ran_def)
qed

section \<open>A sample service\<close>

definition sample_service :: "unit service_env" where
  "sample_service = \<lparr>svc_GetAsset = Some (\<lambda>a. retI (Some [(''name'', ''x''), (''decimals'', ''2'')])),
     svc_Balance = retI \<lparr>SpendableAmount = 1, LockedAmount = [2, 3], OffchainBalance_Total = 4\<rparr>,
     svc_NewOffchainAddress = retI ''a'', svc_NewBoardingAddress = retI ''b'', svc_tradeRepo = True,
     svc_fault = (\<lambda>u. (None, u)), svc_scan = (\<lambda>u. rev)\<rparr>"

definition sample_request :: pair where
  "sample_request = \<lparr>Pair = ''BTC/ab'', MinAmount = 10, MaxAmount = 20, BaseDecimals = 0, QuoteDecimals = 0,
     PriceFeed = ''u'', InvertPrice = True\<rparr>"

definition sample_stored :: pair where
  "sample_stored = sample_request\<lparr>BaseDecimals := 8, QuoteDecimals := 2\<rparr>"

definition sample_svc_world :: "unit svc_world" where
  "sample_svc_world = \<lparr>sw_out = (), sw_db = empty_db\<rparr>"

definition sample_svc_after :: "unit svc_world" where
  "sample_svc_after = \<lparr>sw_out = (), sw_db = empty_db\<lparr>db_pairs := [pairParams sample_stored]\<rparr>\<rparr>"

lemma sample_AddPair: "AddPair sample_service sample_request sample_svc_world = (Inr (), sample_svc_after)"
proof -
  have s: "splitPair ''BTC/ab'' = Some (''BTC'', ''ab'')" by (simp add: splitPair_def)
  have "Atoi ''2'' = Inr 2" by (simp add: Atoi_def Let_def)
  then have "resolveDecimals sample_service sample_request () = (Inr sample_stored, ())"
    by (simp add: resolveDecimals_def sample_request_def s assetDecimals_def sample_service_def
        bindI_def retI_def wrapI_def liftI_def wrapArgs_def btcDecimals_def sample_stored_def)
  moreover have "validatePair sample_stored = Inr ()"
    by (simp add: validatePair_def sample_stored_def sample_request_def s)
  ultimately show ?thesis
    by (simp add: AddPair_def sample_svc_world_def sample_svc_after_def outI_def bindI_def wrapI_def liftI_def
        repoI_def sample_service_def pairs_Add_def InsertPair_def empty_db_def)
qed

lemma sample_reachable: "(service_step sample_service)\<^sup>*\<^sup>* sample_svc_world sample_svc_after"
  using service_step.intros(1) [OF sample_AddPair] by blast

lemma sample_ListPairs: "ListPairs sample_service sample_svc_after = (Inr [sample_stored], sample_svc_after)"
  by (simp add: ListPairs_def repoI_def sample_service_def pairs_List_def ListPairsQuery_def sample_svc_after_def
      empty_db_def)

lemma sample_reorders: "reorders (svc_scan sample_service u)"
  by (simp add: sample_service_def reorders_def)

section \<open>Properties\<close>

text \<open>C4. Every pair the service lists is usable: on a database that only the service has written, in
  whatever order operations, failures and stored trades came, the listed pairs have distinct names of
  the form base/quote with neither side empty, limits with \<open>0 < min \<le> max\<close>, a price feed and
  nonnegative decimals, which are 8 for BTC.\<close>

theorem service_pairs_valid:
  assumes "sw_db w0 = empty_db" and "(service_step S)\<^sup>*\<^sup>* w0 w" and "reorders (svc_scan S (sw_out w))"
    and "ListPairs S w = (Inr ps, w')"
  shows "distinct (map Pair ps) \<and> list_all valid_pair ps"
  using listed_valid [OF assms(3) service.inv_reachable [OF assms(1,2)] assms(4)] by (simp add: list_all_iff)

theorem service_pairs_valid_witness:
  "ListPairs sample_service sample_svc_after = (Inr [sample_stored], sample_svc_after)
   \<and> valid_pair sample_stored"
  using service_pairs_valid [OF _ sample_reachable sample_reorders sample_ListPairs] sample_ListPairs
  by (simp add: sample_svc_world_def)



text \<open>C26. The pair chosen for an offer does not depend on the order in which the database returns its
  rows: on a database that only the service has written, it is the one pair whose base and quote name
  the deposited and the wanted asset, if there is one.\<close>

theorem pair_choice_unique:
  assumes "sw_db w0 = empty_db" and "(service_step S)\<^sup>*\<^sup>* w0 w" and "reorders (svc_scan S (sw_out w))"
    and "ListPairs S w = (Inr ps, w')"
  shows "findMatchingPair L ps o' = Some p \<longleftrightarrow> pairs_view (sw_db w) (Pair p) = Some p
    \<and> Base p = DepositAssetStr L o' \<and> Quote p = WantAssetStr L o'"
proof -
  note l = listed_valid [OF assms(3) service.inv_reachable [OF assms(1,2)] assms(4)]
  have "p \<in> ran (pairs_view (sw_db w)) \<longleftrightarrow> pairs_view (sw_db w) (Pair p) = Some p"
    by (rule ran_pairs_view)
  with match_unique [OF l(1,2), of L o' p] show ?thesis by (simp only: l(3))
qed

theorem pair_choice_unique_witness:
  "findMatchingPair sample_lib [sample_stored] (sample_banco_offer\<lparr>DepositAsset := None,
     bo_Offer := sample_offer\<lparr>WantAsset := Some [0xab]\<rparr>\<rparr>) = Some sample_stored"
proof -
  have "EncodeToString [0xab] = ''ab''" by code_simp
  then have "Base sample_stored = ''BTC''" "Quote sample_stored = EncodeToString [0xab]"
    by (simp_all add: sample_stored_def sample_request_def Base_def Quote_def)
  moreover have "pairs_view (sw_db sample_svc_after) (Pair sample_stored) = Some sample_stored"
    by (simp add: pairs_view_def sample_svc_after_def)
  ultimately show ?thesis
    using pair_choice_unique [OF _ sample_reachable sample_reorders sample_ListPairs, of sample_lib
        "sample_banco_offer\<lparr>DepositAsset := None, bo_Offer := sample_offer\<lparr>WantAsset := Some [0xab]\<rparr>\<rparr>" sample_stored]
    by (simp add: sample_svc_world_def DepositAssetStr_def WantAssetStr_def sample_lib_def)
qed

text \<open>C25. An offer that wants bitcoin is never taken by a daemon whose pairs were added through the
  service: the wanted asset of such an offer is written as the empty string, while a pair's quote is
  never empty, so not even a pair named \<^verbatim>\<open>asset/BTC\<close> matches it.\<close>

theorem btc_wanted_never_matched:
  assumes "sw_db w0 = empty_db" and "(service_step S)\<^sup>*\<^sup>* w0 w" and "reorders (svc_scan S (sw_out w))"
    and "ListPairs S w = (Inr ps, w')" and "WantAsset (bo_Offer o') = None"
  shows "findMatchingPair L ps o' = None"
proof -
  note l = listed_valid [OF assms(3) service.inv_reachable [OF assms(1,2)] assms(4)]
  have "\<And>p. p \<in> set ps \<Longrightarrow> Quote p \<noteq> WantAssetStr L o'"
    using l(2) assms(5) by (simp add: valid_pair_def WantAssetStr_def)
  then show ?thesis by (auto simp: findMatchingPair_find find_None_iff)
qed

theorem btc_wanted_never_matched_witness:
  "findMatchingPair sample_lib [sample_stored]
     (sample_banco_offer\<lparr>bo_Offer := sample_offer\<lparr>WantAsset := None\<rparr>\<rparr>) = None"
  by (rule btc_wanted_never_matched [OF _ sample_reachable sample_reorders sample_ListPairs])
    (simp_all add: sample_svc_world_def)

end
