(* ===== verification/Lifecycle.thy ===== *)
theory Lifecycle
  imports Prelude
begin

text \<open>
  The run loop owned by the service: \<^verbatim>\<open>Start\<close>, \<^verbatim>\<open>Stop\<close>, \<^verbatim>\<open>Status\<close> and \<^verbatim>\<open>setRunning\<close> of
  \<^verbatim>\<open>internal/core/application/service.go\<close>.

  Every call of Start makes a context, a channel \<^verbatim>\<open>done\<close> and a goroutine, all three with the number
  of the call. The goroutine evaluates \<^verbatim>\<open>svc.done\<close> when it begins (the argument of its deferred
  close), so it may be spawned without having read it. When \<^verbatim>\<open>solver.Run\<close> has returned, the deferred
  calls run in reverse order: \<^verbatim>\<open>running\<close> is cleared, then the channel is closed. That Run returns
  once its context is canceled is the subject of the theory of the solver; here it may return at any
  time, because its stream may be closed too. One caller at a time uses Start and Stop.
\<close>

datatype goroutine = Spawned | InRun nat | Cleared nat | Exited

record taker_service =
  ts_cancel :: "nat option"
  ts_done :: "nat option"
  ts_running :: bool
  ts_stopping :: bool
  ts_runs :: "goroutine list"
  ts_canceled :: "nat list"
  ts_closed :: "nat list"
  ts_panicked :: bool

definition new_service :: taker_service where
  "new_service = \<lparr>ts_cancel = None, ts_done = None, ts_running = False, ts_stopping = False, ts_runs = [],
     ts_canceled = [], ts_closed = [], ts_panicked = False\<rparr>"

definition setRunning :: "bool \<Rightarrow> taker_service \<Rightarrow> taker_service" where
  "setRunning v s = s\<lparr>ts_running := v\<rparr>"

definition Status :: "taker_service \<Rightarrow> bool" where
  "Status s = ts_running s"

definition Start :: "taker_service \<Rightarrow> taker_service" where
  "Start s = (let n = length (ts_runs s);
     s1 = s\<lparr>ts_cancel := Some n, ts_done := Some n\<rparr>;
     s2 = setRunning True s1
     in s2\<lparr>ts_runs := ts_runs s2 @ [Spawned]\<rparr>)"

text \<open>Stop returns at once if there was no Start; otherwise it cancels and waits for the channel.\<close>

definition Stop_begin :: "taker_service \<Rightarrow> taker_service" where
  "Stop_begin s = (case ts_cancel s of None \<Rightarrow> s
     | Some n \<Rightarrow> s\<lparr>ts_canceled := n # ts_canceled s, ts_stopping := True\<rparr>)"

definition Stop_can_return :: "taker_service \<Rightarrow> bool" where
  "Stop_can_return s \<longleftrightarrow> (case ts_done s of None \<Rightarrow> False | Some c \<Rightarrow> c \<in> set (ts_closed s))"

definition close_done :: "nat \<Rightarrow> taker_service \<Rightarrow> taker_service" where
  "close_done c s = (if c \<in> set (ts_closed s) then s\<lparr>ts_panicked := True\<rparr>
     else s\<lparr>ts_closed := c # ts_closed s\<rparr>)"

text \<open>The next action of the goroutine of the \<open>n\<close>-th Start.\<close>

definition advance :: "nat \<Rightarrow> taker_service \<Rightarrow> taker_service" where
  "advance n s = (case ts_runs s ! n of
     Spawned \<Rightarrow> (case ts_done s of None \<Rightarrow> s\<lparr>ts_panicked := True\<rparr>
       | Some c \<Rightarrow> s\<lparr>ts_runs := (ts_runs s)[n := InRun c]\<rparr>)
   | InRun c \<Rightarrow> setRunning False (s\<lparr>ts_runs := (ts_runs s)[n := Cleared c]\<rparr>)
   | Cleared c \<Rightarrow> close_done c (s\<lparr>ts_runs := (ts_runs s)[n := Exited]\<rparr>)
   | Exited \<Rightarrow> s)"

inductive go_step :: "taker_service \<Rightarrow> taker_service \<Rightarrow> bool" where
  "n < length (ts_runs s) \<Longrightarrow> ts_runs s ! n \<noteq> Exited \<Longrightarrow> go_step s (advance n s)"

text \<open>The callers; \<open>may\<close> restricts when Start is called.\<close>

inductive call_step :: "(taker_service \<Rightarrow> bool) \<Rightarrow> taker_service \<Rightarrow> taker_service \<Rightarrow> bool" for may where
  start: "\<not> ts_stopping s \<Longrightarrow> may s \<Longrightarrow> call_step may s (Start s)"
| stop: "\<not> ts_stopping s \<Longrightarrow> call_step may s (Stop_begin s)"
| stopped: "ts_stopping s \<Longrightarrow> Stop_can_return s \<Longrightarrow> call_step may s (s\<lparr>ts_stopping := False\<rparr>)"

definition life_step :: "(taker_service \<Rightarrow> bool) \<Rightarrow> taker_service \<Rightarrow> taker_service \<Rightarrow> bool" where
  "life_step may s t \<longleftrightarrow> \<not> ts_panicked s \<and> (go_step s t \<or> call_step may s t)"

inductive_cases go_stepE: "go_step s t"
inductive_cases call_stepE: "call_step may s t"

section \<open>One run at a time\<close>

text \<open>The discipline of \<^verbatim>\<open>cmd/bancod\<close>: Start is called when no earlier goroutine is alive.\<close>

definition all_exited :: "taker_service \<Rightarrow> bool" where
  "all_exited s \<longleftrightarrow> list_all (\<lambda>g. g = Exited) (ts_runs s)"

definition alive :: "goroutine \<Rightarrow> bool" where
  "alive g \<longleftrightarrow> (case g of Spawned \<Rightarrow> True | InRun c \<Rightarrow> True | _ \<Rightarrow> False)"

text \<open>With the discipline only the last goroutine can be alive, and the channel it captured is the
  current one.\<close>

definition life_inv :: "taker_service \<Rightarrow> bool" where
  "life_inv s \<longleftrightarrow> \<not> ts_panicked s
     \<and> (case ts_runs s of [] \<Rightarrow> ts_cancel s = None \<and> ts_done s = None \<and> \<not> ts_stopping s \<and> \<not> ts_running s \<and> ts_closed s = []
        | _ \<Rightarrow> (let n = length (ts_runs s) - 1; g = last (ts_runs s) in
            ts_cancel s = Some n \<and> ts_done s = Some n
            \<and> list_all (\<lambda>g. g = Exited) (butlast (ts_runs s))
            \<and> g \<in> {Spawned, InRun n, Cleared n, Exited}
            \<and> ts_running s = alive g
            \<and> set (ts_closed s) = (if g = Exited then {..n} else {..<n})))"

lemma last_exited: "list_all P xs \<Longrightarrow> xs \<noteq> [] \<Longrightarrow> P (last xs) \<and> list_all P (butlast xs)"
  by (induction xs rule: rev_induct) auto

lemma life_inv_Start:
  assumes "life_inv s" and "all_exited s" and "\<not> ts_stopping s"
  shows "life_inv (Start s)"
proof (cases "ts_runs s")
  case Nil
  with assms show ?thesis by (simp add: life_inv_def Start_def setRunning_def Let_def alive_def lessThan_def)
next
  case (Cons g gs)
  then have ne: "ts_runs s \<noteq> []" by simp
  have "{..length (ts_runs s) - 1} = {..<length (ts_runs s)}" using ne by (cases "ts_runs s") auto
  with assms ne last_exited [of "\<lambda>g. g = Exited" "ts_runs s"] show ?thesis
    by (cases "ts_runs s")
      (auto simp: life_inv_def Start_def setRunning_def Let_def alive_def all_exited_def)
qed

lemma life_inv_last:
  assumes "life_inv s" and "n < length (ts_runs s)" and "ts_runs s ! n \<noteq> Exited"
  obtains gs g where "ts_runs s = gs @ [g]" and "n = length gs" and "g \<noteq> Exited" and "list_all (\<lambda>g. g = Exited) gs"
    and "ts_cancel s = Some n" and "ts_done s = Some n" and "\<not> ts_panicked s"
    and "g \<in> {Spawned, InRun n, Cleared n}" and "ts_running s = alive g" and "set (ts_closed s) = {..<n}"
proof -
  obtain gs g where gs: "ts_runs s = gs @ [g]" using assms(2) by (cases "ts_runs s" rule: rev_cases) auto
  have ex: "list_all (\<lambda>g. g = Exited) gs"
    using assms(1) gs by (cases gs) (auto simp: life_inv_def Let_def)
  then have n: "n = length gs"
    using assms(2,3) gs by (cases "n < length gs") (auto simp: nth_append list_all_length)
  show thesis using that [OF gs n _ ex] assms(1,3) gs n
    by (cases gs) (auto simp: life_inv_def Let_def)
qed

lemma life_inv_go: "life_inv s \<Longrightarrow> go_step s t \<Longrightarrow> life_inv t"
proof (elim go_stepE)
  fix n
  assume inv: "life_inv s" and t: "t = advance n s" and n: "n < length (ts_runs s)" "ts_runs s ! n \<noteq> Exited"
  from life_inv_last [OF inv n] obtain gs g where g: "ts_runs s = gs @ [g]" "n = length gs"
    "list_all (\<lambda>g. g = Exited) gs" "ts_cancel s = Some n" "ts_done s = Some n" "\<not> ts_panicked s"
    "g \<in> {Spawned, InRun n, Cleared n}" "ts_running s = alive g" "set (ts_closed s) = {..<n}" by metis
  have upd: "(ts_runs s)[n := x] = gs @ [x]" for x using g(1,2) by simp
  have at: "ts_runs s ! n = g" using g(1,2) by simp
  have inv': "life_inv u" if "ts_runs u = gs @ [x]" "ts_cancel u = Some n" "ts_done u = Some n"
    "\<not> ts_panicked u" "x \<in> {Spawned, InRun n, Cleared n, Exited}" "ts_running u = alive x"
    "set (ts_closed u) = (if x = Exited then {..n} else {..<n})" for u x
    using that g(2,3) by (cases gs) (auto simp: life_inv_def Let_def)
  from g(7) consider "g = Spawned" | "g = InRun n" | "g = Cleared n" by blast
  then show "life_inv t"
  proof cases
    case 1
    then show ?thesis unfolding t using g
      by (intro inv' [of _ "InRun n"]) (simp_all add: advance_def upd alive_def)
  next
    case 2
    then show ?thesis unfolding t using g
      by (intro inv' [of _ "Cleared n"]) (simp_all add: advance_def upd alive_def setRunning_def)
  next
    case 3
    then have "{..n} = insert n {..<n}" by auto
    with 3 show ?thesis unfolding t using g
      by (intro inv' [of _ Exited]) (simp_all add: advance_def upd alive_def close_done_def)
  qed
qed

lemma life_inv_call: "life_inv s \<Longrightarrow> call_step all_exited s t \<Longrightarrow> life_inv t"
proof (elim call_stepE)
  show "life_inv s \<Longrightarrow> t = Stop_begin s \<Longrightarrow> life_inv t"
    by (cases "ts_runs s") (auto simp: life_inv_def Stop_begin_def Let_def split: option.splits)
  show "life_inv s \<Longrightarrow> t = s\<lparr>ts_stopping := False\<rparr> \<Longrightarrow> life_inv t"
    by (cases "ts_runs s") (auto simp: life_inv_def Let_def)
qed (simp add: life_inv_Start)

interpretation life: invariant_system "\<lambda>s. s = new_service" "life_step all_exited" life_inv
proof
  show "s = new_service \<Longrightarrow> life_inv s" for s by (simp add: life_inv_def new_service_def)
  show "life_inv s \<Longrightarrow> life_step all_exited s t \<Longrightarrow> life_inv t" for s t
    unfolding life_step_def using life_inv_go life_inv_call by blast
qed

lemma life_inv_running: "life_inv s \<Longrightarrow> ts_running s \<longleftrightarrow> (\<exists>g \<in> set (ts_runs s). alive g)"
proof (cases "ts_runs s" rule: rev_cases)
  case (snoc gs g)
  assume "life_inv s"
  with snoc have "list_all (\<lambda>g. g = Exited) gs" "ts_running s = alive g"
    by (cases gs; simp add: life_inv_def Let_def)+
  with snoc show ?thesis by (auto simp: list_all_iff alive_def)
qed (simp add: life_inv_def)

lemma life_inv_stopped: "life_inv s \<Longrightarrow> Stop_can_return s \<Longrightarrow> all_exited s"
proof (cases "ts_runs s" rule: rev_cases)
  case (snoc gs g)
  assume inv: "life_inv s" and ret: "Stop_can_return s"
  from inv snoc have "list_all (\<lambda>g. g = Exited) gs" "ts_done s = Some (length gs)"
    "set (ts_closed s) = (if g = Exited then {..length gs} else {..<length gs})"
    by (cases gs; simp add: life_inv_def Let_def)+
  with ret snoc show ?thesis by (auto simp: Stop_can_return_def all_exited_def split: if_splits)
qed (simp add: all_exited_def)

subsection \<open>Stop returns\<close>

fun actions_left :: "goroutine \<Rightarrow> nat" where
  "actions_left Spawned = 3"
| "actions_left (InRun c) = 2"
| "actions_left (Cleared c) = 1"
| "actions_left Exited = 0"

definition life_measure :: "taker_service \<Rightarrow> nat" where
  "life_measure s = sum_list (map actions_left (ts_runs s))"

lemma go_step_measure:
  assumes "life_inv s" and "go_step s t"
  shows "life_measure t < life_measure s"
  using assms(2)
proof cases
  case (1 n)
  from life_inv_last [OF assms(1) 1(2,3)] obtain gs g where g: "ts_runs s = gs @ [g]" "n = length gs"
    "ts_done s = Some n" "g \<in> {Spawned, InRun n, Cleared n}" by metis
  then have "ts_runs s ! n = g" "(ts_runs s)[n := x] = gs @ [x]" for x by simp_all
  with g show ?thesis unfolding 1(1)
    by (auto simp: advance_def life_measure_def setRunning_def close_done_def)
qed

lemma advance_keeps [simp]:
  "ts_stopping (advance n s) = ts_stopping s" "length (ts_runs (advance n s)) = length (ts_runs s)"
  by (simp_all add: advance_def setRunning_def close_done_def split: goroutine.split option.split)

lemma go_step_keeps: "go_step s t \<Longrightarrow> ts_stopping t = ts_stopping s \<and> length (ts_runs t) = length (ts_runs s)"
  by (auto elim!: go_stepE)

lemma stop_progress:
  assumes "life_inv s" and "ts_stopping s" and "\<not> Stop_can_return s"
  shows "\<exists>t. go_step s t"
proof (cases "ts_runs s" rule: rev_cases)
  case (snoc gs g)
  with assms(1) have "ts_done s = Some (length gs)"
    "set (ts_closed s) = (if g = Exited then {..length gs} else {..<length gs})"
    by (cases gs; simp add: life_inv_def Let_def)+
  with assms(3) have "g \<noteq> Exited" by (auto simp: Stop_can_return_def)
  with snoc show ?thesis using go_step.intros [of "length gs" s] by auto
qed (use assms(1,2) in \<open>simp add: life_inv_def\<close>)

lemma stop_returns:
  assumes "life_inv s" and "ts_stopping s"
  shows "\<exists>t. go_step\<^sup>*\<^sup>* s t \<and> Stop_can_return t"
  using assms
proof (induction "life_measure s" arbitrary: s rule: less_induct)
  case less
  show ?case
  proof (cases "Stop_can_return s")
    case False
    then obtain u where u: "go_step s u" using stop_progress less.prems by blast
    from less.hyps [OF go_step_measure [OF less.prems(1) u] life_inv_go [OF less.prems(1) u]]
      go_step_keeps [OF u] less.prems(2)
    show ?thesis using u by (meson converse_rtranclp_into_rtranclp)
  qed blast
qed

section \<open>Sample runs\<close>

lemma go_life: "go_step s t \<Longrightarrow> \<not> ts_panicked s \<Longrightarrow> (life_step may)\<^sup>*\<^sup>* t u \<Longrightarrow> (life_step may)\<^sup>*\<^sup>* s u"
  and call_life: "call_step may s t \<Longrightarrow> \<not> ts_panicked s \<Longrightarrow> (life_step may)\<^sup>*\<^sup>* t u \<Longrightarrow> (life_step may)\<^sup>*\<^sup>* s u"
  by (auto simp: life_step_def intro: converse_rtranclp_into_rtranclp)

text \<open>A schedule is run by a function: \<open>None\<close> calls Start, \<open>Some n\<close> lets the \<open>n\<close>-th goroutine act.\<close>

fun schedule :: "nat option list \<Rightarrow> taker_service \<Rightarrow> taker_service option" where
  "schedule [] s = Some s"
| "schedule (None # as) s = (if ts_panicked s \<or> ts_stopping s then None else schedule as (Start s))"
| "schedule (Some n # as) s =
     (if ts_panicked s \<or> length (ts_runs s) \<le> n \<or> ts_runs s ! n = Exited then None
      else schedule as (advance n s))"

lemma schedule_reaches: "schedule as s = Some t \<Longrightarrow> (life_step (\<lambda>_. True))\<^sup>*\<^sup>* s t"
  by (induction as s rule: schedule.induct)
    (auto simp: not_le split: if_splits intro: go_life [OF go_step.intros] call_life [OF call_step.start])

definition sample_stopping :: taker_service where
  "sample_stopping = Stop_begin (advance 0 (Start new_service))"

lemma sample_stopping_reached: "(life_step all_exited)\<^sup>*\<^sup>* new_service sample_stopping"
  unfolding sample_stopping_def
  by (rule call_life [OF call_step.start] go_life [OF go_step.intros] call_life [OF call_step.stop] rtranclp.rtrancl_refl |
      simp add: new_service_def all_exited_def Start_def Let_def setRunning_def advance_def)+

section \<open>Properties\<close>



text \<open>Without that discipline a second Start breaks it: the process can panic (both goroutines
  close the second channel), and Stop can return, with Status false, while the first run goes on
  without its context ever having been canceled.\<close>

lemma double_start:
  "(\<exists>s. (life_step (\<lambda>_. True))\<^sup>*\<^sup>* new_service s \<and> ts_panicked s)
   \<and> (\<exists>s. (life_step (\<lambda>_. True))\<^sup>*\<^sup>* new_service s \<and> Stop_can_return s \<and> \<not> Status s
        \<and> ts_runs s ! 0 = InRun 0 \<and> 0 \<notin> set (ts_canceled s))"
proof
  have "schedule [None, None, Some 0, Some 1, Some 0, Some 0, Some 1, Some 1] new_service \<noteq> None \<and>
    ts_panicked (the (schedule [None, None, Some 0, Some 1, Some 0, Some 0, Some 1, Some 1] new_service))"
    by code_simp
  then show "\<exists>s. (life_step (\<lambda>_. True))\<^sup>*\<^sup>* new_service s \<and> ts_panicked s"
    using schedule_reaches by fastforce
  let ?s = "the (schedule [None, Some 0, None, Some 1, Some 1, Some 1] new_service)"
  have "schedule [None, Some 0, None, Some 1, Some 1, Some 1] new_service \<noteq> None \<and> Stop_can_return ?s
      \<and> \<not> Status ?s \<and> ts_runs ?s ! 0 = InRun 0 \<and> 0 \<notin> set (ts_canceled ?s)"
    by code_simp
  then show "\<exists>s. (life_step (\<lambda>_. True))\<^sup>*\<^sup>* new_service s \<and> Stop_can_return s \<and> \<not> Status s
      \<and> ts_runs s ! 0 = InRun 0 \<and> 0 \<notin> set (ts_canceled s)"
    using schedule_reaches by fastforce
qed

end
