(* ===== verification/Api.thy ===== *)
theory Api
  imports Service
begin

text \<open>
  The interface of the daemon: the handlers of \<^verbatim>\<open>internal/interface/grpc/handler.go\<close> and the HTTP gateway
  of \<^verbatim>\<open>internal/interface/grpc/server.go\<close>.

  The messages of \<^verbatim>\<open>bancod.v1\<close> are records with the fields the handlers use. A handler gives a response
  or a gRPC status: a code, the format of its message and the error formatted with it. Decoding a JSON
  body is a parameter of the gateway (the types are generated); it gets at most a mebibyte of the body
  and whether the reader fails after it. A panic of a service reaches \<^verbatim>\<open>net/http\<close>, which drops the
  connection: there is no response then. \<open>rq_path\<close> is the cleaned path cut at its slashes, each segment
  unescaped (\<open>mux_segments\<close> computes it). Start and Stop of the servers are in the theory of the process, the
  pages of \<^verbatim>\<open>internal/interface/web\<close> in one of their own.
\<close>

section \<open>Messages\<close>

record PairInfo =
  pi_Pair :: string
  pi_MinAmount :: u64
  pi_MaxAmount :: u64
  pi_PriceFeed :: string
  pi_InvertPrice :: bool

record TradeInfo =
  ti_Id :: int
  ti_Pair :: string
  ti_DepositAsset :: string
  ti_DepositAmount :: u64
  ti_WantAsset :: string
  ti_WantAmount :: u64
  ti_OfferTxid :: string
  ti_FulfillTxid :: string
  ti_CreatedAt :: int

record GetBalanceResponse =
  OnchainConfirmed :: u64
  OnchainUnconfirmed :: u64
  OffchainSettled :: u64

datatype code = InvalidArgument | NotFound | AlreadyExists | Unimplemented | Internal

datatype 'a rpc_result = Response 'a | StatusError code string "goerr option" | HandlerPanic string

definition status_of :: "code \<Rightarrow> string \<Rightarrow> 'a result \<Rightarrow> 'a rpc_result" where
  "status_of c msg r = (case r of
     Inl (Error e) \<Rightarrow> StatusError c msg (Some e) | Inl (Panic p) \<Rightarrow> HandlerPanic p | Inr x \<Rightarrow> Response x)"

definition protoToDomain :: "PairInfo \<Rightarrow> pair" where
  "protoToDomain p = \<lparr>Pair = pi_Pair p, MinAmount = pi_MinAmount p, MaxAmount = pi_MaxAmount p,
     BaseDecimals = 0, QuoteDecimals = 0, PriceFeed = pi_PriceFeed p, InvertPrice = pi_InvertPrice p\<rparr>"

definition domainToProto :: "pair \<Rightarrow> PairInfo" where
  "domainToProto p = \<lparr>pi_Pair = Pair p, pi_MinAmount = MinAmount p, pi_MaxAmount = MaxAmount p,
     pi_PriceFeed = PriceFeed p, pi_InvertPrice = InvertPrice p\<rparr>"

definition tradeInfo :: "trade \<Rightarrow> TradeInfo" where
  "tradeInfo t = \<lparr>ti_Id = t_ID t, ti_Pair = t_Pair t, ti_DepositAsset = t_DepositAsset t,
     ti_DepositAmount = t_DepositAmount t, ti_WantAsset = t_WantAsset t, ti_WantAmount = t_WantAmount t,
     ti_OfferTxid = t_OfferTxid t, ti_FulfillTxid = t_FulfillTxid t, ti_CreatedAt = Unix (t_CreatedAt t)\<rparr>"

section \<open>Handlers\<close>

type_synonym ('w, 'a) rpc_call = "'w svc_world \<Rightarrow> 'a rpc_result \<times> 'w svc_world"

definition handler_AddPair :: "'w service_env \<Rightarrow> PairInfo option \<Rightarrow> ('w, unit) rpc_call" where
  "handler_AddPair S req = (\<lambda>w. case req of
     None \<Rightarrow> (StatusError InvalidArgument ''pair is required'' None, w)
   | Some p \<Rightarrow> apfst (status_of InvalidArgument ''%s'') (AddPair S (protoToDomain p) w))"

definition handler_UpdatePair :: "'w service_env \<Rightarrow> PairInfo option \<Rightarrow> ('w, unit) rpc_call" where
  "handler_UpdatePair S req = (\<lambda>w. case req of
     None \<Rightarrow> (StatusError InvalidArgument ''pair is required'' None, w)
   | Some p \<Rightarrow> (case UpdatePair S (protoToDomain p) w of
       (Inl (Error e), w') \<Rightarrow>
         if errors_Is e ErrPairNotFound then (StatusError NotFound ''%s'' (Some e), w')
         else (StatusError InvalidArgument ''%s'' (Some e), w')
     | (r, w') \<Rightarrow> (status_of InvalidArgument ''%s'' r, w')))"

definition handler_RemovePair :: "'w service_env \<Rightarrow> string \<Rightarrow> ('w, unit) rpc_call" where
  "handler_RemovePair S n = (\<lambda>w. apfst (status_of InvalidArgument ''%s'') (RemovePair S n w))"

definition handler_ListPairs :: "'w service_env \<Rightarrow> ('w, PairInfo list) rpc_call" where
  "handler_ListPairs S = (\<lambda>w. case ListPairs S w of (r, w') \<Rightarrow>
     (status_of Internal ''failed to list pairs: %s'' (bindR r (\<lambda>ps. Inr (map domainToProto ps))), w'))"

definition handler_GetStatus :: "bool \<Rightarrow> ('w, bool) rpc_call" where
  "handler_GetStatus running = (\<lambda>w. (Response running, w))"

definition handler_GetBalance :: "'w service_env \<Rightarrow> ('w, GetBalanceResponse) rpc_call" where
  "handler_GetBalance S = (\<lambda>w. case GetBalance S w of (r, w') \<Rightarrow>
     (status_of Internal ''failed to get balance: %s'' (bindR r (\<lambda>b.
        Inr \<lparr>OnchainConfirmed = OnchainSpendable b, OnchainUnconfirmed = OnchainLocked b,
             OffchainSettled = OffchainTotal b\<rparr>)), w'))"

definition handler_GetAddress :: "'w service_env \<Rightarrow> ('w, wallet_address) rpc_call" where
  "handler_GetAddress S = (\<lambda>w. apfst (status_of Internal ''failed to get address: %s'') (GetAddress S w))"

definition handler_ListTrades :: "'w service_env \<Rightarrow> int \<Rightarrow> ('w, TradeInfo list) rpc_call" where
  "handler_ListTrades S limit = (\<lambda>w. case ListTrades S limit w of (r, w') \<Rightarrow>
     (status_of Internal ''failed to list trades: %s'' (bindR r (\<lambda>ts. Inr (map tradeInfo ts))), w'))"

section \<open>The HTTP gateway\<close>

record request =
  rq_method :: string
  rq_path :: "string list"
  rq_limit :: string
  rq_body :: bytes

datatype payload =
    PEmpty
  | PPairs "PairInfo list"
  | PStatus bool
  | PBalance GetBalanceResponse
  | PAddress wallet_address
  | PTrades "TradeInfo list"
  | PBadBody goerr
  | PRpcError code string "goerr option"
  | PMux

record response =
  resp_Code :: nat
  resp_Body :: payload

record 'w gateway =
  gw_service :: "'w service_env"
  gw_running :: bool
  gw_Decode :: "bytes \<Rightarrow> bool \<Rightarrow> PairInfo option result"

definition maxRequestBodySize :: nat where
  "maxRequestBodySize = 2 ^ 20"

definition httpCode :: "code \<Rightarrow> nat" where
  "httpCode c = (case c of InvalidArgument \<Rightarrow> 400 | NotFound \<Rightarrow> 404 | AlreadyExists \<Rightarrow> 409
     | Unimplemented \<Rightarrow> 501 | _ \<Rightarrow> 500)"

text \<open>\<^verbatim>\<open>jsonResponse\<close> and \<^verbatim>\<open>httpGRPCError\<close>.\<close>

definition reply :: "('a \<Rightarrow> payload) \<Rightarrow> 'a rpc_result \<Rightarrow> response option" where
  "reply f r = (case r of
     Response x \<Rightarrow> Some \<lparr>resp_Code = 200, resp_Body = f x\<rparr>
   | StatusError c msg e \<Rightarrow> Some \<lparr>resp_Code = httpCode c, resp_Body = PRpcError c msg e\<rparr>
   | HandlerPanic p \<Rightarrow> None)"

datatype route = AddRoute | UpdateRoute | RemoveRoute string | PairsRoute | StatusRoute | BalanceRoute
  | AddressRoute | TradesRoute | NoMethod | NoRoute

text \<open>The patterns of the mux; a GET pattern serves HEAD too, and a path with other methods only gives
  status 405.\<close>

definition get_route :: "string \<Rightarrow> route \<Rightarrow> route" where
  "get_route m r = (if m = ''GET'' \<or> m = ''HEAD'' then r else NoMethod)"

definition route_of :: "string \<Rightarrow> string list \<Rightarrow> route" where
  "route_of m path =
     (if path = [''v1'', ''pair''] then
        if m = ''POST'' then AddRoute else if m = ''PUT'' then UpdateRoute else NoMethod
      else if path = [''v1'', ''pairs''] then get_route m PairsRoute
      else if path = [''v1'', ''status''] then get_route m StatusRoute
      else if path = [''v1'', ''balance''] then get_route m BalanceRoute
      else if path = [''v1'', ''address''] then get_route m AddressRoute
      else if path = [''v1'', ''trades''] then get_route m TradesRoute
      else case path of
        [a, b, name] \<Rightarrow> if a = ''v1'' \<and> b = ''pair'' \<and> name \<noteq> [] then
            if m = ''DELETE'' then RemoveRoute name else NoMethod
          else NoRoute
      | _ \<Rightarrow> NoRoute)"

definition tradesLimit :: "string \<Rightarrow> int" where
  "tradesLimit q = (if q = [] then 0
     else case Atoi q of Inr n \<Rightarrow> if 0 < n \<and> n \<le> 1000 then n else 0 | Inl _ \<Rightarrow> 0)"

definition withBody :: "'w gateway \<Rightarrow> bytes \<Rightarrow> (PairInfo option \<Rightarrow> 'w svc_world \<Rightarrow> response option \<times> 'w svc_world) \<Rightarrow>
    'w svc_world \<Rightarrow> response option \<times> 'w svc_world" where
  "withBody G body f w =
     (case gw_Decode G (take maxRequestBodySize body) (maxRequestBodySize < length body) of
        Inl (Error e) \<Rightarrow> (Some \<lparr>resp_Code = 400, resp_Body = PBadBody (ErrWrap ''invalid request body'' [] e)\<rparr>, w)
      | Inl (Panic p) \<Rightarrow> (None, w)
      | Inr req \<Rightarrow> f req w)"

definition newHTTPGateway :: "'w gateway \<Rightarrow> request \<Rightarrow> 'w svc_world \<Rightarrow> response option \<times> 'w svc_world" where
  "newHTTPGateway G rq w = (case route_of (rq_method rq) (rq_path rq) of
     AddRoute \<Rightarrow> withBody G (rq_body rq) (\<lambda>req w.
       apfst (reply (\<lambda>_. PEmpty)) (handler_AddPair (gw_service G) req w)) w
   | UpdateRoute \<Rightarrow> withBody G (rq_body rq) (\<lambda>req w.
       apfst (reply (\<lambda>_. PEmpty)) (handler_UpdatePair (gw_service G) req w)) w
   | RemoveRoute name \<Rightarrow> apfst (reply (\<lambda>_. PEmpty)) (handler_RemovePair (gw_service G) name w)
   | PairsRoute \<Rightarrow> apfst (reply PPairs) (handler_ListPairs (gw_service G) w)
   | StatusRoute \<Rightarrow> apfst (reply PStatus) (handler_GetStatus (gw_running G) w)
   | BalanceRoute \<Rightarrow> apfst (reply PBalance) (handler_GetBalance (gw_service G) w)
   | AddressRoute \<Rightarrow> apfst (reply PAddress) (handler_GetAddress (gw_service G) w)
   | TradesRoute \<Rightarrow> apfst (reply PTrades) (handler_ListTrades (gw_service G) (tradesLimit (rq_limit rq)) w)
   | NoMethod \<Rightarrow> (Some \<lparr>resp_Code = 405, resp_Body = PMux\<rparr>, w)
   | NoRoute \<Rightarrow> (Some \<lparr>resp_Code = 404, resp_Body = PMux\<rparr>, w))"

section \<open>Replies\<close>

lemma reply_Some:
  "reply f r = Some resp \<longleftrightarrow> (\<exists>x. r = Response x \<and> resp = \<lparr>resp_Code = 200, resp_Body = f x\<rparr>)
     \<or> (\<exists>c msg e. r = StatusError c msg e \<and> resp = \<lparr>resp_Code = httpCode c, resp_Body = PRpcError c msg e\<rparr>)"
  by (cases r) (auto simp: reply_def)

lemma httpCode_not_200 [simp]: "httpCode c \<noteq> 200"
  by (cases c) (simp_all add: httpCode_def)

lemma status_of_eq [simp]:
  "status_of c msg r = Response x \<longleftrightarrow> r = Inr x"
  "status_of c msg r = StatusError c' msg' e \<longleftrightarrow> c' = c \<and> msg' = msg \<and> (\<exists>e'. r = Inl (Error e') \<and> e = Some e')"
  by (auto simp: status_of_def split: sum.splits failure.splits)

definition body_pair :: "'w gateway \<Rightarrow> request \<Rightarrow> PairInfo option result" where
  "body_pair G rq = gw_Decode G (take maxRequestBodySize (rq_body rq)) (maxRequestBodySize < length (rq_body rq))"

lemma protoToDomain_name [simp]: "Pair (protoToDomain p) = pi_Pair p"
  by (simp add: protoToDomain_def)

lemma domainToProto_stored [simp]:
  "domainToProto ((protoToDomain p)\<lparr>BaseDecimals := m, QuoteDecimals := n\<rparr>) = p"
  by (simp add: domainToProto_def protoToDomain_def)

text \<open>What a request to add a pair does, whatever the outcome.\<close>

lemma handler_AddPair_cases:
  assumes "service_inv w" and "handler_AddPair S req w = (r, w')"
  obtains p where "r = Response ()" and "req = Some p" and "pairs_view (sw_db w) (pi_Pair p) = None"
      and "stores (protoToDomain p) (sw_db w) (sw_db w')"
  | e where "r = StatusError InvalidArgument (if req = None then ''pair is required'' else ''%s'') e"
      and "pairs_view (sw_db w') = pairs_view (sw_db w)"
  | p where "r = HandlerPanic p" and "pairs_view (sw_db w') = pairs_view (sw_db w)"
proof (cases req)
  case None
  with assms(2) that(2) show ?thesis by (auto simp: handler_AddPair_def)
next
  case (Some p)
  obtain a where a: "AddPair S (protoToDomain p) w = (a, w')" "r = status_of InvalidArgument ''%s'' a"
    using assms(2) Some by (cases "AddPair S (protoToDomain p) w") (auto simp: handler_AddPair_def)
  have inv: "pairs_inv (sw_db w)" using assms(1) by (simp add: service_inv_def)
  note out = resolve_store_outcome [OF a(1) [unfolded AddPair_resolve_store] pairs_Add_effect [OF inv]]
  show ?thesis
  proof (cases a)
    case (Inl e)
    with out a(2) Some that(2,3) show ?thesis by (cases e) (auto simp: status_of_def)
  next
    case (Inr u)
    with out a(2) Some that(1) show ?thesis by (auto simp: status_of_def)
  qed
qed

lemma list_reply:
  assumes "service_inv w" and "\<forall>u. reorders (svc_scan (gw_service G) u)"
    and "route_of (rq_method rq) (rq_path rq) = PairsRoute"
    and "newHTTPGateway G rq w = (Some \<lparr>resp_Code = c, resp_Body = PPairs infos\<rparr>, w')"
  shows "distinct (map pi_Pair infos) \<and> set infos = domainToProto ` ran (pairs_view (sw_db w))"
proof -
  let ?S = "gw_service G"
  obtain ps where ps: "ListPairs ?S w = (Inr ps, w')" "infos = map domainToProto ps"
    using assms(3,4) by (auto simp: newHTTPGateway_def reply_Some handler_ListPairs_def bindR_eq_Inr
        apfst_def map_prod_def split: prod.splits)
  have "reorders (svc_scan ?S (sw_out w))" using assms(2) by blast
  note l = listed_valid [OF this assms(1) ps(1)]
  have "pi_Pair \<circ> domainToProto = Pair" by (simp add: fun_eq_iff domainToProto_def)
  with l(1,3) ps(2) show ?thesis by simp
qed

section \<open>A sample gateway\<close>

definition sample_info :: PairInfo where
  "sample_info = domainToProto sample_request"

definition sample_gateway :: "unit gateway" where
  "sample_gateway = \<lparr>gw_service = sample_service, gw_running = True, gw_Decode = (\<lambda>b over. Inr (Some sample_info))\<rparr>"

definition sample_post :: request where
  "sample_post = \<lparr>rq_method = ''POST'', rq_path = [''v1'', ''pair''], rq_limit = [], rq_body = []\<rparr>"

lemma sample_post_reply:
  "newHTTPGateway sample_gateway sample_post sample_svc_world = (Some \<lparr>resp_Code = 200, resp_Body = PEmpty\<rparr>, sample_svc_after)"
proof -
  have "protoToDomain sample_info = sample_request"
    by (simp add: sample_info_def protoToDomain_def domainToProto_def sample_request_def)
  moreover have "gw_service sample_gateway = sample_service"
    "gw_Decode sample_gateway = (\<lambda>b over. Inr (Some sample_info))" by (simp_all add: sample_gateway_def)
  moreover have "route_of (rq_method sample_post) (rq_path sample_post) = AddRoute"
    by (simp add: sample_post_def route_of_def)
  ultimately show ?thesis using sample_AddPair
    by (simp add: newHTTPGateway_def withBody_def handler_AddPair_def status_of_def reply_def)
qed

section \<open>Properties\<close>

text \<open>C34. Adding a pair over HTTP: the reply is 200 or 400. After a 200 the name was free before and
  every listing that succeeds shows the pairs of before and the posted one, with the posted fields and
  each name once; after a 400, whatever its cause (a bad body, an invalid pair, an unknown asset, a
  name in use, a failing database), no pair has changed.\<close>

theorem post_pair:
  assumes "service_inv w" and "\<forall>u. reorders (svc_scan (gw_service G) u)"
    and "route_of (rq_method rq) (rq_path rq) = AddRoute" and "newHTTPGateway G rq w = (Some resp, w')"
  shows "(resp_Code resp = 200 \<and> (\<exists>p. body_pair G rq = Inr (Some p) \<and> pairs_view (sw_db w) (pi_Pair p) = None
      \<and> (\<forall>rq' c infos w''. route_of (rq_method rq') (rq_path rq') = PairsRoute
          \<and> newHTTPGateway G rq' w' = (Some \<lparr>resp_Code = c, resp_Body = PPairs infos\<rparr>, w'') \<longrightarrow>
          distinct (map pi_Pair infos) \<and> set infos = insert p (domainToProto ` ran (pairs_view (sw_db w))))))
    \<or> (resp_Code resp = 400 \<and> pairs_view (sw_db w') = pairs_view (sw_db w))"
proof (cases "body_pair G rq")
  case (Inl f)
  then show ?thesis using assms(3,4)
    by (cases f) (auto simp: newHTTPGateway_def withBody_def body_pair_def)
next
  case (Inr req)
  then obtain r where h: "handler_AddPair (gw_service G) req w = (r, w')" and r: "reply (\<lambda>_. PEmpty) r = Some resp"
    using assms(3,4) by (cases "handler_AddPair (gw_service G) req w")
      (auto simp: newHTTPGateway_def withBody_def body_pair_def)
  from assms(1) h show ?thesis
  proof (cases rule: handler_AddPair_cases)
    case (1 p)
    have inv: "service_inv w'"
      using h 1(1,2) AddPair_inv [OF assms(1), of "gw_service G" "protoToDomain p"]
      by (cases "AddPair (gw_service G) (protoToDomain p) w") (auto simp: handler_AddPair_def)
    have "domainToProto ` ran (pairs_view (sw_db w')) = insert p (domainToProto ` ran (pairs_view (sw_db w)))"
      using 1(3,4) by (auto simp: stores_def ran_map_upd)
    with list_reply [OF inv assms(2)] 1 r Inr show ?thesis by (auto simp: reply_def)
  next
    case (2 e)
    with r show ?thesis by (auto simp: reply_def httpCode_def)
  next
    case (3 p)
    with r show ?thesis by (simp add: reply_def)
  qed
qed

theorem post_pair_witness:
  "pairs_view (sw_db sample_svc_world) (pi_Pair sample_info) = None"
proof -
  have "service_inv sample_svc_world" by (rule service.inv_init) (simp add: sample_svc_world_def)
  from post_pair [OF this _ _ sample_post_reply] show ?thesis
    by (simp add: sample_post_def route_of_def body_pair_def sample_gateway_def sample_reorders)
qed

end
