(* ===== verification/Config.thy ===== *)
theory Config
  imports GoLib
begin

text \<open>
  The configuration of the daemon: \<^verbatim>\<open>internal/config/config.go\<close>. The environment of the process, the home
  directory and \<^verbatim>\<open>filepath.Join\<close> are the fields of \<open>os_env\<close>; an unset variable reads as the empty
  string.
\<close>

record os_env =
  Getenv :: "string \<Rightarrow> string"
  UserHomeDir :: "string result"
  filepath_Join :: "string \<Rightarrow> string \<Rightarrow> string"

record daemon_settings =
  Datadir :: string
  ArkURL :: string
  WalletSeed :: string
  WalletPassword :: string
  IntrospectorURL :: string
  GRPCPort :: int
  HTTPPort :: int
  LogLevel :: int

definition defaultDatadir :: string where "defaultDatadir = ''.bancod''"
definition defaultGRPCPort :: int where "defaultGRPCPort = 7070"
definition defaultHTTPPort :: int where "defaultHTTPPort = 7071"
definition defaultLogLevel :: int where "defaultLogLevel = 4"

definition required :: "os_env \<Rightarrow> string \<Rightarrow> string result" where
  "required E name = (if Getenv E name = [] then failR (ErrNew (name @ '' is required'')) else Inr (Getenv E name))"

definition loadDatadir :: "os_env \<Rightarrow> string result" where
  "loadDatadir E = (if Getenv E ''BANCOD_DATADIR'' = []
     then bindR (wrapR ''failed to determine home directory'' (UserHomeDir E)) (\<lambda>home.
       Inr (filepath_Join E home defaultDatadir))
     else Inr (Getenv E ''BANCOD_DATADIR''))"

definition intVar :: "os_env \<Rightarrow> string \<Rightarrow> int \<Rightarrow> int result" where
  "intVar E name dflt = (if Getenv E name = [] then Inr dflt
     else wrapR (''invalid '' @ name) (Atoi (Getenv E name)))"

definition LoadConfig :: "os_env \<Rightarrow> daemon_settings result" where
  "LoadConfig E =
     bindR (required E ''BANCOD_ARK_URL'') (\<lambda>arkURL.
     bindR (required E ''BANCOD_WALLET_SEED'') (\<lambda>walletSeed.
     bindR (required E ''BANCOD_INTROSPECTOR_URL'') (\<lambda>introspectorURL.
     bindR (loadDatadir E) (\<lambda>datadir.
     bindR (intVar E ''BANCOD_GRPC_PORT'' defaultGRPCPort) (\<lambda>grpcPort.
     bindR (intVar E ''BANCOD_HTTP_PORT'' defaultHTTPPort) (\<lambda>httpPort.
     bindR (intVar E ''BANCOD_LOG_LEVEL'' defaultLogLevel) (\<lambda>logLevel.
       if grpcPort < 1 \<or> grpcPort > 65535
         then failR (ErrNew ''BANCOD_GRPC_PORT must be between 1 and 65535'')
       else if httpPort < 1 \<or> httpPort > 65535
         then failR (ErrNew ''BANCOD_HTTP_PORT must be between 1 and 65535'')
       else if grpcPort = httpPort
         then failR (ErrNew ''BANCOD_GRPC_PORT and BANCOD_HTTP_PORT must be different'')
       else Inr \<lparr>Datadir = datadir, ArkURL = arkURL, WalletSeed = walletSeed,
         WalletPassword = Getenv E ''BANCOD_WALLET_PASSWORD'', IntrospectorURL = introspectorURL,
         GRPCPort = grpcPort, HTTPPort = httpPort, LogLevel = logLevel\<rparr>)))))))"

lemma required_Inr [result_simps]: "required E name = Inr v \<longleftrightarrow> v = Getenv E name \<and> v \<noteq> []"
  by (auto simp: required_def)

lemma intVar_Inr [result_simps]:
  "intVar E name d = Inr n \<longleftrightarrow> (if Getenv E name = [] then n = d else Atoi (Getenv E name) = Inr n)"
  by (auto simp: intVar_def wrapR_eq_Inr)

lemma loadDatadir_Inr [result_simps]:
  "loadDatadir E = Inr v \<longleftrightarrow> (if Getenv E ''BANCOD_DATADIR'' = []
     then \<exists>home. UserHomeDir E = Inr home \<and> v = filepath_Join E home defaultDatadir
     else v = Getenv E ''BANCOD_DATADIR'')"
  by (auto simp: loadDatadir_def result_simps)

lemma LoadConfig_Inr:
  "LoadConfig E = Inr c \<longleftrightarrow>
     required E ''BANCOD_ARK_URL'' = Inr (ArkURL c) \<and> required E ''BANCOD_WALLET_SEED'' = Inr (WalletSeed c)
   \<and> required E ''BANCOD_INTROSPECTOR_URL'' = Inr (IntrospectorURL c) \<and> loadDatadir E = Inr (Datadir c)
   \<and> intVar E ''BANCOD_GRPC_PORT'' defaultGRPCPort = Inr (GRPCPort c)
   \<and> intVar E ''BANCOD_HTTP_PORT'' defaultHTTPPort = Inr (HTTPPort c)
   \<and> intVar E ''BANCOD_LOG_LEVEL'' defaultLogLevel = Inr (LogLevel c)
   \<and> WalletPassword c = Getenv E ''BANCOD_WALLET_PASSWORD''
   \<and> GRPCPort c \<in> {1..65535} \<and> HTTPPort c \<in> {1..65535} \<and> GRPCPort c \<noteq> HTTPPort c"
  by (cases c) (auto simp: LoadConfig_def bindR_eq_Inr split: if_splits)

section \<open>Property\<close>

definition port_of :: "os_env \<Rightarrow> string \<Rightarrow> int \<Rightarrow> int \<Rightarrow> bool" where
  "port_of E name d n \<longleftrightarrow> (if Getenv E name = [] then n = d else Atoi (Getenv E name) = Inr n)"

text \<open>The configuration is loaded exactly when the three required variables are set, a data directory
  is named or the home directory is known, the integers that are set parse, and both ports, given or
  default, are from 1 to 65535 and different; then it holds these values.\<close>

lemma LoadConfig_iff:
  "LoadConfig E = Inr c \<longleftrightarrow>
     ArkURL c = Getenv E ''BANCOD_ARK_URL'' \<and> WalletSeed c = Getenv E ''BANCOD_WALLET_SEED''
   \<and> IntrospectorURL c = Getenv E ''BANCOD_INTROSPECTOR_URL''
   \<and> ArkURL c \<noteq> [] \<and> WalletSeed c \<noteq> [] \<and> IntrospectorURL c \<noteq> []
   \<and> WalletPassword c = Getenv E ''BANCOD_WALLET_PASSWORD''
   \<and> (if Getenv E ''BANCOD_DATADIR'' = []
      then \<exists>home. UserHomeDir E = Inr home \<and> Datadir c = filepath_Join E home ''.bancod''
      else Datadir c = Getenv E ''BANCOD_DATADIR'')
   \<and> port_of E ''BANCOD_GRPC_PORT'' 7070 (GRPCPort c) \<and> port_of E ''BANCOD_HTTP_PORT'' 7071 (HTTPPort c)
   \<and> port_of E ''BANCOD_LOG_LEVEL'' 4 (LogLevel c)
   \<and> 1 \<le> GRPCPort c \<and> GRPCPort c \<le> 65535 \<and> 1 \<le> HTTPPort c \<and> HTTPPort c \<le> 65535
   \<and> GRPCPort c \<noteq> HTTPPort c"
  by (auto simp: LoadConfig_Inr required_Inr intVar_Inr loadDatadir_Inr port_of_def defaultDatadir_def
      defaultGRPCPort_def defaultHTTPPort_def defaultLogLevel_def)

end
