(* ===== verification/System.thy ===== *)
theory System
  imports Service Solver
begin

text \<open>
  The daemon as \<^verbatim>\<open>cmd/bancod/main.go\<close> wires it: the solver runs the one plugin of \<^verbatim>\<open>pkg/banco\<close>, which lists
  its pairs from the database, and whose listener stores the trades in it, while the operator adds,
  updates and removes pairs through the service.

  A state of the system is a state of the run of the solver on a world with three parts: the world of the
  plugin, which contains the world outside, and the database.
\<close>

record 'w daemon_world =
  dw_plugin :: "'w plugin_world"
  dw_db :: db

definition dw_service :: "'w daemon_world \<Rightarrow> 'w svc_world" where
  "dw_service s = \<lparr>sw_out = outside (pw_ark (dw_plugin s)), sw_db = dw_db s\<rparr>"

definition set_service :: "'w svc_world \<Rightarrow> 'w daemon_world \<Rightarrow> 'w daemon_world" where
  "set_service v s = s\<lparr>dw_plugin := (dw_plugin s)\<lparr>pw_ark := (pw_ark (dw_plugin s))\<lparr>outside := sw_out v\<rparr>\<rparr>,
     dw_db := sw_db v\<rparr>"

section \<open>Wiring\<close>

definition repo_List :: "'w service_env \<Rightarrow> db \<Rightarrow> ('w, pair list) io" where
  "repo_List S d = (\<lambda>u. case svc_fault S u of (fault, u') \<Rightarrow> (pairs_List fault (svc_scan S u) d, u'))"

definition daemon_config :: "('aid, 'pk, 'x, 'z, 'w) banco_env \<Rightarrow> 'w service_env \<Rightarrow> db \<Rightarrow>
    ('aid, 'pk, 'x, 'z, 'w) banco_env" where
  "daemon_config E S d = E\<lparr>env_List := Some (repo_List S d), env_listener := True\<rparr>"

text \<open>The listener is called with the event the plugin publishes.\<close>

definition store_event :: "'w service_env \<Rightarrow> fulfillment_event \<Rightarrow> 'w daemon_world \<Rightarrow> 'w daemon_world" where
  "store_event S ev s = set_service (OnFulfill S ev (dw_service s)) s"

definition daemon_Match :: "('aid, 'pk, 'x, 'z, 'w) banco_env \<Rightarrow> 'w service_env \<Rightarrow> psbt \<Rightarrow>
    ('w daemon_world, ('aid, 'pk) matched_offer option) io" where
  "daemon_Match E S tx s = (case NewPlugin (daemon_config E S (dw_db s)) of
     Inl f \<Rightarrow> (Inl f, s)
   | Inr p \<Rightarrow> (case Match p (Some tx) (dw_plugin s) of
       (r, w') \<Rightarrow> (bindR r (\<lambda>(m, reports). Inr m), s\<lparr>dw_plugin := w'\<rparr>)))"

definition daemon_Solve :: "('aid, 'pk, 'x, 'z, 'w) banco_env \<Rightarrow> 'w service_env \<Rightarrow>
    ('aid, 'pk) matched_offer \<Rightarrow> ('w daemon_world, unit) io" where
  "daemon_Solve E S m s = (case NewPlugin (daemon_config E S (dw_db s)) of
     Inl f \<Rightarrow> (Inl f, s)
   | Inr p \<Rightarrow> (case Solve p Some m (dw_plugin s) of
       (r, w') \<Rightarrow> (r, fold (store_event S) (drop (length (pw_events (dw_plugin s))) (pw_events w'))
                       (s\<lparr>dw_plugin := w'\<rparr>))))"

definition daemon_plugin :: "('aid, 'pk, 'x, 'z, 'w) banco_env \<Rightarrow> 'w service_env \<Rightarrow>
    ('w daemon_world, ('aid, 'pk) matched_offer) solver_plugin" where
  "daemon_plugin E S = \<lparr>sp_Match = daemon_Match E S, sp_Solve = daemon_Solve E S\<rparr>"

text \<open>The operator, and whatever changes only the world outside.\<close>

inductive operator_step :: "'w service_env \<Rightarrow> 'w svc_world \<Rightarrow> 'w svc_world \<Rightarrow> bool" for S where
  "AddPair S p v = (r, v') \<Longrightarrow> operator_step S v v'"
| "UpdatePair S p v = (r, v') \<Longrightarrow> operator_step S v v'"
| "RemovePair S n v = (r, v') \<Longrightarrow> operator_step S v v'"
| "operator_step S v (v\<lparr>sw_out := u\<rparr>)"

inductive daemon_step :: "('aid, 'pk, 'x, 'z, 'w) banco_env \<Rightarrow> 'w service_env \<Rightarrow>
    ('w daemon_world, ('aid, 'pk) matched_offer) run_state \<Rightarrow>
    ('w daemon_world, ('aid, 'pk) matched_offer) run_state \<Rightarrow> bool" for E S where
  run: "run_step [daemon_plugin E S] s t \<Longrightarrow> daemon_step E S s t"
| operate: "operator_step S (dw_service (rs_world s)) v \<Longrightarrow>
    daemon_step E S s (s\<lparr>rs_world := set_service v (rs_world s)\<rparr>)"

definition daemon_start :: "('aid, 'pk, 'x, 'z, 'w) banco_env \<Rightarrow> 'w \<Rightarrow>
    ('w daemon_world, ('aid, 'pk) matched_offer) run_state" where
  "daemon_start E u = run_start \<lparr>dw_plugin = initWorld E \<lparr>outside = u, rpcs = []\<rparr>, dw_db = empty_db\<rparr>"

section \<open>Matching and solving\<close>

definition submits :: "rpc list \<Rightarrow> nat" where
  "submits cs = length (filter (\<lambda>c. \<not> is_sign c) cs)"

lemma submits_append [simp]: "submits (as @ bs) = submits as + submits bs"
  and submits_simps [simp]: "submits [] = 0" "submits [RpcSubmit tx cps] = 1"
  by (simp_all add: submits_def is_sign_def)

lemma submits_signs: "list_all is_sign cs \<Longrightarrow> submits cs = 0"
  by (simp add: submits_def list_all_iff)

lemma submission_submits: "submission T p r new \<Longrightarrow> submits new \<le> 1 \<and> (\<not> isl r \<longrightarrow> submits new = 1)"
  using submits_signs signed_encodings_is_sign by (fastforce simp: submission_def)

lemma runValidators_silent:
  "(\<And>v. v \<in> set vs \<Longrightarrow> silent (v i)) \<Longrightarrow> runValidators p vs i w = (r, w') \<Longrightarrow>
   rpcs (pw_ark w') = rpcs (pw_ark w) \<and> pw_events w' = pw_events w"
proof (induction vs arbitrary: w)
  case (Cons v vs)
  obtain q w1 where v: "v i w = (q, w1)" by fastforce
  have "silent (v i)" using Cons.prems(1) by simp
  note s = silentD [OF this v]
  show ?case
    using Cons.prems(2) v s Cons.IH [of w1] Cons.prems(1)
    by (auto split: sum.splits failure.splits if_splits)
qed simp

lemma Match_silent:
  assumes "NewPlugin cfg = Inr p" and "Match p tx w = (r, w')"
  shows "rpcs (pw_ark w') = rpcs (pw_ark w) \<and> pw_events w' = pw_events w"
proof (cases "runFilters (p_filters p) tx")
  case True
  obtain q w1 where d: "p_decode p tx w = (q, w1)" by fastforce
  have "silent (p_decode p tx)"
    using assms(1) by (auto simp: NewPlugin_eq silent_extensionDecode [OF silent_stages(1)])
  note s = silentD [OF this d]
  have v: "rpcs (pw_ark w2) = rpcs (pw_ark w1) \<and> pw_events w2 = pw_events w1"
    if "runValidators p (p_validators p) i w1 = (r', w2)" for i r' w2
    using _ that
    by (rule runValidators_silent) (use assms(1) silent_stages in \<open>auto simp: NewPlugin_eq\<close>)
  show ?thesis
    using assms(2) True d s v
    by (auto simp: Match_def split: sum.splits failure.splits)
qed (use assms(2) in \<open>simp add: Match_def\<close>)

text \<open>What every matched offer satisfies.\<close>

definition gated :: "('aid, 'pk) matched_offer \<Rightarrow> bool" where
  "gated m \<longleftrightarrow> valid_pair (mo_Pair m) \<and> MinAmount (mo_Pair m) \<le> WantAmount (bo_Offer (mo_Offer m))
     \<and> WantAmount (bo_Offer (mo_Offer m)) \<le> MaxAmount (mo_Pair m) \<and> WantAsset (bo_Offer (mo_Offer m)) \<noteq> None"

lemma daemon_config_keeps [simp]:
  "env_lib (daemon_config E S d) = env_lib E" "env_taker (daemon_config E S d) = env_taker E"
  "env_List (daemon_config E S d) = Some (repo_List S d)"
  by (simp_all add: daemon_config_def)

lemma repo_List_valid:
  assumes "pairs_inv d" and "ran (pairs_view d) \<subseteq> Collect valid_pair" and "\<forall>u. reorders (svc_scan S u)"
    and "repo_List S d u = (Inr ps, u')" and "p \<in> set ps"
  shows "valid_pair p"
proof -
  from assms(4) have "pairs_List None (svc_scan S u) d = Inr ps"
    by (auto simp: repo_List_def pairs_List_def ListPairsQuery_def split: prod.splits option.splits)
  with pairs_List_view(2) [OF _ assms(1) this] assms(2,3,5) show ?thesis by blast
qed

lemma decode_valid:
  assumes "pairs_inv d" and "ran (pairs_view d) \<subseteq> Collect valid_pair" and "\<forall>u. reorders (svc_scan S u)"
    and "extensionDecode (env_lib E) (decode (WithDefault (daemon_config E S d))) tx w = (Inr m, w')"
  shows "valid_pair (mo_Pair m) \<and> WantAsset (bo_Offer (mo_Offer m)) \<noteq> None"
proof -
  let ?E = "WithDefault (daemon_config E S d)"
  from assms(4) obtain t ext where "decode ?E t ext w = (Inr m, w')" by (auto simp: extensionDecode_Inr)
  then obtain List ps a b where l: "env_List ?E = Some List" "List a = (Inr ps, b)" and
    f: "find (\<lambda>p. Base p = DepositAssetStr (base_lib (env_lib ?E)) (mo_Offer m)
           \<and> Quote p = WantAssetStr (base_lib (env_lib ?E)) (mo_Offer m)) ps = Some (mo_Pair m)"
    by (rule decode_Inr)
  from f have q: "mo_Pair m \<in> set ps" "Quote (mo_Pair m) = WantAssetStr (base_lib (env_lib ?E)) (mo_Offer m)"
    by (auto simp: find_Some_iff)
  have valid: "valid_pair (mo_Pair m)"
    using repo_List_valid [OF assms(1-3) _ q(1)] l by simp
  with q(2) show ?thesis
    by (cases "WantAsset (bo_Offer (mo_Offer m))") (simp_all add: WantAssetStr_def valid_pair_def)
qed

section \<open>Trades\<close>

lemma dw_service_set [simp]: "dw_service (set_service v s) = v"
  by (simp add: dw_service_def set_service_def)

lemma set_service_sel [simp]:
  "pw_events (dw_plugin (set_service v s)) = pw_events (dw_plugin s)"
  "rpcs (pw_ark (dw_plugin (set_service v s))) = rpcs (pw_ark (dw_plugin s))"
  "dw_db (set_service v s) = sw_db v"
  by (simp_all add: set_service_def)

text \<open>An event is stored as a new last trade or not at all.\<close>

lemma OnFulfill_trades:
  "db_trades (sw_db (OnFulfill S ev v)) = db_trades (sw_db v)
   \<or> (\<exists>r. db_trades (sw_db (OnFulfill S ev v)) = db_trades (sw_db v) @ [r] \<and> toTrade r = stored (tradeOf ev) (tr_id r))"
  by (auto simp: OnFulfill_def repoI_def trades_Add_def InsertTrade_def toTrade_tradeParams
      split: prod.splits option.splits if_splits)

lemma operator_service: "operator_step S v v' \<Longrightarrow> service_step S v v'"
  by (cases rule: operator_step.cases) (auto intro: service_step.intros)

lemma pairs_keep_trades:
  "pairs_Add f q d = (r, d') \<Longrightarrow> db_trades d' = db_trades d"
  "pairs_Update f q d = (r, d') \<Longrightarrow> db_trades d' = db_trades d"
  "pairs_Remove f n d = (r, d') \<Longrightarrow> db_trades d' = db_trades d"
  by (auto simp: pairs_Add_def InsertPair_def pairs_Update_def UpdatePairQuery_def pairs_Remove_def
      DeletePair_def split: option.splits if_splits)

lemma operator_trades:
  assumes "operator_step S v v'"
  shows "db_trades (sw_db v') = db_trades (sw_db v)"
  using assms
proof cases
  case (1 p r)
  then show ?thesis unfolding AddPair_resolve_store
    by (auto elim!: resolve_store_effect dest: pairs_keep_trades)
next
  case (2 p r)
  then show ?thesis unfolding UpdatePair_resolve_store
    by (auto elim!: resolve_store_effect dest: pairs_keep_trades)
next
  case (3 n r)
  then show ?thesis
    by (auto simp: RemovePair_def liftI_def repoI_def split: if_splits prod.splits dest: pairs_keep_trades)
qed simp

lemma run_inv_world [simp]: "run_inv k (s\<lparr>rs_world := w\<rparr>) = run_inv k s"
  by (cases "rs_phase s") (simp_all add: run_inv_def phase_ok_def calls_ok_def split: option.split)

section \<open>A sample day\<close>

definition sample_dservice :: "unit service_env" where
  "sample_dservice = sample_service\<lparr>svc_GetAsset := Some (\<lambda>a. retI (Some [(''decimals'', ''0'')]))\<rparr>"

definition sample_pairs_db :: db where
  "sample_pairs_db = empty_db\<lparr>db_pairs := [pairParams sample_pair]\<rparr>"

lemma sample_split: "splitPair (Pair sample_pair) = Some (EncodeToString (replicate 34 5), EncodeToString (replicate 34 7))"
proof -
  have "CHR ''/'' \<notin> set (EncodeToString (replicate 34 5)) \<and> EncodeToString (replicate 34 5) \<noteq> []
    \<and> EncodeToString (replicate 34 7) \<noteq> []" by code_simp
  then show ?thesis by (simp add: splitPair_Some sample_pair_def)
qed

lemma sample_add_pair:
  "AddPair sample_dservice sample_pair \<lparr>sw_out = (), sw_db = empty_db\<rparr> = (Inr (), \<lparr>sw_out = (), sw_db = sample_pairs_db\<rparr>)"
proof -
  have "EncodeToString (replicate 34 5) \<noteq> ''BTC'' \<and> EncodeToString (replicate 34 7) \<noteq> ''BTC''" by code_simp
  moreover have "Atoi ''0'' = Inr 0" by (simp add: Atoi_def Let_def)
  moreover have "sample_pair\<lparr>BaseDecimals := 0, QuoteDecimals := 0\<rparr> = sample_pair" by (simp add: sample_pair_def)
  ultimately have "resolveDecimals sample_dservice sample_pair () = (Inr sample_pair, ())"
    by (simp add: resolveDecimals_def sample_split assetDecimals_def sample_dservice_def bindI_def retI_def
        wrapI_def liftI_def wrapArgs_def)
  moreover have "validatePair sample_pair = Inr ()"
    unfolding validatePair_Inr by (simp add: sample_split) (simp add: sample_pair_def)
  ultimately show ?thesis
    by (simp add: AddPair_def outI_def bindI_def wrapI_def liftI_def repoI_def sample_dservice_def
        sample_service_def pairs_Add_def InsertPair_def sample_pairs_db_def empty_db_def)
qed

lemma sample_daemon_config: "daemon_config sample_env sample_dservice sample_pairs_db = sample_env"
proof -
  have "repo_List sample_dservice sample_pairs_db = retI [sample_pair]"
    by (simp add: fun_eq_iff repo_List_def retI_def sample_dservice_def sample_service_def pairs_List_def
        ListPairsQuery_def sample_pairs_db_def empty_db_def)
  then show ?thesis by (simp add: daemon_config_def sample_env_def)
qed

abbreviation sample_dworld :: "unit plugin_world \<Rightarrow> unit daemon_world" where
  "sample_dworld w \<equiv> \<lparr>dw_plugin = w, dw_db = sample_pairs_db\<rparr>"

lemma sample_daemon_match:
  "\<exists>w. daemon_Match sample_env sample_dservice sample_psbt
      (sample_dworld (initWorld sample_env \<lparr>outside = (), rpcs = []\<rparr>)) = (Inr (Some sample_match), sample_dworld w)
    \<and> pw_ark w = \<lparr>outside = (), rpcs = []\<rparr> \<and> pw_events w = []"
proof -
  let ?w = "initWorld sample_env \<lparr>outside = (), rpcs = []\<rparr>"
  obtain p w where p: "NewPlugin sample_env = Inr p" "Match p (Some sample_psbt) ?w = (Inr (Some sample_match, []), w)"
    using sample_matched by blast
  from Match_silent [OF this] have "pw_ark w = \<lparr>outside = (), rpcs = []\<rparr> \<and> pw_events w = []"
    by (cases "pw_ark w") (simp add: initWorld_def)
  with p show ?thesis by (auto simp: daemon_Match_def sample_daemon_config)
qed

lemma sample_daemon_solve:
  assumes "pw_ark w = \<lparr>outside = (), rpcs = []\<rparr>" and "pw_events w = []"
  shows "\<exists>r s'. daemon_Solve sample_env sample_dservice sample_match (sample_dworld w) = (r, s')
    \<and> length (db_trades (dw_db s')) = 1"
proof -
  obtain id a where f: "FulfillOffer sample_taker sample_offer \<lparr>outside = (), rpcs = []\<rparr> = (Inr id, a)"
    using sample_fulfill by blast
  have e: "env_taker sample_env = sample_taker" "env_listener sample_env" "env_Now sample_env = retI 7"
    "bo_Offer (mo_Offer sample_match) = sample_offer"
    by (simp_all add: sample_env_def sample_match_def sample_banco_offer_def)
  obtain p where p: "NewPlugin sample_env = Inr p" and "p_solve p = fulfill (WithDefault sample_env)"
    by (simp add: NewPlugin_eq)
  then obtain ev w' where s: "Solve p Some sample_match w = (Inr (), w')" "pw_events w' = [ev]"
    using assms f e by (simp add: Solve_def fulfill_def bindI_def arkI_def extI_def retI_def onFulfill_def)
  have "length (db_trades (dw_db (store_event sample_dservice ev (sample_dworld w')))) = 1"
    by (simp add: store_event_def set_service_def dw_service_def OnFulfill_def repoI_def sample_dservice_def
        sample_service_def trades_Add_def InsertTrade_def sample_pairs_db_def empty_db_def)
  with p s assms(2) show ?thesis by (simp add: daemon_Solve_def sample_daemon_config)
qed

lemma sample_day:
  "\<exists>s. (daemon_step sample_env sample_dservice)\<^sup>*\<^sup>* (daemon_start sample_env ()) s
    \<and> length (db_trades (dw_db (rs_world s))) = 1"
proof -
  let ?P = "daemon_plugin sample_env sample_dservice" and ?s0 = "daemon_start sample_env ()"
  let ?D = "daemon_step sample_env sample_dservice"
  let ?s1 = "?s0\<lparr>rs_world := set_service \<lparr>sw_out = (), sw_db = sample_pairs_db\<rparr> (rs_world ?s0)\<rparr>"
  let ?s2 = "?s1\<lparr>rs_chan := rs_chan ?s1 @ [Some sample_psbt], rs_sent := rs_sent ?s1 @ [Some sample_psbt]\<rparr>"
  let ?s3 = "?s2\<lparr>rs_phase := after_recv (Some sample_psbt), rs_chan := [], rs_received := rs_received ?s2 @ [Some sample_psbt]\<rparr>"
  let ?s4 = "do_match [?P] sample_psbt 0 ?s3"
  let ?s5 = "do_solve [?P] 0 sample_match ?s4"
  have own: "own_step [?P] s t \<Longrightarrow> ?D s t" and env: "env_step s t \<Longrightarrow> ?D s t" for s t
    by (auto simp: run_step_def intro: daemon_step.run)
  have w3: "rs_world ?s3 = sample_dworld (initWorld sample_env \<lparr>outside = (), rpcs = []\<rparr>)"
    by (simp add: daemon_start_def run_start_def set_service_def initWorld_def)
  obtain w where w: "daemon_Match sample_env sample_dservice sample_psbt (rs_world ?s3)
      = (Inr (Some sample_match), sample_dworld w)" "pw_ark w = \<lparr>outside = (), rpcs = []\<rparr>" "pw_events w = []"
    using sample_daemon_match w3 by metis
  then have s4: "rs_world ?s4 = sample_dworld w" "rs_inflight ?s4 = add_mset (0, sample_match) (rs_inflight ?s3)"
    by (simp_all add: do_match_def end_match_def safeMatch_def daemon_plugin_def)
  have "dw_service (rs_world ?s0) = \<lparr>sw_out = (), sw_db = empty_db\<rparr>"
    by (simp add: daemon_start_def run_start_def dw_service_def initWorld_def)
  then have "?D ?s0 ?s1"
    using daemon_step.operate operator_step.intros(1) [OF sample_add_pair] by metis
  moreover have "?D ?s1 ?s2" by (rule env, rule env_step.send) (simp add: daemon_start_def run_start_def)
  moreover have "?D ?s2 ?s3"
    by (rule own, rule own_step.recv) (simp_all add: daemon_start_def run_start_def)
  moreover have "?D ?s3 ?s4" by (rule own, rule own_step.match) (simp_all add: after_recv_def)
  moreover have "?D ?s4 ?s5" by (rule own, rule own_step.solve, unfold s4(2)) simp
  ultimately have "?D\<^sup>*\<^sup>* ?s0 ?s5" by (meson converse_rtranclp_into_rtranclp rtranclp.rtrancl_refl)
  moreover have "length (db_trades (dw_db (rs_world ?s5))) = 1"
  proof -
    obtain r s' where "daemon_Solve sample_env sample_dservice sample_match (sample_dworld w) = (r, s')"
      "length (db_trades (dw_db s')) = 1" using sample_daemon_solve [OF w(2,3)] by blast
    then show ?thesis
      unfolding do_solve_def end_solve_def safeSolve_def daemon_plugin_def [of sample_env sample_dservice]
        s4(1) [unfolded daemon_plugin_def [of sample_env sample_dservice]]
      by (cases r) simp_all
  qed
  ultimately show ?thesis by blast
qed

end
