(* ===== verification/PriceFeed.thy ===== *)
theory PriceFeed
  imports Float64
begin

text \<open>
  The price feed of the daemon: \<^verbatim>\<open>internal/infrastructure/pricefeed/coingecko.go\<close>.

  The HTTP client and the JSON decoder are fields of \<open>feed_client\<close>: the request made from a URL, the reply
  (a status, and the body or the error of reading it), and the nested map in a body, as an association
  list. Go ranges over a map in an order of its own: \<open>coins_order\<close> and \<open>prices_order\<close> are the orders of
  the two loops.
\<close>

type_synonym price_map = "(string \<times> (string \<times> f64) list) list"

record http_reply =
  StatusCode :: int
  ReadAll :: "bytes result"

record 'w feed_client =
  NewRequest :: "string \<Rightarrow> unit result"
  client_Do :: "string \<Rightarrow> ('w, http_reply) io"
  Unmarshal :: "bytes \<Rightarrow> price_map result"
  coins_order :: "price_map \<Rightarrow> price_map"
  prices_order :: "(string \<times> f64) list \<Rightarrow> (string \<times> f64) list"

text \<open>Both loops return at the first price they meet; a coin without prices is passed over.\<close>

fun firstPrice :: "((string \<times> f64) list \<Rightarrow> (string \<times> f64) list) \<Rightarrow> price_map \<Rightarrow> f64 option" where
  "firstPrice ord [] = None"
| "firstPrice ord ((coin, currencies) # coins) = (case ord currencies of
     (currency, price) # _ \<Rightarrow> Some price | [] \<Rightarrow> firstPrice ord coins)"

definition Fetch :: "'w feed_client \<Rightarrow> string \<Rightarrow> ('w, f64) io" where
  "Fetch C feedURL =
     bindI (liftI (wrapR ''failed to create request'' (NewRequest C feedURL))) (\<lambda>_.
     bindI (wrapI ''failed to fetch price'' (client_Do C feedURL)) (\<lambda>resp.
     if StatusCode resp \<noteq> 200 then liftI (failR (ErrFmt ''unexpected status code: %d'' [ArgInt (StatusCode resp)]))
     else bindI (liftI (wrapR ''failed to read response'' (ReadAll resp))) (\<lambda>body.
       bindI (liftI (wrapR ''failed to parse response'' (Unmarshal C body))) (\<lambda>result.
         case firstPrice (prices_order C) (coins_order C result) of
           Some price \<Rightarrow> retI price
         | None \<Rightarrow> liftI (failR (ErrNew ''no price found in response''))))))"

section \<open>The price that is returned\<close>

definition prices_in :: "price_map \<Rightarrow> f64 set" where
  "prices_in m = (\<Union>c \<in> set m. snd ` set (snd c))"

lemma prices_in_simps [simp]: "prices_in [] = {}" "prices_in (c # cs) = snd ` set (snd c) \<union> prices_in cs"
  by (simp_all add: prices_in_def)

lemma firstPrice_Some:
  assumes "\<And>cs. set (ord cs) = set cs"
  shows "firstPrice ord m = Some p \<Longrightarrow> p \<in> prices_in m"
proof (induction m)
  case (Cons c m)
  show ?case
  proof (cases "ord (snd c)")
    case (Cons x xs)
    then have "x \<in> set (snd c)" using assms [of "snd c"] by auto
    with Cons Cons.prems show ?thesis by (cases c; cases x) force
  qed (use Cons in \<open>cases c; simp\<close>)
qed simp

lemma firstPrice_None:
  assumes "\<And>cs. set (ord cs) = set cs"
  shows "firstPrice ord m = None \<longleftrightarrow> prices_in m = {}"
proof (induction m)
  case (Cons c m)
  have "ord (snd c) = [] \<longleftrightarrow> snd c = []" using assms [of "snd c"] by (metis set_empty)
  with Cons show ?case by (cases c; cases "ord (snd c)") auto
qed simp

definition orders :: "(price_map \<Rightarrow> price_map) \<Rightarrow> ((string \<times> f64) list \<Rightarrow> (string \<times> f64) list) \<Rightarrow> bool" where
  "orders co po \<longleftrightarrow> (\<forall>m. mset (co m) = mset m) \<and> (\<forall>cs. mset (po cs) = mset cs)"

definition orders_ok :: "'w feed_client \<Rightarrow> bool" where
  "orders_ok C \<longleftrightarrow> orders (coins_order C) (prices_order C)"

lemma orders_sets: "orders co po \<Longrightarrow> set (co m) = set m \<and> set (po cs) = set cs"
  by (metis orders_def set_mset_mset)

lemma orders_prices: "orders co po \<Longrightarrow> prices_in (co m) = prices_in m"
  by (simp add: prices_in_def orders_sets)

text \<open>A fetched price is one of those in the reply, which had status 200.\<close>

lemma Fetch_Inr:
  assumes "orders_ok C" and "Fetch C url w = (Inr p, w')"
  obtains resp body m where "client_Do C url w = (Inr resp, w')" and "StatusCode resp = 200"
    and "ReadAll resp = Inr body" and "Unmarshal C body = Inr m" and "p \<in> prices_in m"
proof -
  obtain resp body m where r: "client_Do C url w = (Inr resp, w')" "StatusCode resp = 200"
    "ReadAll resp = Inr body" "Unmarshal C body = Inr m" "firstPrice (prices_order C) (coins_order C m) = Some p"
    using assms(2) by (auto simp: Fetch_def result_simps split: if_splits option.splits)
  from assms(1) have o: "orders (coins_order C) (prices_order C)" by (simp add: orders_ok_def)
  then have "p \<in> prices_in (coins_order C m)" using firstPrice_Some [OF _ r(5)] orders_sets by blast
  with orders_prices [OF o] that [OF r(1-4)] show ?thesis by simp
qed

text \<open>Any price of the reply is first in some order.\<close>

definition to_front :: "'a \<Rightarrow> 'a list \<Rightarrow> 'a list" where
  "to_front x xs = (if x \<in> set xs then x # remove1 x xs else xs)"

lemma orders_to_front: "orders (to_front c) (to_front x)"
  by (simp add: orders_def to_front_def)

lemma firstPrice_some_order:
  assumes "p \<in> prices_in m"
  shows "\<exists>co po. orders co po \<and> firstPrice po (co m) = Some p"
proof -
  from assms obtain c x where c: "c \<in> set m" "x \<in> set (snd c)" "p = snd x" by (auto simp: prices_in_def)
  then have "to_front c m = c # remove1 c m" "to_front x (snd c) = x # remove1 x (snd c)"
    by (simp_all add: to_front_def)
  then have "firstPrice (to_front x) (to_front c m) = Some p" using c(3) by (cases c; cases x) simp
  with orders_to_front show ?thesis by blast
qed

text \<open>A feed that always replies with one coin of two prices.\<close>

definition sample_feed :: "unit feed_client" where
  "sample_feed = \<lparr>NewRequest = \<lambda>u. Inr (), client_Do = \<lambda>u. retI \<lparr>StatusCode = 200, ReadAll = Inr []\<rparr>,
     Unmarshal = \<lambda>b. Inr [(''bitcoin'', [(''usd'', Fin 5), (''eur'', Fin 4)])], coins_order = (\<lambda>m. m), prices_order = (\<lambda>cs. cs)\<rparr>"

section \<open>Property\<close>

text \<open>C19. What Fetch returns for a readable reply of status 200, over all the orders in which Go may range
  over the two maps: exactly the prices anywhere in the reply, so with several coins or currencies any of
  them; and the error that there is none exactly if the reply has no price.\<close>

theorem fetched_prices:
  assumes "NewRequest C url = Inr ()" and "client_Do C url w = (Inr \<lparr>StatusCode = 200, ReadAll = Inr body\<rparr>, w')"
    and "Unmarshal C body = Inr m"
  shows "{r. \<exists>co po. orders co po \<and> Fetch (C\<lparr>coins_order := co, prices_order := po\<rparr>) url w = (r, w')}
    = (if prices_in m = {} then {failR (ErrNew ''no price found in response'')} else Inr ` prices_in m)"
proof -
  let ?F = "\<lambda>co po. Fetch (C\<lparr>coins_order := co, prices_order := po\<rparr>) url w"
  have F: "?F co po = ((case firstPrice po (co m) of Some p \<Rightarrow> Inr p
      | None \<Rightarrow> failR (ErrNew ''no price found in response'')), w')" for co po
    using assms by (simp add: Fetch_def bindI_def liftI_def wrapI_def retI_def split: option.split)
  have some: "p \<in> prices_in m" if "orders co po" "firstPrice po (co m) = Some p" for co po p
    using firstPrice_Some [OF _ that(2)] orders_sets [OF that(1)] orders_prices [OF that(1)] by blast
  have none: "firstPrice po (co m) = None \<longleftrightarrow> prices_in m = {}" if "orders co po" for co po
    using firstPrice_None [of po "co m"] orders_sets [OF that] orders_prices [OF that] by simp
  show ?thesis
  proof (cases "prices_in m = {}")
    case True
    with F none have "?F co po = (failR (ErrNew ''no price found in response''), w')" if "orders co po" for co po
      using that by simp
    moreover have "orders (\<lambda>m. m) (\<lambda>cs. cs)" by (simp add: orders_def)
    ultimately show ?thesis using True by force
  next
    case False
    have "(\<exists>co po. orders co po \<and> ?F co po = (r, w')) \<longleftrightarrow> r \<in> Inr ` prices_in m" for r
    proof
      assume "\<exists>co po. orders co po \<and> ?F co po = (r, w')"
      then obtain co po where o: "orders co po" "?F co po = (r, w')" by blast
      with none False obtain p where p: "firstPrice po (co m) = Some p" by blast
      with some [OF o(1) p] F o(2) show "r \<in> Inr ` prices_in m" by auto
    next
      assume "r \<in> Inr ` prices_in m"
      then obtain p where r: "r = Inr p" "p \<in> prices_in m" by blast
      with firstPrice_some_order [OF r(2)] F show "\<exists>co po. orders co po \<and> ?F co po = (r, w')" by fastforce
    qed
    with False show ?thesis by simp
  qed
qed

theorem fetched_prices_witness:
  "{r. \<exists>co po. orders co po \<and> Fetch (sample_feed\<lparr>coins_order := co, prices_order := po\<rparr>) ''url'' () = (r, ())}
   = {Inr (Fin 5), Inr (Fin 4)}"
  using fetched_prices [of sample_feed "''url''" "()" "[]" "()" "[(''bitcoin'', [(''usd'', Fin 5), (''eur'', Fin 4)])]"]
  by (auto simp: sample_feed_def retI_def)

end
