(* ===== verification/GoURL.thy ===== *)
theory GoURL
  imports GoLib
begin

text \<open>
  Paths in the Go standard library: \<^verbatim>\<open>path.Clean\<close> (and \<^verbatim>\<open>filepath.Join\<close> on Unix), the escaping of a path
  segment in \<^verbatim>\<open>net/url\<close>, and what the \<^verbatim>\<open>ServeMux\<close> of \<^verbatim>\<open>net/http\<close> makes of the path of a request.
\<close>

section \<open>Cutting and joining\<close>

fun split_on :: "char \<Rightarrow> string \<Rightarrow> string list" where
  "split_on c [] = [[]]"
| "split_on c (x # xs) = (if x = c then [] # split_on c xs
     else (case split_on c xs of p # ps \<Rightarrow> (x # p) # ps | [] \<Rightarrow> [[x]]))"

fun join_with :: "char \<Rightarrow> string list \<Rightarrow> string" where
  "join_with c [] = []"
| "join_with c [s] = s"
| "join_with c (s # t # ss) = s @ c # join_with c (t # ss)"

lemma split_on_single: "c \<notin> set s \<Longrightarrow> split_on c s = [s]"
  by (induction s) auto

lemma split_on_append: "c \<notin> set s \<Longrightarrow> split_on c (s @ c # t) = s # split_on c t"
  by (induction s) auto

lemma split_on_join:
  "ps \<noteq> [] \<Longrightarrow> list_all (\<lambda>p. c \<notin> set p) ps \<Longrightarrow> split_on c (join_with c ps) = ps"
  by (induction c ps rule: join_with.induct) (simp_all add: split_on_single split_on_append)

definition HasSuffix :: "string \<Rightarrow> string \<Rightarrow> bool" where
  "HasSuffix s suffix \<longleftrightarrow> length suffix \<le> length s \<and> drop (length s - length suffix) s = suffix"

section \<open>Clean paths\<close>

text \<open>The loop of \<^verbatim>\<open>Clean\<close>; the elements kept so far are on a stack.\<close>

fun clean_elems :: "bool \<Rightarrow> string list \<Rightarrow> string list \<Rightarrow> string list" where
  "clean_elems rooted st [] = rev st"
| "clean_elems rooted st (e # es) =
     (if e = [] \<or> e = ''.'' then clean_elems rooted st es
      else if e = ''..'' then
        (case st of
           t # ts \<Rightarrow> if t = ''..'' then clean_elems rooted (e # st) es else clean_elems rooted ts es
         | [] \<Rightarrow> if rooted then clean_elems rooted [] es else clean_elems rooted [e] es)
      else clean_elems rooted (e # st) es)"

definition path_Clean :: "string \<Rightarrow> string" where
  "path_Clean p = (if p = [] then ''.''
     else let rooted = hd p = CHR ''/'';
              s = join_with CHR ''/'' (clean_elems rooted [] (split_on CHR ''/'' p))
          in if rooted then CHR ''/'' # s else if s = [] then ''.'' else s)"

definition filepath_Join :: "string list \<Rightarrow> string" where
  "filepath_Join elems = (let es = filter (\<lambda>e. e \<noteq> []) elems in
     if es = [] then [] else path_Clean (join_with CHR ''/'' es))"

text \<open>An element that \<^verbatim>\<open>Clean\<close> keeps as it is.\<close>

definition plain_elem :: "string \<Rightarrow> bool" where
  "plain_elem e \<longleftrightarrow> e \<noteq> [] \<and> e \<noteq> ''.'' \<and> e \<noteq> ''..'' \<and> CHR ''/'' \<notin> set e"

lemma clean_elems_plain: "list_all plain_elem es \<Longrightarrow> clean_elems rooted st es = rev st @ es"
  by (induction es arbitrary: st) (simp_all add: plain_elem_def)

lemma path_Clean_plain:
  assumes "es \<noteq> []" and "list_all plain_elem es"
  shows "path_Clean (CHR ''/'' # join_with CHR ''/'' es) = CHR ''/'' # join_with CHR ''/'' es"
proof -
  have "list_all (\<lambda>p. CHR ''/'' \<notin> set p) es"
    using assms(2) by (simp add: list_all_iff plain_elem_def)
  with assms show ?thesis by (simp add: path_Clean_def split_on_join clean_elems_plain)
qed

section \<open>Escaping a segment\<close>

definition shouldEscape :: "char \<Rightarrow> bool" where
  "shouldEscape c = (let n = of_char c :: nat in
     \<not> (48 \<le> n \<and> n \<le> 57 \<or> 65 \<le> n \<and> n \<le> 90 \<or> 97 \<le> n \<and> n \<le> 122 \<or> c \<in> set ''-_.~$&+:=@''))"

definition upperhex :: "nat \<Rightarrow> char" where
  "upperhex n = (if n < 10 then char_of (48 + n) else char_of (55 + n))"

definition escape_char :: "char \<Rightarrow> string" where
  "escape_char c = (if shouldEscape c
     then let n = of_char c :: nat in [CHR ''%'', upperhex (n div 16), upperhex (n mod 16)] else [c])"

definition PathEscape :: "string \<Rightarrow> string" where
  "PathEscape s = concat (map escape_char s)"

definition EscapeError :: "string \<Rightarrow> goerr" where
  "EscapeError s = ErrFmt ''invalid URL escape %q'' [ArgStr (take 3 s)]"

fun PathUnescape :: "string \<Rightarrow> string result" where
  "PathUnescape [] = Inr []"
| "PathUnescape (c # s) =
     (if c = CHR ''%'' then
        (case s of
           a # b # t \<Rightarrow> (case (fromHexChar a, fromHexChar b) of
             (Some m, Some n) \<Rightarrow> bindR (PathUnescape t) (\<lambda>r. Inr (char_of (m * 16 + n) # r))
           | _ \<Rightarrow> failR (EscapeError (c # s)))
         | _ \<Rightarrow> failR (EscapeError (c # s)))
      else bindR (PathUnescape s) (\<lambda>r. Inr (c # r)))"

lemma hex_digits: "(of_char c :: nat) div 16 < 16" "(of_char c :: nat) mod 16 < 16"
proof -
  have "(of_char c :: nat) < 256"
    using of_char_mod_256 [of c, where ?'a = nat] by (metis mod_less_divisor zero_less_numeral)
  then show "(of_char c :: nat) div 16 < 16" by (intro less_mult_imp_div_less) simp
qed simp

lemma fromHexChar_upperhex [simp]: "n < 16 \<Longrightarrow> fromHexChar (upperhex n) = Some n"
  by (auto simp: fromHexChar_def upperhex_def Let_def)

lemma percent_escaped: "\<not> shouldEscape c \<Longrightarrow> c \<noteq> CHR ''%''"
  by (auto simp: shouldEscape_def)

lemma PathUnescape_escape_char: "PathUnescape (escape_char c @ s) = bindR (PathUnescape s) (\<lambda>r. Inr (c # r))"
proof (cases "shouldEscape c")
  case True
  then show ?thesis by (simp add: escape_char_def Let_def hex_digits)
qed (simp add: escape_char_def percent_escaped)

lemma PathUnescape_PathEscape [codec_simps]: "PathUnescape (PathEscape s) = Inr s"
  by (induction s) (simp_all add: PathEscape_def PathUnescape_escape_char)

interpretation segment: byte_codec PathEscape PathUnescape "\<lambda>_. True"
  by unfold_locales (simp add: PathUnescape_PathEscape)

lemma upperhex_not_slash: "n < 16 \<Longrightarrow> upperhex n \<noteq> CHR ''/''"
proof -
  assume "n < 16"
  then have "fromHexChar (upperhex n) \<noteq> None" by simp
  then show ?thesis by (auto simp: fromHexChar_def)
qed

lemma PathEscape_slash: "CHR ''/'' \<notin> set (PathEscape s)"
proof -
  have "CHR ''/'' \<notin> set (escape_char c)" for c
  proof (cases "shouldEscape c")
    case True
    then show ?thesis by (simp add: escape_char_def Let_def hex_digits upperhex_not_slash [symmetric])
  next
    case False
    have "shouldEscape (CHR ''/'')" by (simp add: shouldEscape_def)
    with False show ?thesis by (auto simp: escape_char_def)
  qed
  then show ?thesis by (auto simp: PathEscape_def)
qed

lemma PathEscape_plain: "plain_elem (PathEscape s) \<longleftrightarrow> s \<noteq> [] \<and> s \<noteq> ''.'' \<and> s \<noteq> ''..''"
proof -
  have e: "PathEscape [] = []" "PathEscape ''.'' = ''.''" "PathEscape ''..'' = ''..''" by code_simp+
  show ?thesis
    using segment.enc_inj [of s "[]"] segment.enc_inj [of s "''.''"] segment.enc_inj [of s "''..''"]
      PathEscape_slash [of s] by (auto simp: plain_elem_def e)
qed

section \<open>The path of a request\<close>

text \<open>\<^verbatim>\<open>cleanPath\<close> of \<^verbatim>\<open>net/http\<close>, which keeps a trailing slash.\<close>

definition cleanPath :: "string \<Rightarrow> string" where
  "cleanPath p = (if p = [] then ''/'' else
     let q = (if hd p = CHR ''/'' then p else CHR ''/'' # p); np = path_Clean q
     in if last q = CHR ''/'' \<and> np \<noteq> ''/'' then np @ ''/'' else np)"

definition pathUnescape :: "string \<Rightarrow> string" where
  "pathUnescape s = (case PathUnescape s of Inr t \<Rightarrow> t | Inl _ \<Rightarrow> s)"

text \<open>What the patterns are matched against: the segments, each unescaped, unless the path is not clean,
  when the mux redirects.\<close>

definition mux_segments :: "string \<Rightarrow> string list option" where
  "mux_segments p = (if cleanPath p = p then Some (map pathUnescape (split_on CHR ''/'' (tl p))) else None)"

lemma last_join: "es \<noteq> [] \<Longrightarrow> list_all plain_elem es \<Longrightarrow> join_with c es \<noteq> [] \<and> last (join_with c es) = last (last es)"
  by (induction c es rule: join_with.induct) (auto simp: plain_elem_def)

lemma mux_segments_plain:
  assumes "es \<noteq> []" and "list_all plain_elem es"
  shows "mux_segments (CHR ''/'' # join_with CHR ''/'' es) = Some (map pathUnescape es)"
proof -
  have "plain_elem (last es)" using assms by (simp add: list_all_iff)
  then have "last (last es) \<noteq> CHR ''/''" by (metis plain_elem_def last_in_set)
  with last_join [OF assms] have "cleanPath (CHR ''/'' # join_with CHR ''/'' es) = CHR ''/'' # join_with CHR ''/'' es"
    by (simp add: cleanPath_def path_Clean_plain [OF assms])
  moreover have "list_all (\<lambda>p. CHR ''/'' \<notin> set p) es"
    using assms(2) by (simp add: list_all_iff plain_elem_def)
  ultimately show ?thesis by (simp add: mux_segments_def split_on_join [OF assms(1)])
qed

end
