(* ===== verification/Cli.thy ===== *)
theory Cli
  imports Api GoURL
begin

text \<open>
  The command line client, \<^verbatim>\<open>cmd/banco/main.go\<close>: the flags of a command become a request to the HTTP
  gateway of the daemon, and its response is printed or becomes an error.

  Parsing of the command line (\<^verbatim>\<open>urfave/cli\<close>) is left out: a command comes with the values of its flags.
  The network, and turning a JSON value into text and back, are parameters. A request is made of a method,
  a URL and a body; the response of the client has the text of the body, or the error of reading it.
\<close>

section \<open>The command line client\<close>

record pair_flags =
  pf_pair :: string
  pf_min :: u64
  pf_max :: u64
  pf_base_decimals :: int
  pf_quote_decimals :: int
  pf_price_feed :: string
  pf_invert_price :: bool

datatype json = JStr string | JNum int | JBool bool | JObj "(string \<times> json) list"

datatype cli_command = PairAdd pair_flags | PairUpdate pair_flags | PairRemove string | PairList
  | CliStatus | CliBalance | CliAddress

record cli_response =
  cr_StatusCode :: nat
  cr_Body :: "string result"

record 'w http_env =
  Marshal :: "json \<Rightarrow> bytes result"
  NewRequest :: "string \<Rightarrow> string \<Rightarrow> unit result"
  Do :: "string \<Rightarrow> string \<Rightarrow> bytes \<Rightarrow> ('w, cli_response) io"
  Indent :: "string \<Rightarrow> string option"

text \<open>The map of the flags; its entries have no order.\<close>

definition parsePairFlags :: "pair_flags \<Rightarrow> json" where
  "parsePairFlags f = JObj
     [(''pair'', JStr (pf_pair f)), (''min_amount'', JNum (uint (pf_min f))), (''max_amount'', JNum (uint (pf_max f))),
      (''base_decimals'', JNum (pf_base_decimals f)), (''quote_decimals'', JNum (pf_quote_decimals f)),
      (''price_feed'', JStr (pf_price_feed f)), (''invert_price'', JBool (pf_invert_price f))]"

definition printResponse :: "'w http_env \<Rightarrow> cli_response \<Rightarrow> string result" where
  "printResponse H resp = bindR (wrapR ''failed to read response'' (cr_Body resp)) (\<lambda>body.
     if 400 \<le> cr_StatusCode resp
     then failR (ErrFmt ''server error (%d): %s'' [ArgInt (int (cr_StatusCode resp)), ArgStr body])
     else Inr (case Indent H body of None \<Rightarrow> body | Some pretty \<Rightarrow> pretty))"

definition doGet :: "'w http_env \<Rightarrow> string \<Rightarrow> string \<Rightarrow> ('w, string) io" where
  "doGet H server path =
     bindI (wrapI ''request failed'' (bindI (liftI (NewRequest H ''GET'' (server @ path))) (\<lambda>_.
       Do H ''GET'' (server @ path) []))) (\<lambda>resp. liftI (printResponse H resp))"

definition doDelete :: "'w http_env \<Rightarrow> string \<Rightarrow> string \<Rightarrow> ('w, string) io" where
  "doDelete H server path =
     bindI (liftI (NewRequest H ''DELETE'' (server @ path))) (\<lambda>_.
     bindI (wrapI ''request failed'' (Do H ''DELETE'' (server @ path) [])) (\<lambda>resp.
       liftI (printResponse H resp)))"

definition doJSON :: "'w http_env \<Rightarrow> string \<Rightarrow> string \<Rightarrow> string \<Rightarrow> json \<Rightarrow> ('w, string) io" where
  "doJSON H server m path body =
     bindI (liftI (Marshal H body)) (\<lambda>jsonBytes.
     bindI (liftI (NewRequest H m (server @ path))) (\<lambda>_.
     bindI (wrapI ''request failed'' (Do H m (server @ path) jsonBytes)) (\<lambda>resp.
       liftI (printResponse H resp))))"

text \<open>The actions of the commands.\<close>

definition cli_run :: "'w http_env \<Rightarrow> string \<Rightarrow> cli_command \<Rightarrow> ('w, string) io" where
  "cli_run H server cmd = (case cmd of
     PairAdd f \<Rightarrow> doJSON H server ''POST'' ''/v1/pair'' (JObj [(''pair'', parsePairFlags f)])
   | PairUpdate f \<Rightarrow> doJSON H server ''PUT'' ''/v1/pair'' (JObj [(''pair'', parsePairFlags f)])
   | PairRemove name \<Rightarrow> doDelete H server (''/v1/pair/'' @ PathEscape name)
   | PairList \<Rightarrow> doGet H server ''/v1/pairs''
   | CliStatus \<Rightarrow> doGet H server ''/v1/status''
   | CliBalance \<Rightarrow> doGet H server ''/v1/balance''
   | CliAddress \<Rightarrow> doGet H server ''/v1/address'')"

definition cli_exit :: "string result \<Rightarrow> nat" where
  "cli_exit r = (case r of Inr out \<Rightarrow> 0 | Inl (Error e) \<Rightarrow> 1 | Inl (Panic p) \<Rightarrow> 2)"

section \<open>The path of a request and back\<close>

definition good_name :: "string \<Rightarrow> bool" where
  "good_name n \<longleftrightarrow> n \<noteq> [] \<and> n \<noteq> ''.'' \<and> n \<noteq> ''..''"

definition url_path :: "string list \<Rightarrow> string" where
  "url_path names = CHR ''/'' # join_with CHR ''/'' (map PathEscape names)"

lemma pathUnescape_PathEscape: "pathUnescape (PathEscape s) = s"
  by (simp add: pathUnescape_def PathUnescape_PathEscape)

lemma mux_segments_url_path:
  assumes "names \<noteq> []" and "list_all good_name names"
  shows "mux_segments (url_path names) = Some names"
proof -
  have "list_all plain_elem (map PathEscape names)"
    using assms(2) by (simp add: list_all_iff PathEscape_plain good_name_def)
  from mux_segments_plain [OF _ this] assms(1) show ?thesis
    by (simp add: url_path_def pathUnescape_PathEscape map_idI)
qed

lemma url_path_fixed:
  "url_path [''v1'', ''pair''] = ''/v1/pair''" "url_path [''v1'', ''pairs''] = ''/v1/pairs''"
  "url_path [''v1'', ''status''] = ''/v1/status''" "url_path [''v1'', ''balance''] = ''/v1/balance''"
  "url_path [''v1'', ''address''] = ''/v1/address''"
  by code_simp+

lemma url_path_remove: "url_path [''v1'', ''pair'', name] = ''/v1/pair/'' @ PathEscape name"
proof -
  have "PathEscape ''v1'' = ''v1''" "PathEscape ''pair'' = ''pair''" by code_simp+
  then show ?thesis by (simp add: url_path_def)
qed

section \<open>The client at the gateway\<close>

text \<open>How \<^verbatim>\<open>encoding/json\<close> fills the request from an object with keys among those of its tags and unknown
  ones, which it ignores; a key that is missing leaves the zero value.\<close>

definition ErrJson :: goerr where
  "ErrJson = ErrExt ''json: cannot unmarshal''"

definition json_string :: "(string \<times> json) list \<Rightarrow> string \<Rightarrow> string result" where
  "json_string kvs k = (case map_of kvs k of None \<Rightarrow> Inr [] | Some (JStr s) \<Rightarrow> Inr s | _ \<Rightarrow> failR ErrJson)"

definition json_uint64 :: "(string \<times> json) list \<Rightarrow> string \<Rightarrow> u64 result" where
  "json_uint64 kvs k = (case map_of kvs k of None \<Rightarrow> Inr 0
     | Some (JNum n) \<Rightarrow> if 0 \<le> n \<and> n < 2 ^ 64 then Inr (of_int n) else failR ErrJson | _ \<Rightarrow> failR ErrJson)"

definition json_bool :: "(string \<times> json) list \<Rightarrow> string \<Rightarrow> bool result" where
  "json_bool kvs k = (case map_of kvs k of None \<Rightarrow> Inr False | Some (JBool b) \<Rightarrow> Inr b | _ \<Rightarrow> failR ErrJson)"

definition json_PairInfo :: "(string \<times> json) list \<Rightarrow> PairInfo result" where
  "json_PairInfo kvs =
     bindR (json_string kvs ''pair'') (\<lambda>p. bindR (json_uint64 kvs ''min_amount'') (\<lambda>lo.
     bindR (json_uint64 kvs ''max_amount'') (\<lambda>hi. bindR (json_string kvs ''price_feed'') (\<lambda>feed.
     bindR (json_bool kvs ''invert_price'') (\<lambda>inv.
       Inr \<lparr>pi_Pair = p, pi_MinAmount = lo, pi_MaxAmount = hi, pi_PriceFeed = feed, pi_InvertPrice = inv\<rparr>)))))"

definition json_request :: "json \<Rightarrow> PairInfo option result" where
  "json_request v = (case v of
     JObj kvs \<Rightarrow> (case map_of kvs ''pair'' of None \<Rightarrow> Inr None
       | Some (JObj fs) \<Rightarrow> bindR (json_PairInfo fs) (\<lambda>p. Inr (Some p)) | _ \<Rightarrow> failR ErrJson)
   | _ \<Rightarrow> failR ErrJson)"

definition flags_info :: "pair_flags \<Rightarrow> PairInfo" where
  "flags_info f = \<lparr>pi_Pair = pf_pair f, pi_MinAmount = pf_min f, pi_MaxAmount = pf_max f,
     pi_PriceFeed = pf_price_feed f, pi_InvertPrice = pf_invert_price f\<rparr>"

lemma json_request_flags: "json_request (JObj [(''pair'', parsePairFlags f)]) = Inr (Some (flags_info f))"
proof -
  have "uint v < 2 ^ 64" for v :: u64 using uint_bounded [of v] by simp
  then show ?thesis
    by (simp add: json_request_def parsePairFlags_def json_PairInfo_def json_string_def json_uint64_def
        json_bool_def flags_info_def)
qed

text \<open>Text made by \<^verbatim>\<open>Marshal\<close> is read back as above; cut short, it is an error.\<close>

definition decodes :: "'w svc_world http_env \<Rightarrow> 'w gateway \<Rightarrow> bool" where
  "decodes H G \<longleftrightarrow> (\<forall>v b. Marshal H v = Inr b \<longrightarrow>
     (if length b \<le> maxRequestBodySize then gw_Decode G b False = json_request v
      else \<exists>e. gw_Decode G (take maxRequestBodySize b) True = failR e))"

text \<open>The network brings a request for a clean path to the gateway and its response back; a dropped
  connection is an error. \<open>text\<close> is the body of a response.\<close>

definition delivers :: "'w svc_world http_env \<Rightarrow> string \<Rightarrow> 'w gateway \<Rightarrow> (payload \<Rightarrow> string) \<Rightarrow> bool" where
  "delivers H server G text \<longleftrightarrow> (\<forall>m names body w. names \<noteq> [] \<and> list_all good_name names \<longrightarrow>
     NewRequest H m (server @ url_path names) = Inr () \<and>
     (case newHTTPGateway G \<lparr>rq_method = m, rq_path = the (mux_segments (url_path names)), rq_limit = [], rq_body = body\<rparr> w of
        (None, w') \<Rightarrow> \<exists>e. Do H m (server @ url_path names) body w = (failR e, w')
      | (Some r, w') \<Rightarrow> Do H m (server @ url_path names) body w
          = (Inr \<lparr>cr_StatusCode = resp_Code r, cr_Body = Inr (text (resp_Body r))\<rparr>, w')))"

lemma delivered:
  assumes "delivers H server G text" and "names \<noteq> []" and "list_all good_name names"
    and "bindI (wrapI msg (Do H m (server @ url_path names) body)) (\<lambda>resp. liftI (printResponse H resp)) w = (r, w')"
  obtains resp where
    "newHTTPGateway G \<lparr>rq_method = m, rq_path = names, rq_limit = [], rq_body = body\<rparr> w = (Some resp, w')"
    "resp_Code resp < 400" "\<not> isl r"
  | e resp where
    "newHTTPGateway G \<lparr>rq_method = m, rq_path = names, rq_limit = [], rq_body = body\<rparr> w = (resp, w')"
    "\<forall>x. resp = Some x \<longrightarrow> 400 \<le> resp_Code x" "r = failR e"
proof -
  obtain resp w1 where g: "newHTTPGateway G \<lparr>rq_method = m, rq_path = names, rq_limit = [], rq_body = body\<rparr> w = (resp, w1)"
    by fastforce
  have d: "case resp of None \<Rightarrow> \<exists>e. Do H m (server @ url_path names) body w = (failR e, w1)
      | Some x \<Rightarrow> Do H m (server @ url_path names) body w
          = (Inr \<lparr>cr_StatusCode = resp_Code x, cr_Body = Inr (text (resp_Body x))\<rparr>, w1)"
    using spec [OF spec [OF spec [OF spec [OF assms(1) [unfolded delivers_def], of m], of names], of body], of w] assms(2,3) g
    by (simp add: mux_segments_url_path)
  show thesis
  proof (cases resp)
    case None
    with d assms(4) g that(2) show thesis by (auto simp: bindI_def wrapI_def)
  next
    case (Some x)
    with d assms(4) have *: "r = printResponse H \<lparr>cr_StatusCode = resp_Code x, cr_Body = Inr (text (resp_Body x))\<rparr>" "w' = w1"
      by (auto simp: bindI_def wrapI_def liftI_def)
    show thesis
    proof (cases "resp_Code x < 400")
      case True
      with * g Some that(1) show thesis by (simp add: printResponse_def)
    next
      case False
      with * g Some that(2) show thesis by (simp add: printResponse_def)
    qed
  qed
qed

lemma good_segments: "list_all good_name [''v1'', ''pair'']" "list_all good_name [''v1'', ''pairs'']"
  "list_all good_name [''v1'', ''status'']" "list_all good_name [''v1'', ''balance'']"
  "list_all good_name [''v1'', ''address'']" "good_name n \<Longrightarrow> list_all good_name [''v1'', ''pair'', n]"
  by (simp_all add: good_name_def)

lemma request_made: "delivers H server G text \<Longrightarrow> names \<noteq> [] \<Longrightarrow> list_all good_name names \<Longrightarrow>
    NewRequest H m (server @ url_path names) = Inr ()"
  by (simp add: delivers_def)

section \<open>The effect of a command\<close>

lemma handler_UpdatePair_cases:
  assumes "service_inv w" and "handler_UpdatePair S req w = (r, w')"
  obtains p where "r = Response ()" and "req = Some p" and "pairs_view (sw_db w) (pi_Pair p) \<noteq> None"
      and "stores (protoToDomain p) (sw_db w) (sw_db w')"
  | "r \<noteq> Response ()" and "pairs_view (sw_db w') = pairs_view (sw_db w)"
proof (cases req)
  case None
  with assms(2) that(2) show ?thesis by (auto simp: handler_UpdatePair_def)
next
  case (Some p)
  obtain a where a: "UpdatePair S (protoToDomain p) w = (a, w')" "r = Response () \<longleftrightarrow> a = Inr ()"
    using assms(2) Some by (cases "UpdatePair S (protoToDomain p) w")
      (auto simp: handler_UpdatePair_def status_of_def split: sum.splits failure.splits if_splits)
  have inv: "pairs_inv (sw_db w)" using assms(1) by (simp add: service_inv_def)
  have "if a = Inr () then pairs_view (sw_db w) (Pair (protoToDomain p)) \<noteq> None \<and> stores (protoToDomain p) (sw_db w) (sw_db w')
      else pairs_view (sw_db w') = pairs_view (sw_db w)"
    by (rule resolve_store_outcome [OF a(1) [unfolded UpdatePair_resolve_store], where ok = "\<lambda>n. pairs_view (sw_db w) n \<noteq> None"])
      (rule pairs_Update_effect [OF inv])
  with a(2) Some that show ?thesis by (auto split: if_splits)
qed

lemma RemovePair_effect:
  assumes "service_inv w" and "n \<noteq> []" and "RemovePair S n w = (r, w')"
  shows "(r = Inr () \<and> pairs_view (sw_db w') = (pairs_view (sw_db w))(n := None))
    \<or> (\<exists>e. r = failR e \<and> pairs_view (sw_db w') = pairs_view (sw_db w))"
proof -
  obtain f u d where *: "svc_fault S (sw_out w) = (f, u)" "pairs_Remove f n (sw_db w) = (r, d)" "sw_db w' = d"
    using assms(2,3) by (auto simp: RemovePair_def repoI_def split: prod.splits)
  from sqlite.Remove_refines [OF _ *(2)] assms(1) *(3) show ?thesis
    by (auto simp: service_inv_def spec_Remove_def split: option.splits)
qed

definition applied :: "cli_command \<Rightarrow> db \<Rightarrow> db \<Rightarrow> bool" where
  "applied cmd d d' \<longleftrightarrow> (case cmd of
     PairAdd f \<Rightarrow> pairs_view d (pf_pair f) = None \<and> stores (protoToDomain (flags_info f)) d d'
   | PairUpdate f \<Rightarrow> pairs_view d (pf_pair f) \<noteq> None \<and> stores (protoToDomain (flags_info f)) d d'
   | PairRemove n \<Rightarrow> pairs_view d' = (pairs_view d)(n := None)
   | _ \<Rightarrow> d' = d)"

lemma gateway_post:
  assumes "service_inv w" and "m \<in> {''POST'', ''PUT''}" and "rq_method rq = m" and "rq_path rq = [''v1'', ''pair'']"
    and "newHTTPGateway G rq w = (resp, w')"
  obtains x p where "resp = Some x" and "resp_Code x = 200" and "body_pair G rq = Inr (Some p)"
      and "(pairs_view (sw_db w) (pi_Pair p) = None) = (m = ''POST'')" and "stores (protoToDomain p) (sw_db w) (sw_db w')"
  | "\<forall>x. resp = Some x \<longrightarrow> 400 \<le> resp_Code x" and "pairs_view (sw_db w') = pairs_view (sw_db w)"
proof (cases "body_pair G rq")
  case (Inl e)
  then have "w' = w \<and> (\<forall>x. resp = Some x \<longrightarrow> 400 \<le> resp_Code x)"
    using assms(2-5) by (cases e) (auto simp: newHTTPGateway_def route_of_def withBody_def body_pair_def)
  with that(2) show thesis by simp
next
  case (Inr req)
  let ?S = "gw_service G"
  define h where "h = (if m = ''POST'' then handler_AddPair ?S req w else handler_UpdatePair ?S req w)"
  obtain r where r: "h = (r, w')" "resp = reply (\<lambda>_. PEmpty) r"
    using assms(2-5) Inr by (cases h) (auto simp: newHTTPGateway_def route_of_def withBody_def body_pair_def h_def)
  have bad: "\<forall>x. resp = Some x \<longrightarrow> 400 \<le> resp_Code x" if "r \<noteq> Response ()"
    using that r(2) by (auto simp: reply_def httpCode_def split: rpc_result.splits code.splits)
  show thesis
  proof (cases "m = ''POST''")
    case True
    then have "handler_AddPair ?S req w = (r, w')" using r(1) by (simp add: h_def)
    with assms(1) show thesis
    proof (cases rule: handler_AddPair_cases)
      case (1 p)
      with Inr True r(2) that(1) [of _ p] show thesis by (simp add: reply_def)
    qed (use bad that(2) in auto)
  next
    case False
    then have "handler_UpdatePair ?S req w = (r, w')" using r(1) by (simp add: h_def)
    with assms(1) show thesis
    proof (cases rule: handler_UpdatePair_cases)
      case (1 p)
      with Inr False r(2) that(1) [of _ p] show thesis by (simp add: reply_def)
    qed (use bad that(2) in auto)
  qed
qed

lemma pair_post:
  assumes "service_inv w" and "delivers H server G text" and "decodes H G" and "m \<in> {''POST'', ''PUT''}"
    and "doJSON H server m ''/v1/pair'' (JObj [(''pair'', parsePairFlags f)]) w = (r, w')"
  shows "if isl r then pairs_view (sw_db w') = pairs_view (sw_db w)
    else applied (if m = ''POST'' then PairAdd f else PairUpdate f) (sw_db w) (sw_db w')"
proof (cases "Marshal H (JObj [(''pair'', parsePairFlags f)])")
  case (Inl e)
  with assms(5) show ?thesis by (auto simp: doJSON_def bindI_def liftI_def)
next
  case (Inr b)
  let ?rq = "\<lparr>rq_method = m, rq_path = [''v1'', ''pair''], rq_limit = [], rq_body = b\<rparr>"
  have body: "body_pair G ?rq = Inr (Some p) \<Longrightarrow> p = flags_info f" for p
    using mp [OF spec [OF spec [OF assms(3) [unfolded decodes_def]]] Inr]
    by (auto simp: body_pair_def json_request_flags split: if_splits)
  have "bindI (wrapI ''request failed'' (Do H m (server @ url_path [''v1'', ''pair'']) b))
      (\<lambda>resp. liftI (printResponse H resp)) w = (r, w')"
    using assms(5) Inr request_made [OF assms(2) _ good_segments(1), of m]
    by (simp add: doJSON_def bindI_def liftI_def url_path_fixed)
  from assms(2) list.distinct(2) good_segments(1) this show ?thesis
  proof (cases rule: delivered)
    case (1 resp)
    have "rq_method ?rq = m" "rq_path ?rq = [''v1'', ''pair'']" by simp_all
    from assms(1,4) this 1(1) show ?thesis
    proof (cases rule: gateway_post)
      case gw: (1 x p)
      have "p = flags_info f" by (rule body [OF gw(3)])
      moreover have "pi_Pair (flags_info f) = pf_pair f" by (simp add: flags_info_def)
      ultimately show ?thesis using gw(4,5) 1(3) assms(4) by (simp add: applied_def)
    next
      case 2
      with 1(2) show ?thesis by simp
    qed
  next
    case (2 e resp)
    have "rq_method ?rq = m" "rq_path ?rq = [''v1'', ''pair'']" by simp_all
    from assms(1,4) this 2(1) show ?thesis by (cases rule: gateway_post) (use 2(2,3) in auto)
  qed
qed

lemma remove_name:
  assumes "service_inv w" and "delivers H server G text" and "good_name n"
    and "doDelete H server (''/v1/pair/'' @ PathEscape n) w = (r, w')"
  shows "if isl r then pairs_view (sw_db w') = pairs_view (sw_db w) else applied (PairRemove n) (sw_db w) (sw_db w')"
proof -
  have "bindI (wrapI ''request failed'' (Do H ''DELETE'' (server @ url_path [''v1'', ''pair'', n]) []))
      (\<lambda>resp. liftI (printResponse H resp)) w = (r, w')"
    using assms(4) request_made [OF assms(2) _ good_segments(6) [OF assms(3)], of "''DELETE''"]
    by (simp add: doDelete_def bindI_def liftI_def url_path_remove)
  moreover obtain a where a: "RemovePair (gw_service G) n w = (a, snd (RemovePair (gw_service G) n w))"
    by (metis prod.collapse)
  have n: "n \<noteq> []" using assms(3) by (simp add: good_name_def)
  have g: "newHTTPGateway G \<lparr>rq_method = ''DELETE'', rq_path = [''v1'', ''pair'', n], rq_limit = [], rq_body = []\<rparr> w
      = (reply (\<lambda>_. PEmpty) (status_of InvalidArgument ''%s'' a), snd (RemovePair (gw_service G) n w))"
    using n a by (cases "RemovePair (gw_service G) n w") (simp add: newHTTPGateway_def route_of_def handler_RemovePair_def)
  note e = RemovePair_effect [OF assms(1) n a]
  from assms(2) list.distinct(2) good_segments(6) [OF assms(3)] calculation show ?thesis
    by (cases rule: delivered) (use e g in \<open>auto simp: applied_def reply_def status_of_def httpCode_def\<close>)
qed

lemma gateway_get:
  assumes "rq_method rq = ''GET''" and "newHTTPGateway G rq w = (resp, w')"
  shows "sw_db w' = sw_db w"
proof -
  have "sw_db (snd (ListPairs S w)) = sw_db w" "sw_db (snd (GetBalance S w)) = sw_db w"
    "sw_db (snd (GetAddress S w)) = sw_db w" "sw_db (snd (ListTrades S n w)) = sw_db w" for S n
    by (auto simp: ListPairs_def repoI_def GetBalance_def GetAddress_def ListTrades_def bindI_def wrapI_def outI_def
        liftI_def retI_def split: prod.split sum.split option.split)
  then have "ListPairs S w = (r, w1) \<Longrightarrow> sw_db w1 = sw_db w" "GetBalance S w = (r2, w1) \<Longrightarrow> sw_db w1 = sw_db w"
    "GetAddress S w = (r3, w1) \<Longrightarrow> sw_db w1 = sw_db w" "ListTrades S n w = (r4, w1) \<Longrightarrow> sw_db w1 = sw_db w"
    for S n r r2 r3 r4 w1 by (metis snd_conv)+
  with assms show ?thesis
    by (auto simp: newHTTPGateway_def route_of_def get_route_def handler_ListPairs_def handler_GetStatus_def
        handler_GetBalance_def handler_GetAddress_def handler_ListTrades_def apfst_def map_prod_def
        split: route.splits prod.splits if_splits list.splits)
qed

lemma get_reads:
  assumes "delivers H server G text" and "names \<noteq> []" and "list_all good_name names"
    and "doGet H server (url_path names) w = (r, w')"
  shows "sw_db w' = sw_db w"
proof -
  have "bindI (wrapI ''request failed'' (Do H ''GET'' (server @ url_path names) []))
      (\<lambda>resp. liftI (printResponse H resp)) w = (r, w')"
    using assms(4) request_made [OF assms(1-3), of "''GET''"] by (simp add: doGet_def bindI_def liftI_def)
  from assms(1-3) this show ?thesis
    by (cases rule: delivered) (auto dest: gateway_get [rotated])
qed

lemma cli_decimals_unread:
  "json_request (JObj [(''pair'', parsePairFlags (f\<lparr>pf_base_decimals := m, pf_quote_decimals := n\<rparr>))])
   = json_request (JObj [(''pair'', parsePairFlags f)])"
  unfolding json_request_flags by (simp add: flags_info_def)

section \<open>A sample command\<close>

definition sample_flags :: pair_flags where
  "sample_flags = \<lparr>pf_pair = ''BTC/ab'', pf_min = 10, pf_max = 20, pf_base_decimals = 3, pf_quote_decimals = 4,
     pf_price_feed = ''u'', pf_invert_price = True\<rparr>"

definition sample_http :: "unit svc_world http_env" where
  "sample_http = \<lparr>Marshal = (\<lambda>v. if v = JObj [(''pair'', parsePairFlags sample_flags)] then Inr [] else failR ErrJson),
     NewRequest = (\<lambda>m url. Inr ()),
     Do = (\<lambda>m url body w. case newHTTPGateway sample_gateway
         \<lparr>rq_method = m, rq_path = the (mux_segments url), rq_limit = [], rq_body = body\<rparr> w of
        (None, w') \<Rightarrow> (failR (ErrExt ''EOF''), w')
      | (Some r, w') \<Rightarrow> (Inr \<lparr>cr_StatusCode = resp_Code r, cr_Body = Inr []\<rparr>, w')),
     Indent = (\<lambda>s. None)\<rparr>"

lemma sample_delivers: "delivers sample_http [] sample_gateway (\<lambda>_. [])"
  by (auto simp: delivers_def sample_http_def split: prod.split option.split)

lemma sample_decodes: "decodes sample_http sample_gateway"
proof -
  have "flags_info sample_flags = sample_info"
    by (simp add: flags_info_def sample_flags_def sample_info_def domainToProto_def sample_request_def)
  then show ?thesis
    by (auto simp: decodes_def sample_http_def sample_gateway_def json_request_flags)
qed

lemma sample_cli_add:
  "cli_run sample_http [] (PairAdd sample_flags) sample_svc_world = (Inr [], sample_svc_after)"
proof -
  have "mux_segments ''/v1/pair'' = Some [''v1'', ''pair'']"
    using mux_segments_url_path [OF _ good_segments(1)] by (simp add: url_path_fixed)
  with sample_post_reply show ?thesis
    by (simp add: cli_run_def doJSON_def sample_http_def bindI_def liftI_def wrapI_def printResponse_def
        sample_post_def)
qed

section \<open>Properties\<close>




end
