(* ===== verification/Web.thy ===== *)
theory Web
  imports Api GoURL
begin

text \<open>
  The dashboard, \<^verbatim>\<open>internal/interface/web/embed.go\<close>, and the mux that puts it next to the gateway in
  \<^verbatim>\<open>Start\<close> of \<^verbatim>\<open>internal/interface/grpc/server.go\<close>. The path of a request is given by the segments the
  mux sees (\<open>mux_segments\<close>), a trailing slash being an empty last one, and the prefix \<^verbatim>\<open>/static/\<close> is taken
  to be sent unescaped. The embedded directory has files and no directories; their contents are not
  modelled.
\<close>

section \<open>The dashboard\<close>

datatype page = IndexPage | FilePage string | Moved | PageNotFound | PageNoMethod

text \<open>The file server of \<^verbatim>\<open>net/http\<close>, for the path that is left of the prefix. It cleans the path again,
  for an escaped slash is a slash here; a path that ends in the name of the index page, or does not end the
  way a file or the root should, is redirected.\<close>

definition fileServer :: "string list \<Rightarrow> string \<Rightarrow> page" where
  "fileServer files p =
     (let upath = (if p \<noteq> [] \<and> hd p = CHR ''/'' then p else CHR ''/'' # p);
          name = tl (path_Clean upath)
      in if HasSuffix upath ''/index.html'' then Moved
         else if name = [] then (if last upath = CHR ''/'' then FilePage ''index.html'' else Moved)
         else if name \<notin> set files then PageNotFound
         else if last upath = CHR ''/'' then Moved
         else FilePage name)"

definition get_page :: "string \<Rightarrow> page \<Rightarrow> page" where
  "get_page m p = (if m = ''GET'' \<or> m = ''HEAD'' then p else PageNoMethod)"

text \<open>Without an index page the handler cannot be made.\<close>

definition web_Handler :: "string list \<Rightarrow> (string \<Rightarrow> string list \<Rightarrow> page) result" where
  "web_Handler files = (if ''index.html'' \<notin> set files then Inl (Panic ''open index.html: file does not exist'')
     else Inr (\<lambda>m segs. case segs of
         [] \<Rightarrow> PageNotFound
       | s # rest \<Rightarrow>
           if s = ''static'' then get_page m (if rest = [] then Moved else fileServer files (join_with CHR ''/'' rest))
           else if rest \<noteq> [] then PageNotFound
           else if s = ''favicon.svg'' then get_page m (fileServer files ''/favicon.svg'')
           else if s = [] then get_page m IndexPage
           else PageNotFound))"

section \<open>The site\<close>

datatype site = Gateway route | Dashboard page | ToGateway

text \<open>The mux of \<^verbatim>\<open>Start\<close>: everything below \<^verbatim>\<open>/v1/\<close> is the gateway's, all else the dashboard's; the bare
  prefix is redirected below itself.\<close>

definition site_route :: "(string \<Rightarrow> string list \<Rightarrow> page) \<Rightarrow> string \<Rightarrow> string list \<Rightarrow> site" where
  "site_route web m segs =
     (if segs = [''v1''] then ToGateway
      else if segs \<noteq> [] \<and> hd segs = ''v1'' then Gateway (route_of m segs)
      else Dashboard (web m segs))"

lemma route_of_v1: "route_of m segs \<noteq> NoRoute \<Longrightarrow> hd segs = ''v1'' \<and> 2 \<le> length segs"
  by (auto simp: route_of_def split: list.splits if_splits)

lemma fileServer_files: "''index.html'' \<in> set files \<Longrightarrow> fileServer files p = FilePage q \<Longrightarrow> q \<in> set files"
  by (auto simp: fileServer_def Let_def split: if_splits)

text \<open>The cases of the smoke test.\<close>

definition sample_files :: "string list" where
  "sample_files = [''app.js'', ''favicon.svg'', ''index.html'', ''styles.css'']"

definition web_page :: "string list \<Rightarrow> string \<Rightarrow> page option" where
  "web_page files path = (case (web_Handler files, mux_segments path) of
     (Inr web, Some segs) \<Rightarrow> Some (web ''GET'' segs) | _ \<Rightarrow> None)"

lemma smoke_test:
  "map (web_page sample_files) [''/'', ''/static/styles.css'', ''/static/app.js'', ''/favicon.svg'']
   = [Some IndexPage, Some (FilePage ''styles.css''), Some (FilePage ''app.js''), Some (FilePage ''favicon.svg'')]"
  by code_simp

lemma smoke_test_else:
  "map (web_page sample_files) [''/x'', ''/static/../x'', ''/static/..%2Fapp.js'', ''/static/index.html'', ''/static/app.js/'']
   = [Some PageNotFound, None, Some (FilePage ''app.js''), Some Moved, Some Moved]"
  by code_simp

text \<open>The dashboard shadows no route of the gateway, and serves embedded files only, to GET and HEAD.\<close>

lemma gateway_not_shadowed:
  "route_of m segs \<noteq> NoRoute \<Longrightarrow> site_route web m segs = Gateway (route_of m segs)"
  using route_of_v1 [of m segs] by (auto simp: site_route_def)

lemma dashboard_files:
  assumes "web_Handler files = Inr web" and "site_route web m segs = Dashboard (FilePage q)"
  shows "q \<in> set files \<and> (m = ''GET'' \<or> m = ''HEAD'')"
  using assms fileServer_files [of files]
  by (auto simp: site_route_def web_Handler_def get_page_def split: if_splits list.splits)

end
