(* ===== verification/Concurrency.thy ===== *)
theory Concurrency
  imports System
begin

text \<open>
  Solves that run at the same time. \<^verbatim>\<open>pkg/solver/solver.go\<close> starts every solve in a goroutine of its
  own, and \<^verbatim>\<open>FulfillOffer\<close> of \<^verbatim>\<open>pkg/contract/taker.go\<close> takes no lock. Here a solve has two actions: it
  prepares its plan from what the services answer, and later signs and submits it. The actions of
  different solves interleave in any order.
\<close>

section \<open>The wallet\<close>

text \<open>While nothing is signed, the wallet only gains spendable coins and addresses.\<close>

definition grows :: "('w \<Rightarrow> 'z vtxo list) \<Rightarrow> ('w \<Rightarrow> offchain_address set) \<Rightarrow> 'w \<Rightarrow> 'w \<Rightarrow> bool" where
  "grows coins addrs u u' \<longleftrightarrow> set (coins u) \<subseteq> set (coins u') \<and> addrs u \<subseteq> addrs u'"

lemma grows_refl [intro!, simp]: "grows coins addrs u u"
  and grows_trans [trans]: "grows coins addrs u v \<Longrightarrow> grows coins addrs v w \<Longrightarrow> grows coins addrs u w"
  by (auto simp: grows_def)

text \<open>What the documented queries of the wallet do: the configuration is fixed, the spendable coins
  and the addresses they answer with are those of the wallet, and they let it grow at most. Nothing is
  said of signing and submitting.\<close>

definition wallet_queries :: "('aid, 'pk, 'x, 'z, 'w) taker_lib \<Rightarrow> ('pk, 'z) ark_config \<Rightarrow>
    ('w \<Rightarrow> 'z vtxo list) \<Rightarrow> ('w \<Rightarrow> offchain_address set) \<Rightarrow> bool" where
  "wallet_queries T cfg coins addrs \<longleftrightarrow>
     (\<forall>u r u'. GetConfigData T u = (r, u') \<longrightarrow> (\<forall>c. r = Inr c \<longrightarrow> c = cfg) \<and> grows coins addrs u u')
   \<and> (\<forall>s u r u'. Indexer_GetVtxos T s u = (r, u') \<longrightarrow> grows coins addrs u u')
   \<and> (\<forall>u r u'. ListSpendableVtxos T u = (r, u') \<longrightarrow> (\<forall>vs. r = Inr vs \<longrightarrow> vs = coins u) \<and> grows coins addrs u u')
   \<and> (\<forall>u r u'. GetAddresses T u = (r, u') \<longrightarrow> (\<forall>as. r = Inr as \<longrightarrow> set as = addrs u) \<and> grows coins addrs u u')
   \<and> (\<forall>u r u'. NewOffchainAddress T u = (r, u') \<longrightarrow> grows coins addrs u u')"

abbreviation tame :: "('w \<Rightarrow> 'z vtxo list) \<Rightarrow> ('w \<Rightarrow> offchain_address set) \<Rightarrow> ('w world, 'a) io \<Rightarrow> bool" where
  "tame coins addrs \<equiv> moves (\<lambda>w w'. grows coins addrs (outside w) (outside w'))"

interpretation wallet: io_preorder "\<lambda>w w'. grows coins addrs (outside w) (outside w')" for coins addrs
  by unfold_locales (auto intro: grows_trans)

lemma tame_extI: "(\<And>u r u'. m u = (r, u') \<Longrightarrow> grows coins addrs u u') \<Longrightarrow> tame coins addrs (extI m)"
  by (auto simp: moves_def extI_def split: prod.split)

lemma wallet_tame:
  assumes "wallet_queries T cfg coins addrs"
  shows "tame coins addrs (extI (GetConfigData T))" "tame coins addrs (extI (Indexer_GetVtxos T s))"
    "tame coins addrs (extI (ListSpendableVtxos T))" "tame coins addrs (extI (GetAddresses T))"
    "tame coins addrs (extI (NewOffchainAddress T))"
  using assms unfolding wallet_queries_def by (intro tame_extI; blast)+

lemma tame_stages:
  assumes "wallet_queries T cfg coins addrs"
  shows "tame coins addrs (fulfill_contract T o')" "tame coins addrs (fulfill_swapVtxo T pk)"
    "tame coins addrs (fulfill_takerVtxos T c)" "tame coins addrs (fulfill_takerScript T)"
  unfolding fulfill_contract_def fulfill_swapVtxo_def fulfill_takerVtxos_def fulfill_takerScript_def
  by (auto intro!: wallet.moves_bindI wallet.moves_wrapI wallet.moves_basic wallet_tame [OF assms] split: list.split)

lemma tame_prepareFulfill:
  "wallet_queries T cfg coins addrs \<Longrightarrow> tame coins addrs (prepareFulfill T o')"
  unfolding prepareFulfill_def by (intro wallet.moves_bindI wallet.moves_basic tame_stages)

section \<open>What a plan spends\<close>

definition taker_outpoints :: "'z fulfill_plan \<Rightarrow> outpoint set" where
  "taker_outpoints p = vi_Outpoint ` set (tl (fp_inputs p))"

lemma taker_outpoints_eq:
  assumes "planTx T o' c v tvs scr = Inr p"
  shows "Inr ` taker_outpoints p = coin_outpoint T ` tv_Vtxo ` set tvs"
proof -
  from assms obtain ins where "mapR (takerInput T) tvs = Inr ins" and p: "tl (fp_inputs p) = ins"
    by (auto simp: planTx_def result_simps)
  then have "list_all2 (\<lambda>tv i. takerInput T tv = Inr i) tvs ins" by (simp add: mapR_eq_Inr)
  then have "map (\<lambda>i. Inr (vi_Outpoint i)) ins = map (\<lambda>tv. coin_outpoint T (tv_Vtxo tv)) tvs"
    by (induction rule: list_all2_induct) (simp_all add: takerInput_outpoint)
  from arg_cong [OF this, of set] show ?thesis by (simp add: taker_outpoints_def p image_image)
qed

lemma collected_mono:
  assumes "set as \<subseteq> set bs" and "set vs \<subseteq> set ws"
  shows "set (collectTakerVtxos T cfg as vs) \<subseteq> set (collectTakerVtxos T cfg bs ws)"
  using assms by (auto simp: collectTakerVtxos_def)

text \<open>A preparation sees the coins of one moment and the addresses of a later one.\<close>

lemma takerVtxos_collected:
  assumes "wallet_queries T cfg coins addrs" and "fulfill_takerVtxos T cfg w = (Inr tvs, w')"
  obtains as u where "grows coins addrs (outside w) u" and "set as = addrs u" and "tvs \<noteq> []"
    and "tvs = collectTakerVtxos T cfg as (coins (outside w))" and "grows coins addrs u (outside w')"
proof -
  obtain vs as w1 where *: "extI (ListSpendableVtxos T) w = (Inr vs, w1)" "extI (GetAddresses T) w1 = (Inr as, w')"
    "tvs = collectTakerVtxos T cfg as vs" "tvs \<noteq> []"
    using assms(2) by (auto simp: fulfill_takerVtxos_def result_simps)
  have "vs = coins (outside w)" "grows coins addrs (outside w) (outside w1)"
    using *(1) assms(1) wallet.moved [OF wallet_tame(3) [OF assms(1)] *(1)]
    by (auto simp: extI_def wallet_queries_def split: prod.splits)
  moreover have "set as = addrs (outside w1)" "grows coins addrs (outside w1) (outside w')"
    using *(2) assms(1) wallet.moved [OF wallet_tame(4) [OF assms(1)] *(2)]
    by (auto simp: extI_def wallet_queries_def split: prod.splits)
  ultimately show ?thesis using * by (intro that [of "outside w1" as]) simp_all
qed

lemma prepare_spends:
  assumes "wallet_queries T cfg coins addrs" and "prepareFulfill T o' w = (Inr p, w')"
  obtains u v as where "grows coins addrs (outside w) u" and "grows coins addrs u v" and "grows coins addrs v (outside w')"
    and "set as = addrs v" and "collectTakerVtxos T cfg as (coins u) \<noteq> []"
    and "Inr ` taker_outpoints p = coin_outpoint T ` tv_Vtxo ` set (collectTakerVtxos T cfg as (coins u))"
proof -
  obtain c v vs tvs scr w1 w2 w3 where *: "fulfill_contract T o' w = (Inr c, w1)"
    "extI (Indexer_GetVtxos T (EncodeToString (SwapPkScript o'))) w1 = (Inr (v # vs), w2)"
    "fulfill_takerVtxos T (ci_cfg c) w2 = (Inr tvs, w3)"
    "fulfill_takerScript T w3 = (Inr scr, w')" "planTx T o' c v tvs scr = Inr p"
    by (rule prepareFulfill_stages [OF assms(2)])
  have cfg: "ci_cfg c = cfg"
    using *(1) assms(1)
    by (auto simp: fulfill_contract_def rebuildContract_def result_simps extI_def wallet_queries_def
        split: if_splits prod.splits)
  have g: "grows coins addrs (outside w) (outside w1)" "grows coins addrs (outside w1) (outside w2)"
    "grows coins addrs (outside w3) (outside w')"
    using wallet.moved [OF tame_stages(1) [OF assms(1)] *(1)] wallet.moved [OF wallet_tame(2) [OF assms(1)] *(2)]
      wallet.moved [OF tame_stages(4) [OF assms(1)] *(4)] by simp_all
  from takerVtxos_collected [OF assms(1) *(3) [unfolded cfg]] obtain as u where
    u: "grows coins addrs (outside w2) u" "set as = addrs u" "tvs \<noteq> []"
    "tvs = collectTakerVtxos T cfg as (coins (outside w2))" "grows coins addrs u (outside w3)" .
  show ?thesis
    by (rule that [of "outside w2" u as])
      (use g u taker_outpoints_eq [OF *(5)] in \<open>auto intro: grows_trans\<close>)
qed

section \<open>Interleaved solves\<close>

datatype 'z solve_phase = Waiting | Planned "'z fulfill_plan" | Ended "string result"

type_synonym ('aid, 'pk, 'z) solve_task = "('aid, 'pk) offer \<times> 'z solve_phase"

definition after_prepare :: "'z fulfill_plan result \<Rightarrow> 'z solve_phase" where
  "after_prepare r = (case r of Inl e \<Rightarrow> Ended (Inl e) | Inr p \<Rightarrow> Planned p)"

text \<open>Next to the solves, whatever \<open>env\<close> allows may happen outside.\<close>

inductive solve_step :: "('aid, 'pk, 'x, 'z, 'w) taker_lib \<Rightarrow> ('w \<Rightarrow> 'w \<Rightarrow> bool) \<Rightarrow>
    ('aid, 'pk, 'z) solve_task list \<times> 'w world \<Rightarrow> ('aid, 'pk, 'z) solve_task list \<times> 'w world \<Rightarrow> bool"
  for T env where
  prepare: "i < length ts \<Longrightarrow> ts ! i = (o', Waiting) \<Longrightarrow> prepareFulfill T o' w = (r, w') \<Longrightarrow>
    solve_step T env (ts, w) (ts[i := (o', after_prepare r)], w')"
| submit: "i < length ts \<Longrightarrow> ts ! i = (o', Planned p) \<Longrightarrow> submitFulfill T p w = (r, w') \<Longrightarrow>
    solve_step T env (ts, w) (ts[i := (o', Ended r)], w')"
| outside: "env (outside w) u \<Longrightarrow> solve_step T env (ts, w) (ts, w\<lparr>outside := u\<rparr>)"

inductive_cases solve_stepE: "solve_step T env s t"

definition all_waiting :: "('aid, 'pk, 'z) solve_task list \<Rightarrow> bool" where
  "all_waiting ts \<longleftrightarrow> list_all (\<lambda>t. snd t = Waiting) ts"

text \<open>Without an action of another solve in between, the two actions are the whole function.\<close>

lemma uninterrupted:
  assumes "prepareFulfill T o' w = (Inr p, w1)" and "submitFulfill T p w1 = (r, w2)"
  shows "FulfillOffer T o' w = (r, w2)"
  using assms by (simp add: FulfillOffer_def bindI_def)

subsection \<open>Submissions\<close>

definition ended :: "('aid, 'pk, 'z) solve_task \<Rightarrow> bool" where
  "ended t \<longleftrightarrow> (case snd t of Ended r \<Rightarrow> True | _ \<Rightarrow> False)"

definition succeeded :: "('aid, 'pk, 'z) solve_task \<Rightarrow> bool" where
  "succeeded t \<longleftrightarrow> (case snd t of Ended r \<Rightarrow> \<not> isl r | _ \<Rightarrow> False)"

definition verified :: "('aid, 'pk, 'x, 'z, 'w) taker_lib \<Rightarrow> ('aid, 'pk, 'z) solve_task \<Rightarrow> bool" where
  "verified T t \<longleftrightarrow> (case snd t of Waiting \<Rightarrow> True | Planned p \<Rightarrow> contract_matches T (fst t)
     | Ended r \<Rightarrow> \<not> isl r \<longrightarrow> contract_matches T (fst t))"

definition count_tasks :: "('t \<Rightarrow> bool) \<Rightarrow> 't list \<Rightarrow> nat" where
  "count_tasks P ts = length (filter P ts)"

definition race_inv :: "('aid, 'pk, 'x, 'z, 'w) taker_lib \<Rightarrow> ('aid, 'pk) offer list \<Rightarrow> rpc list \<Rightarrow>
    ('aid, 'pk, 'z) solve_task list \<times> 'w world \<Rightarrow> bool" where
  "race_inv T os old s \<longleftrightarrow> (case s of (ts, w) \<Rightarrow> map fst ts = os \<and> list_all (verified T) ts
     \<and> (\<exists>new. rpcs w = old @ new \<and> count_tasks succeeded ts \<le> submits new \<and> submits new \<le> count_tasks ended ts))"

lemma count_update:
  assumes "i < length ts" and "\<not> P (ts ! i)"
  shows "count_tasks P (ts[i := t]) = count_tasks P ts + (if P t then 1 else 0)"
  using assms unfolding count_tasks_def
proof (induction ts arbitrary: i)
  case (Cons x ts)
  then show ?case by (cases i) auto
qed simp

lemma map_fst_update: "fst t = fst (ts ! i) \<Longrightarrow> map fst (ts[i := t]) = map fst ts"
  by (metis list_update_beyond list_update_id map_update not_le nth_map)

lemma list_all_update: "list_all P ts \<Longrightarrow> P t \<Longrightarrow> list_all P (ts[i := t])"
  by (auto simp: list_all_iff dest: set_update_subset_insert [THEN subsetD])

lemma race_inv_start: "all_waiting ts \<Longrightarrow> race_inv T (map fst ts) (rpcs w) (ts, w)"
  by (induction ts) (simp_all add: all_waiting_def race_inv_def verified_def count_tasks_def succeeded_def split: prod.splits)

lemma race_inv_step:
  assumes "race_inv T os old s" and "solve_step T env s t"
  shows "race_inv T os old t"
  using assms(2)
proof cases
  case (prepare i ts o' w r w')
  have "verified T (o', after_prepare r)"
    using prepare(5) by (cases r) (auto simp: verified_def after_prepare_def elim: prepareFulfill_Inr)
  moreover from emitsD [OF quiet_prepareFulfill prepare(5)] have "rpcs w' = rpcs w" by simp
  moreover have "\<not> succeeded (ts ! i)" "\<not> ended (ts ! i)" "\<not> succeeded (o', after_prepare r)"
    using prepare(4) by (simp_all add: succeeded_def ended_def after_prepare_def split: sum.split)
  ultimately show ?thesis
    using assms(1) prepare count_update [OF prepare(3), of succeeded "(o', after_prepare r)"]
      count_update [OF prepare(3), of ended "(o', after_prepare r)"]
    by (auto simp: race_inv_def list_all_update map_fst_update)
next
  case (submit i ts o' p w r w')
  have v: "verified T (o', Ended r)"
    using assms(1) submit by (auto simp: race_inv_def verified_def list_all_length dest!: spec [of _ i])
  obtain new where new: "rpcs w' = rpcs w @ new" "submits new \<le> 1" "\<not> isl r \<longrightarrow> submits new = 1"
    using emitsD [OF emits_submitFulfill submit(5)] submission_submits by blast
  have "\<not> succeeded (ts ! i)" "\<not> ended (ts ! i)" using submit(4) by (simp_all add: succeeded_def ended_def)
  from count_update [of i ts succeeded "(o', Ended r)", OF submit(3) this(1)]
    count_update [of i ts ended "(o', Ended r)", OF submit(3) this(2)]
  have "count_tasks succeeded (ts[i := (o', Ended r)]) = count_tasks succeeded ts + (if isl r then 0 else 1)"
    "count_tasks ended (ts[i := (o', Ended r)]) = count_tasks ended ts + 1"
    by (simp_all add: succeeded_def ended_def)
  with assms(1) submit v new show ?thesis
    by (auto simp: race_inv_def list_all_update map_fst_update)
next
  case (outside w u ts)
  with assms(1) show ?thesis by (auto simp: race_inv_def)
qed

interpretation race: invariant_system "\<lambda>(ts, w). all_waiting ts \<and> map fst ts = os \<and> rpcs w = old" "solve_step T env"
  "race_inv T os old" for T env os old
  by unfold_locales (auto intro: race_inv_start race_inv_step)

section \<open>Conflicting plans\<close>

text \<open>Before its first request a submission changes nothing.\<close>

definition requested :: "'w world \<Rightarrow> 'w world \<Rightarrow> bool" where
  "requested w w' \<longleftrightarrow> (\<exists>new. rpcs w' = rpcs w @ new \<and> (new = [] \<longrightarrow> w' = w))"

interpretation acts: io_preorder requested
  by unfold_locales (fastforce simp: requested_def)+

lemma moves_request: "(\<And>x. quiet (f x)) \<Longrightarrow> moves requested (bindI (logI c) f)"
  unfolding moves_def requested_def emits_def by (simp add: bindI_def logI_def)

lemma moves_submitFulfill: "moves requested (submitFulfill T p)"
  unfolding submitFulfill_def signCheckpoints_def signI_def
  by (auto intro!: acts.moves_basic acts.moves_bindI acts.moves_wrapI acts.moves_mapI moves_request split: prod.split)

text \<open>A plan that spends every coin collected from some of the coins at some of the addresses.\<close>

definition spends_all :: "('aid, 'pk, 'x, 'z, 'w) taker_lib \<Rightarrow> ('pk, 'z) ark_config \<Rightarrow> 'z vtxo set \<Rightarrow>
    offchain_address set \<Rightarrow> 'z fulfill_plan \<Rightarrow> bool" where
  "spends_all T cfg C A p \<longleftrightarrow> (\<exists>as vs. set as \<subseteq> A \<and> set vs \<subseteq> C \<and> collectTakerVtxos T cfg as vs \<noteq> []
     \<and> Inr ` taker_outpoints p = coin_outpoint T ` tv_Vtxo ` set (collectTakerVtxos T cfg as vs))"

definition nested :: "'b set set \<Rightarrow> bool" where
  "nested F \<longleftrightarrow> (\<forall>A \<in> F. \<forall>B \<in> F. A \<subseteq> B \<or> B \<subseteq> A)"

definition plans :: "('aid, 'pk, 'z) solve_task list \<Rightarrow> 'z fulfill_plan set" where
  "plans ts = {p. Planned p \<in> snd ` set ts}"

definition plans_inv :: "('aid, 'pk, 'x, 'z, 'w) taker_lib \<Rightarrow> ('pk, 'z) ark_config \<Rightarrow> ('w \<Rightarrow> 'z vtxo list) \<Rightarrow>
    ('w \<Rightarrow> offchain_address set) \<Rightarrow> 'z fulfill_plan set \<Rightarrow> 'w \<Rightarrow> bool" where
  "plans_inv T cfg coins addrs P u \<longleftrightarrow>
     (\<forall>p \<in> P. spends_all T cfg (set (coins u)) (addrs u) p) \<and> nested (taker_outpoints ` P)"

definition conflict_inv :: "('aid, 'pk, 'x, 'z, 'w) taker_lib \<Rightarrow> ('pk, 'z) ark_config \<Rightarrow> ('w \<Rightarrow> 'z vtxo list) \<Rightarrow>
    ('w \<Rightarrow> offchain_address set) \<Rightarrow> rpc list \<Rightarrow> ('aid, 'pk, 'z) solve_task list \<times> 'w world \<Rightarrow> bool" where
  "conflict_inv T cfg coins addrs old s \<longleftrightarrow> (case s of (ts, w) \<Rightarrow> \<exists>new. rpcs w = old @ new
     \<and> (new = [] \<longrightarrow> plans_inv T cfg coins addrs (plans ts) (outside w)))"

lemma spends_all_mono:
  "spends_all T cfg C A p \<Longrightarrow> C \<subseteq> D \<Longrightarrow> A \<subseteq> B \<Longrightarrow> spends_all T cfg D B p"
  unfolding spends_all_def by (meson subset_trans)

lemma spends_all_some:
  assumes "spends_all T cfg C A p"
  shows "taker_outpoints p \<noteq> {}"
proof -
  from assms obtain as vs where "collectTakerVtxos T cfg as vs \<noteq> []"
    and p: "Inr ` taker_outpoints p = coin_outpoint T ` tv_Vtxo ` set (collectTakerVtxos T cfg as vs)"
    unfolding spends_all_def by blast
  then have "(Inr :: outpoint \<Rightarrow> outpoint result) ` taker_outpoints p \<noteq> {}" unfolding p by simp
  then show ?thesis by blast
qed

lemma spends_all_nested:
  assumes "spends_all T cfg (set ws) (set bs) p"
    and "Inr ` taker_outpoints q = coin_outpoint T ` tv_Vtxo ` set (collectTakerVtxos T cfg bs ws)"
  shows "taker_outpoints p \<subseteq> taker_outpoints q"
proof -
  from assms(1) obtain as vs where "set as \<subseteq> set bs" "set vs \<subseteq> set ws"
    "Inr ` taker_outpoints p = coin_outpoint T ` tv_Vtxo ` set (collectTakerVtxos T cfg as vs)"
    unfolding spends_all_def by blast
  then have "(Inr :: outpoint \<Rightarrow> outpoint result) ` taker_outpoints p \<subseteq> Inr ` taker_outpoints q"
    unfolding assms(2) by (metis collected_mono image_mono)
  then show ?thesis by blast
qed

lemma plans_update: "plans (ts[i := (o', ph)]) \<subseteq> plans ts \<union> {p. ph = Planned p}"
  by (auto simp: plans_def dest: set_update_subset_insert [THEN subsetD])

lemma nested_mono: "nested F \<Longrightarrow> G \<subseteq> F \<Longrightarrow> nested G"
  unfolding nested_def by blast

lemma nested_insert: "nested F \<Longrightarrow> (\<And>A. A \<in> F \<Longrightarrow> A \<subseteq> B) \<Longrightarrow> nested (insert B F)"
  unfolding nested_def by blast

lemma plans_inv_mono: "plans_inv T cfg coins addrs P u \<Longrightarrow> Q \<subseteq> P \<Longrightarrow> plans_inv T cfg coins addrs Q u"
  unfolding plans_inv_def by (auto intro: nested_mono)

lemma plans_inv_grows:
  "plans_inv T cfg coins addrs P u \<Longrightarrow> grows coins addrs u u' \<Longrightarrow> plans_inv T cfg coins addrs P u'"
  unfolding plans_inv_def grows_def by (auto intro: spends_all_mono)

lemma plans_inv_prepared:
  assumes "wallet_queries T cfg coins addrs" and "prepareFulfill T o' w = (r, w')"
    and "plans_inv T cfg coins addrs P (outside w)"
  shows "plans_inv T cfg coins addrs (P \<union> {p. r = Inr p}) (outside w')"
proof (cases r)
  case (Inl f)
  with plans_inv_grows [OF assms(3) wallet.moved [OF tame_prepareFulfill [OF assms(1)] assms(2)]]
  show ?thesis by simp
next
  case (Inr p)
  from prepare_spends [OF assms(1) assms(2) [unfolded Inr]] obtain u v as where
    u: "grows coins addrs (outside w) u" "grows coins addrs u v" "grows coins addrs v (outside w')"
    "set as = addrs v" "collectTakerVtxos T cfg as (coins u) \<noteq> []"
    "Inr ` taker_outpoints p = coin_outpoint T ` tv_Vtxo ` set (collectTakerVtxos T cfg as (coins u))" .
  have P: "plans_inv T cfg coins addrs P (outside w')"
    by (rule plans_inv_grows [OF plans_inv_grows [OF plans_inv_grows [OF assms(3)]]]) (rule u)+
  have "set (coins u) \<subseteq> set (coins (outside w'))" "set as \<subseteq> addrs (outside w')"
    using u(2-4) by (auto simp: grows_def)
  with u(5,6) have "spends_all T cfg (set (coins (outside w'))) (addrs (outside w')) p"
    unfolding spends_all_def by blast
  moreover have "taker_outpoints q \<subseteq> taker_outpoints p" if "q \<in> P" for q
  proof -
    have "spends_all T cfg (set (coins (outside w))) (addrs (outside w)) q"
      using assms(3) that by (simp add: plans_inv_def)
    moreover have "set (coins (outside w)) \<subseteq> set (coins u)" "addrs (outside w) \<subseteq> set as"
      using u(1,2,4) by (auto simp: grows_def)
    ultimately have "spends_all T cfg (set (coins u)) (set as) q" by (rule spends_all_mono)
    then show ?thesis using u(6) by (rule spends_all_nested)
  qed
  then have "nested (insert (taker_outpoints p) (taker_outpoints ` P))"
    using P by (intro nested_insert) (auto simp: plans_inv_def)
  ultimately show ?thesis using P Inr by (simp add: plans_inv_def)
qed

text \<open>Outside, too, the wallet may only gain.\<close>

definition gains :: "('w \<Rightarrow> 'z vtxo list) \<Rightarrow> ('w \<Rightarrow> offchain_address set) \<Rightarrow> ('w \<Rightarrow> 'w \<Rightarrow> bool) \<Rightarrow> bool" where
  "gains coins addrs env \<longleftrightarrow> (\<forall>u u'. env u u' \<longrightarrow> grows coins addrs u u')"

lemma conflict_inv_step:
  assumes "wallet_queries T cfg coins addrs" and "gains coins addrs env"
    and "conflict_inv T cfg coins addrs old s" and "solve_step T env s t"
  shows "conflict_inv T cfg coins addrs old t"
  using assms(4)
proof cases
  case (prepare i ts o' w r w')
  have P: "plans (ts[i := (o', after_prepare r)]) \<subseteq> plans ts \<union> {p. r = Inr p}"
    by (rule order_trans [OF plans_update]) (auto simp: after_prepare_def split: sum.splits)
  have "rpcs w' = rpcs w" using emitsD [OF quiet_prepareFulfill prepare(5)] by simp
  then show ?thesis
    using assms(3) plans_inv_mono [OF plans_inv_prepared [OF assms(1) prepare(5)] P]
    by (auto simp: conflict_inv_def prepare(1,2))
next
  case (submit i ts o' p w r w')
  from acts.moved [OF moves_submitFulfill submit(5)] obtain new where
    "rpcs w' = rpcs w @ new" "new = [] \<longrightarrow> w' = w" by (auto simp: requested_def)
  moreover have "plans (ts[i := (o', Ended r)]) \<subseteq> plans ts"
    by (rule order_trans [OF plans_update]) simp
  ultimately show ?thesis
    using assms(3) plans_inv_mono by (fastforce simp: conflict_inv_def submit(1,2))
next
  case (outside w u ts)
  with assms(2) have "grows coins addrs (world.outside w) u" by (simp add: gains_def)
  with assms(3) outside(1,2) show ?thesis by (auto simp: conflict_inv_def intro: plans_inv_grows)
qed

lemma plans_waiting: "all_waiting ts \<Longrightarrow> plans ts = {}"
  by (auto simp: all_waiting_def plans_def list_all_iff)

lemma conflict_inv_start: "all_waiting ts \<Longrightarrow> conflict_inv T cfg coins addrs (rpcs w) (ts, w)"
  by (simp add: conflict_inv_def plans_inv_def plans_waiting nested_def)

interpretation conflict: invariant_system "\<lambda>(ts, w). all_waiting ts \<and> rpcs w = old"
  "\<lambda>s t. (wallet_queries T cfg coins addrs \<and> gains coins addrs env) \<and> solve_step T env s t"
  "conflict_inv T cfg coins addrs old" for T cfg coins addrs env old
  by unfold_locales (auto intro: conflict_inv_start conflict_inv_step)

section \<open>Properties\<close>

text \<open>However the actions of solves interleave, they keep to their offers, at most one submission is
  made per solve that has ended, every success has made one, and whatever is planned or succeeded is for
  an offer whose contract was verified.\<close>

lemma races_are_verified:
  assumes "all_waiting ts" and "(solve_step T env)\<^sup>*\<^sup>* (ts, w) (ts', w')"
  shows "map fst ts' = map fst ts \<and> (\<exists>new. rpcs w' = rpcs w @ new \<and> count_tasks succeeded ts' \<le> submits new
    \<and> submits new \<le> count_tasks ended ts') \<and> list_all (verified T) ts'"
  using race.inv_reachable [of "map fst ts" "rpcs w" "(ts, w)" T env "(ts', w')"] assms by (simp add: race_inv_def)

text \<open>C10. Solves that have planned before anything was signed are in conflict, even if the wallet
  gains coins and addresses in between: of the taker inputs of any two of them, those of one are among those of the other, and there are some. So a server that accepts an
  output to be spent once can settle only one of them.\<close>

theorem concurrent_solves_conflict:
  assumes "wallet_queries T cfg coins addrs" and "gains coins addrs env" and "all_waiting ts"
    and "(solve_step T env)\<^sup>*\<^sup>* (ts, w) (ts', w')" and "rpcs w' = rpcs w"
    and "(o1, Planned p) \<in> set ts'" and "(o2, Planned q) \<in> set ts'"
  shows "taker_outpoints p \<noteq> {} \<and> taker_outpoints q \<noteq> {}
    \<and> (taker_outpoints p \<subseteq> taker_outpoints q \<or> taker_outpoints q \<subseteq> taker_outpoints p)"
proof -
  have "(\<lambda>s t. (wallet_queries T cfg coins addrs \<and> gains coins addrs env) \<and> solve_step T env s t) = solve_step T env"
    using assms(1,2) by simp
  with assms(3,4) have "conflict_inv T cfg coins addrs (rpcs w) (ts', w')"
    using conflict.inv_reachable [of "rpcs w" "(ts, w)" T cfg coins addrs env "(ts', w')"] by simp
  with assms(5) have i: "plans_inv T cfg coins addrs (plans ts') (outside w')" by (simp add: conflict_inv_def)
  have pq: "p \<in> plans ts'" "q \<in> plans ts'" using assms(6,7) by (force simp: plans_def)+
  with i have "spends_all T cfg (set (coins (outside w'))) (addrs (outside w')) p"
    "spends_all T cfg (set (coins (outside w'))) (addrs (outside w')) q" "nested (taker_outpoints ` plans ts')"
    by (simp_all add: plans_inv_def)
  with pq show ?thesis by (auto simp: nested_def spends_all_some)
qed

text \<open>Two solves that have both planned, and one that has been submitted.\<close>

lemma sample_queries:
  "wallet_queries sample_taker \<lparr>CheckpointTapscript = ''51'', SignerPubKey = Some (replicate 32 9), Network = []\<rparr>
     (\<lambda>_. [sample_vtxo ''bb'' 600 (sample_taker_assets ! 0), sample_vtxo ''cc'' 400 (sample_taker_assets ! 1)])
     (\<lambda>_. {\<lparr>addr_Address = ''addr'', addr_Tapscripts = [''ff'']\<rparr>})"
  by (simp add: wallet_queries_def grows_def retI_def)

lemma sample_gains: "gains coins addrs (=)"
  by (simp add: gains_def)

lemma sample_race:
  "\<exists>p. prepareFulfill sample_taker sample_offer w = (Inr p, w)
    \<and> (solve_step sample_taker (=))\<^sup>*\<^sup>* ([(sample_offer, Waiting), (sample_offer, Waiting)], w)
         ([(sample_offer, Planned p), (sample_offer, Planned p)], w)"
proof -
  obtain p where p: "prepareFulfill sample_taker sample_offer w = (Inr p, w)" using sample_prepare by blast
  have "solve_step sample_taker (=) ([(sample_offer, Waiting), (sample_offer, Waiting)], w)
      ([(sample_offer, Planned p), (sample_offer, Waiting)], w)"
    using solve_step.prepare [of 0 "[(sample_offer, Waiting), (sample_offer, Waiting)]", OF _ _ p]
    by (simp add: after_prepare_def)
  moreover have "solve_step sample_taker (=) ([(sample_offer, Planned p), (sample_offer, Waiting)], w)
      ([(sample_offer, Planned p), (sample_offer, Planned p)], w)"
    using solve_step.prepare [of 1 "[(sample_offer, Planned p), (sample_offer, Waiting)]", OF _ _ p]
    by (simp add: after_prepare_def)
  ultimately show ?thesis using p by (meson converse_rtranclp_into_rtranclp rtranclp.rtrancl_refl)
qed

theorem concurrent_solves_conflict_witness:
  "\<exists>p. (solve_step sample_taker (=))\<^sup>*\<^sup>* ([(sample_offer, Waiting), (sample_offer, Waiting)], \<lparr>outside = (), rpcs = []\<rparr>)
         ([(sample_offer, Planned p), (sample_offer, Planned p)], \<lparr>outside = (), rpcs = []\<rparr>)
     \<and> taker_outpoints p \<noteq> {}"
proof -
  let ?w = "\<lparr>outside = (), rpcs = []\<rparr> :: unit world"
  obtain p where s: "(solve_step sample_taker (=))\<^sup>*\<^sup>* ([(sample_offer, Waiting), (sample_offer, Waiting)], ?w)
      ([(sample_offer, Planned p), (sample_offer, Planned p)], ?w)" using sample_race by blast
  from concurrent_solves_conflict [OF sample_queries sample_gains _ s, of sample_offer p sample_offer p] s
  show ?thesis by (auto simp: all_waiting_def)
qed

lemma races_are_verified_witness:
  "\<exists>id p w'. (solve_step sample_taker (=))\<^sup>*\<^sup>* ([(sample_offer, Waiting), (sample_offer, Waiting)], \<lparr>outside = (), rpcs = []\<rparr>)
         ([(sample_offer, Ended (Inr id)), (sample_offer, Planned p)], w')
     \<and> submits (rpcs w') = 1 \<and> contract_matches sample_taker sample_offer"
proof -
  let ?w = "\<lparr>outside = (), rpcs = []\<rparr> :: unit world"
  obtain p where p: "prepareFulfill sample_taker sample_offer ?w = (Inr p, ?w)" and
    s: "(solve_step sample_taker (=))\<^sup>*\<^sup>* ([(sample_offer, Waiting), (sample_offer, Waiting)], ?w)
      ([(sample_offer, Planned p), (sample_offer, Planned p)], ?w)" using sample_race by blast
  obtain id w' where f: "FulfillOffer sample_taker sample_offer ?w = (Inr id, w')" using sample_fulfill by blast
  with p have "submitFulfill sample_taker p ?w = (Inr id, w')" by (simp add: FulfillOffer_def bindI_def)
  with solve_step.submit [of 0 "[(sample_offer, Planned p), (sample_offer, Planned p)]", OF _ _ this]
  have t: "(solve_step sample_taker (=))\<^sup>*\<^sup>* ([(sample_offer, Waiting), (sample_offer, Waiting)], ?w)
      ([(sample_offer, Ended (Inr id)), (sample_offer, Planned p)], w')"
    using s by (simp add: rtranclp.rtrancl_into_rtrancl)
  from races_are_verified [OF _ this] have "submits (rpcs w') = 1 \<and> contract_matches sample_taker sample_offer"
    by (auto simp: all_waiting_def count_tasks_def succeeded_def ended_def verified_def)
  with t show ?thesis by blast
qed

end
