(* ===== verification/Stages.thy ===== *)
theory Stages
  imports System
begin

text \<open>
  The calls of services a goroutine of the daemon makes, one at a time. A Match decodes and then runs one
  validator at a time (\<^verbatim>\<open>pkg/solver/builder\<close>); a Solve (\<^verbatim>\<open>fulfill\<close> of \<^verbatim>\<open>pkg/banco/plugin.go\<close>, \<^verbatim>\<open>FulfillOffer\<close>
  of \<^verbatim>\<open>pkg/contract/taker.go\<close>) asks for the configuration, the deposit, the coins, the addresses and a new
  address, signs the transaction and each checkpoint, submits, reports and stores. Computation between
  two calls, which reads only the locals of its goroutine, belongs to the call before it. Uninterrupted,
  the calls are the Match and the Solve of \<open>System\<close>.
\<close>

section \<open>The actions of a fulfilment\<close>

definition fulfill_spendable :: "('aid, 'pk, 'x, 'z, 'w) taker_lib \<Rightarrow> ('w world, 'z vtxo list) io" where
  "fulfill_spendable T =
     bindI (guardI (is_walletProvider T) (ErrNew ''arkClient does not provide wallet access'')) (\<lambda>_.
     bindI (wrapI ''failed to list taker vtxos'' (extI (ListSpendableVtxos T))) (\<lambda>vs.
     bindI (guardI (vs \<noteq> []) (ErrNew ''taker wallet has no VTXOs'')) (\<lambda>_. retI vs)))"

definition fulfill_addressed :: "('aid, 'pk, 'x, 'z, 'w) taker_lib \<Rightarrow> ('pk, 'z) ark_config \<Rightarrow> 'z vtxo list \<Rightarrow>
    ('w world, 'z vtxo_with_taptree list) io" where
  "fulfill_addressed T cfg vs =
     bindI (wrapI ''failed to get offchain addresses'' (extI (GetAddresses T))) (\<lambda>addrs.
     bindI (guardI (collectTakerVtxos T cfg addrs vs \<noteq> [])
              (ErrNew ''no taker VTXOs matched to offchain addresses'')) (\<lambda>_.
       retI (collectTakerVtxos T cfg addrs vs)))"

definition fulfill_planned :: "('aid, 'pk, 'x, 'z, 'w) taker_lib \<Rightarrow> ('aid, 'pk) offer \<Rightarrow>
    ('pk, 'z) contract_info \<Rightarrow> 'z vtxo \<Rightarrow> 'z vtxo_with_taptree list \<Rightarrow> ('w world, 'z fulfill_plan) io" where
  "fulfill_planned T o' c v tvs = bindI (fulfill_takerScript T) (\<lambda>scr. liftI (planTx T o' c v tvs scr))"

definition signArkTx :: "('aid, 'pk, 'x, 'z, 'w) taker_lib \<Rightarrow> 'z fulfill_plan \<Rightarrow>
    ('w world, string \<times> 'z list) io" where
  "signArkTx T p =
     bindI (liftI (wrapR ''failed to build offchain txs''
              (BuildTxs T (fp_inputs p) (fp_outputs p) (fp_checkpoint p)))) (\<lambda>(arkTx, checkpoints).
     bindI (liftI (wrapR ''failed to encode ark tx'' (B64Encode T arkTx))) (\<lambda>arkTxB64.
     bindI (wrapI ''failed to sign ark tx'' (signI T arkTxB64)) (\<lambda>signedArkTxB64.
       retI (signedArkTxB64, checkpoints))))"

definition signCheckpoint :: "('aid, 'pk, 'x, 'z, 'w) taker_lib \<Rightarrow> 'z \<Rightarrow> ('w world, string) io" where
  "signCheckpoint T cp =
     bindI (liftI (wrapR ''failed to encode checkpoint'' (B64Encode T cp))) (\<lambda>b64.
       wrapI ''failed to taker-sign checkpoint'' (signI T b64))"

definition submitSigned :: "('aid, 'pk, 'x, 'z, 'w) taker_lib \<Rightarrow> string \<Rightarrow> string list \<Rightarrow>
    ('w world, string) io" where
  "submitSigned T tx cps =
     bindI (logI (RpcSubmit tx cps)) (\<lambda>_.
     bindI (wrapI ''introspector submission failed'' (extI (SubmitTx T tx cps))) (\<lambda>final.
     bindI (liftI (wrapR ''failed to decode finalized ark tx'' (psbt_NewFromRawBytes T final))) (\<lambda>ptx.
       retI (TxHash_String T ptx))))"

text \<open>What a goroutine that solves holds between two actions, and how it ends: before it submitted,
  with a submission that failed, or with one that succeeded and the event it published.\<close>

datatype outcome = NotSent failure | Rejected failure | Settled "fulfillment_event option"

datatype ('pk, 'z) solve_progress =
    Begin
  | HasContract "('pk, 'z) contract_info"
  | HasSwap "('pk, 'z) contract_info" "'z vtxo"
  | HasCoins "('pk, 'z) contract_info" "'z vtxo" "'z vtxo list"
  | HasTakers "('pk, 'z) contract_info" "'z vtxo" "'z vtxo_with_taptree list"
  | HasPlan "'z fulfill_plan"
  | Signing string "'z list" "string list"
  | HasTxid string
  | HasEvent fulfillment_event
  | Over outcome

definition next_stage :: "('a \<Rightarrow> ('pk, 'z) solve_progress) \<Rightarrow> (failure \<Rightarrow> outcome) \<Rightarrow> 'a result \<times> 'w \<Rightarrow>
    ('pk, 'z) solve_progress \<times> 'w" where
  "next_stage ok bad rw = (case rw of (Inr x, w) \<Rightarrow> (ok x, w) | (Inl f, w) \<Rightarrow> (Over (bad f), w))"

fun taker_stage :: "('aid, 'pk, 'x, 'z, 'w) taker_lib \<Rightarrow> ('aid, 'pk) offer \<Rightarrow> ('pk, 'z) solve_progress \<Rightarrow>
    'w world \<Rightarrow> ('pk, 'z) solve_progress \<times> 'w world" where
  "taker_stage T o' Begin w = next_stage HasContract NotSent (fulfill_contract T o' w)"
| "taker_stage T o' (HasContract c) w = next_stage (HasSwap c) NotSent (fulfill_swapVtxo T (ci_pkScript c) w)"
| "taker_stage T o' (HasSwap c v) w = next_stage (HasCoins c v) NotSent (fulfill_spendable T w)"
| "taker_stage T o' (HasCoins c v vs) w = next_stage (HasTakers c v) NotSent (fulfill_addressed T (ci_cfg c) vs w)"
| "taker_stage T o' (HasTakers c v tvs) w = next_stage HasPlan NotSent (fulfill_planned T o' c v tvs w)"
| "taker_stage T o' (HasPlan p) w = next_stage (\<lambda>(tx, cps). Signing tx cps []) NotSent (signArkTx T p w)"
| "taker_stage T o' (Signing tx (cp # cps) bs) w =
     next_stage (\<lambda>b. Signing tx cps (bs @ [b])) NotSent (signCheckpoint T cp w)"
| "taker_stage T o' (Signing tx [] bs) w = next_stage HasTxid Rejected (submitSigned T tx bs w)"
| "taker_stage T o' st w = (st, w)"

subsection \<open>Uninterrupted, the actions are the function\<close>

lemma bindI_assoc: "bindI (bindI m f) g = bindI m (\<lambda>x. bindI (f x) g)"
  by (simp add: bindI_def fun_eq_iff split: prod.split sum.split)

lemma retI_bindI [simp]: "bindI (retI x) f = f x"
  by (simp add: bindI_def retI_def)

lemma FulfillOffer_actions:
  "FulfillOffer T o' = bindI (fulfill_contract T o') (\<lambda>c. bindI (fulfill_swapVtxo T (ci_pkScript c)) (\<lambda>v.
     bindI (fulfill_spendable T) (\<lambda>vs. bindI (fulfill_addressed T (ci_cfg c) vs) (\<lambda>tvs.
     bindI (fulfill_planned T o' c v tvs) (\<lambda>p. bindI (signArkTx T p) (\<lambda>(tx, cps).
     bindI (mapI (signCheckpoint T) cps) (submitSigned T tx)))))))"
  by (simp add: FulfillOffer_def prepareFulfill_def fulfill_takerVtxos_def fulfill_spendable_def
      fulfill_addressed_def fulfill_planned_def submitFulfill_def [abs_def] signArkTx_def signCheckpoint_def [abs_def]
      signCheckpoints_def submitSigned_def [abs_def] bindI_assoc case_prod_unfold)

inductive taker_step :: "('aid, 'pk, 'x, 'z, 'w) taker_lib \<Rightarrow> ('aid, 'pk) offer \<Rightarrow>
    ('pk, 'z) solve_progress \<times> 'w world \<Rightarrow> ('pk, 'z) solve_progress \<times> 'w world \<Rightarrow> bool" for T o' where
  "taker_step T o' (st, w) (taker_stage T o' st w)"

definition tells :: "('pk, 'z) solve_progress \<Rightarrow> string result \<Rightarrow> bool" where
  "tells st r \<longleftrightarrow> (case r of Inr txid \<Rightarrow> st = HasTxid txid | Inl f \<Rightarrow> st = Over (NotSent f) \<or> st = Over (Rejected f))"

lemma action_then:
  assumes "bindI m f w = (r, w')" and "taker_stage T o' st w = next_stage ok bad (m w)"
    and "bad = NotSent \<or> bad = Rejected"
    and "\<And>x w1. f x w1 = (r, w') \<Longrightarrow> \<exists>st'. (taker_step T o')\<^sup>*\<^sup>* (ok x, w1) (st', w') \<and> tells st' r"
  shows "\<exists>st'. (taker_step T o')\<^sup>*\<^sup>* (st, w) (st', w') \<and> tells st' r"
proof (cases "m w")
  case (Pair q w1)
  from taker_step.intros [of T o' st w] have s: "taker_step T o' (st, w) (next_stage ok bad (q, w1))"
    by (simp add: assms(2) Pair)
  show ?thesis
  proof (cases q)
    case (Inl e)
    with assms(1) Pair have "r = Inl e" "w1 = w'" by (simp_all add: bindI_def)
    then have "taker_step T o' (st, w) (Over (bad e), w')" "tells (Over (bad e)) r"
      using s Inl assms(3) by (auto simp: next_stage_def tells_def)
    then show ?thesis by blast
  next
    case (Inr x)
    with assms(1) Pair have "f x w1 = (r, w')" by (simp add: bindI_def)
    from assms(4) [OF this] s Inr show ?thesis
      by (auto simp: next_stage_def intro: converse_rtranclp_into_rtranclp)
  qed
qed

lemma sign_then:
  "bindI (mapI (signCheckpoint T) cps) (\<lambda>cs. submitSigned T tx (bs @ cs)) w = (r, w') \<Longrightarrow>
   \<exists>st'. (taker_step T o')\<^sup>*\<^sup>* (Signing tx cps bs, w) (st', w') \<and> tells st' r"
proof (induction cps arbitrary: bs w)
  case Nil
  then have "submitSigned T tx bs w = (r, w')" by simp
  then have "taker_stage T o' (Signing tx [] bs) w = next_stage HasTxid Rejected (r, w')" by simp
  with taker_step.intros [of T o' "Signing tx [] bs" w] show ?case
    by (auto simp: next_stage_def tells_def split: sum.splits)
next
  case (Cons cp cps)
  then have "bindI (signCheckpoint T cp) (\<lambda>b. bindI (mapI (signCheckpoint T) cps)
      (\<lambda>cs. submitSigned T tx ((bs @ [b]) @ cs))) w = (r, w')" by (simp add: bindI_assoc)
  then show ?case by (rule action_then [where ok = "\<lambda>b. Signing tx cps (bs @ [b])" and bad = NotSent])
    (auto intro: Cons.IH)
qed

lemma FulfillOffer_uninterrupted:
  assumes "FulfillOffer T o' w = (r, w')"
  shows "\<exists>st. (taker_step T o')\<^sup>*\<^sup>* (Begin, w) (st, w') \<and> tells st r"
  using assms unfolding FulfillOffer_actions
  apply (rule action_then [where ok = HasContract and bad = NotSent], simp, simp)
  apply (erule action_then [where ok = "HasSwap _" and bad = NotSent], simp, simp)
  apply (erule action_then [where ok = "HasCoins _ _" and bad = NotSent], simp, simp)
  apply (erule action_then [where ok = "HasTakers _ _" and bad = NotSent], simp, simp)
  apply (erule action_then [where ok = HasPlan and bad = NotSent], simp, simp)
  apply (erule action_then [where ok = "\<lambda>(tx, cps). Signing tx cps []" and bad = NotSent], simp, simp)
  by (auto split: prod.splits intro: sign_then [where bs = "[]", simplified])

section \<open>The actions of the goroutines\<close>

text \<open>A Match: the filters and the decoder, then one validator at a time.\<close>

datatype ('aid, 'pk) match_progress = Idle | Checking "('aid, 'pk) matched_offer" nat

definition match_stage :: "('aid, 'pk, 'x, 'z, 'w) banco_env \<Rightarrow> 'w service_env \<Rightarrow> psbt \<Rightarrow>
    ('aid, 'pk) match_progress \<Rightarrow> 'w daemon_world \<Rightarrow>
    (('aid, 'pk) match_progress + ('aid, 'pk) matched_offer option) \<times> 'w daemon_world" where
  "match_stage E S tx st s = (case NewPlugin (daemon_config E S (dw_db s)) of
     Inl f \<Rightarrow> (Inr None, s)
   | Inr p \<Rightarrow> (case st of
       Idle \<Rightarrow> if \<not> runFilters (p_filters p) (Some tx) then (Inr None, s)
         else (case p_decode p (Some tx) (dw_plugin s) of
             (Inl f, w) \<Rightarrow> (Inr None, s\<lparr>dw_plugin := w\<rparr>)
           | (Inr m, w) \<Rightarrow> (Inl (Checking m 0), s\<lparr>dw_plugin := w\<rparr>))
     | Checking m i \<Rightarrow> if i < length (p_validators p)
         then (case (p_validators p ! i) m (dw_plugin s) of
             (Inl f, w) \<Rightarrow> (Inr None, s\<lparr>dw_plugin := w\<rparr>)
           | (Inr ok, w) \<Rightarrow> (if \<not> ok then Inr None else Inl (Checking m (Suc i)), s\<lparr>dw_plugin := w\<rparr>))
         else (Inr (Some m), s)))"

text \<open>A Solve: the actions of the fulfilment on the world of the taker, then the event and its trade.\<close>

definition publish :: "('aid, 'pk, 'x, 'z, 'w) banco_env \<Rightarrow> ('aid, 'pk) matched_offer \<Rightarrow> string \<Rightarrow>
    ('w plugin_world, fulfillment_event) io" where
  "publish E m txid = bindI (arkI (env_Now E)) (\<lambda>now.
     let ev = fulfillmentEvent (base_lib (env_lib E)) m txid now in bindI (onFulfill ev) (\<lambda>_. retI ev))"

definition solve_stage :: "('aid, 'pk, 'x, 'z, 'w) banco_env \<Rightarrow> 'w service_env \<Rightarrow> ('aid, 'pk) matched_offer \<Rightarrow>
    ('pk, 'z) solve_progress \<Rightarrow> 'w daemon_world \<Rightarrow> ('pk, 'z) solve_progress \<times> 'w daemon_world" where
  "solve_stage E S m st s = (let D = daemon_config E S (dw_db s) in case st of
     HasTxid txid \<Rightarrow> if \<not> env_listener D then (Over (Settled None), s)
       else (case next_stage HasEvent (\<lambda>_. Settled None) (publish D m txid (dw_plugin s)) of
         (st', w) \<Rightarrow> (st', s\<lparr>dw_plugin := w\<rparr>))
   | HasEvent ev \<Rightarrow> (Over (Settled (Some ev)), store_event S ev s)
   | _ \<Rightarrow> (case taker_stage (env_taker D) (bo_Offer (mo_Offer m)) st (pw_ark (dw_plugin s)) of
       (st', a) \<Rightarrow> (st', s\<lparr>dw_plugin := (dw_plugin s)\<lparr>pw_ark := a\<rparr>\<rparr>)))"

definition over :: "('pk, 'z) solve_progress \<Rightarrow> bool" where
  "over st \<longleftrightarrow> (case st of Over r \<Rightarrow> True | _ \<Rightarrow> False)"

text \<open>Whether a solve has made its submission, what it has published and filed, and whether it knows its
  contract.\<close>

definition sent :: "('pk, 'z) solve_progress \<Rightarrow> bool" where
  "sent st \<longleftrightarrow> (case st of HasTxid txid \<Rightarrow> True | HasEvent ev \<Rightarrow> True | Over (Rejected f) \<Rightarrow> True
     | Over (Settled ev) \<Rightarrow> True | _ \<Rightarrow> False)"

definition published :: "('pk, 'z) solve_progress \<Rightarrow> fulfillment_event multiset" where
  "published st = (case st of HasEvent ev \<Rightarrow> {#ev#} | Over (Settled (Some ev)) \<Rightarrow> {#ev#} | _ \<Rightarrow> {#})"

definition filed :: "('pk, 'z) solve_progress \<Rightarrow> fulfillment_event multiset" where
  "filed st = (case st of Over (Settled (Some ev)) \<Rightarrow> {#ev#} | _ \<Rightarrow> {#})"

definition past_contract :: "('pk, 'z) solve_progress \<Rightarrow> bool" where
  "past_contract st \<longleftrightarrow> (case st of Begin \<Rightarrow> False | Over (NotSent f) \<Rightarrow> False | _ \<Rightarrow> True)"

lemmas progress_defs = sent_def published_def filed_def past_contract_def over_def

section \<open>A run without interruptions\<close>

lemma daemon_config_sel [simp]: "env_Now (daemon_config E S d) = env_Now E" "env_listener (daemon_config E S d)"
  by (simp_all add: daemon_config_def)

subsection \<open>A solve\<close>

abbreviation with_ark :: "'w daemon_world \<Rightarrow> 'w world \<Rightarrow> 'w daemon_world" where
  "with_ark s a \<equiv> s\<lparr>dw_plugin := (dw_plugin s)\<lparr>pw_ark := a\<rparr>\<rparr>"

inductive solve_run :: "('aid, 'pk, 'x, 'z, 'w) banco_env \<Rightarrow> 'w service_env \<Rightarrow> ('aid, 'pk) matched_offer \<Rightarrow>
    ('pk, 'z) solve_progress \<times> 'w daemon_world \<Rightarrow> ('pk, 'z) solve_progress \<times> 'w daemon_world \<Rightarrow> bool" for E S m where
  "\<not> over st \<Longrightarrow> solve_run E S m (st, s) (solve_stage E S m st s)"

lemma taker_solve_run:
  assumes "(taker_step (env_taker E) (bo_Offer (mo_Offer m)))\<^sup>*\<^sup>* (st, w) (st', w')"
  shows "(solve_run E S m)\<^sup>*\<^sup>* (st, with_ark s w) (st', with_ark s w')"
  using assms
proof (induction rule: rtranclp_induct2)
  case (step st1 w1 st2 w2)
  from step(2) have t: "taker_stage (env_taker E) (bo_Offer (mo_Offer m)) st1 w1 = (st2, w2)"
    by (auto elim: taker_step.cases)
  show ?case
  proof (cases "st2 = st1 \<and> w2 = w1")
    case False
    with t have "\<not> over st1 \<and> solve_stage E S m st1 (with_ark s w1) = (st2, with_ark s w2)"
      by (cases st1) (auto simp: over_def solve_stage_def)
    with step(3) show ?thesis by (metis rtranclp.rtrancl_into_rtrancl solve_run.intros)
  qed (use step(3) in simp)
qed simp

lemma daemon_Solve_uninterrupted:
  assumes "daemon_Solve E S m s = (r, s')"
  shows "\<exists>q. (solve_run E S m)\<^sup>*\<^sup>* (Begin, s) (Over q, s')"
proof -
  let ?D = "daemon_config E S (dw_db s)"
  obtain q a where f: "FulfillOffer (env_taker E) (bo_Offer (mo_Offer m)) (pw_ark (dw_plugin s)) = (q, a)" by fastforce
  from FulfillOffer_uninterrupted [OF f] obtain st where st:
    "(taker_step (env_taker E) (bo_Offer (mo_Offer m)))\<^sup>*\<^sup>* (Begin, pw_ark (dw_plugin s)) (st, a)" "tells st q" by blast
  from taker_solve_run [OF st(1), of S s] have run: "(solve_run E S m)\<^sup>*\<^sup>* (Begin, s) (st, with_ark s a)" by simp
  show ?thesis
  proof (cases q)
    case (Inl e)
    with st(2) obtain o' where "st = Over o'" by (auto simp: tells_def)
    moreover have "s' = with_ark s a"
      using assms f Inl
      by (auto simp: daemon_Solve_def NewPlugin_eq Solve_def fulfill_def store_event_def split: failure.splits)
    ultimately show ?thesis using run by blast
  next
    case (Inr txid)
    with st(2) have "st = HasTxid txid" by (simp add: tells_def)
    moreover obtain n w where n: "arkI (env_Now E) (dw_plugin (with_ark s a)) = (n, w)" by fastforce
    ultimately have run1: "(solve_run E S m)\<^sup>*\<^sup>* (Begin, s) (HasTxid txid, with_ark s a)" using run by simp
    have w: "pw_events w = pw_events (dw_plugin s)"
      using n by (auto simp: arkI_def extI_def split: prod.splits)
    show ?thesis
    proof (cases n)
      case (Inl e)
      then have "solve_stage E S m (HasTxid txid) (with_ark s a) = (Over (Settled None), s\<lparr>dw_plugin := w\<rparr>)"
        using n by (simp add: solve_stage_def publish_def next_stage_def bindI_def)
      moreover have "s' = s\<lparr>dw_plugin := w\<rparr>"
        using assms f n w Inl \<open>q = Inr txid\<close>
        by (auto simp: daemon_Solve_def NewPlugin_eq Solve_def fulfill_def bindI_def)
      ultimately show ?thesis
        using run1 solve_run.intros [of "HasTxid txid" E S m "with_ark s a"]
        by (auto simp: over_def intro: rtranclp.rtrancl_into_rtrancl)
    next
      case (Inr now)
      let ?ev = "fulfillmentEvent (base_lib (env_lib E)) m txid now"
      let ?s = "s\<lparr>dw_plugin := w\<lparr>pw_events := pw_events w @ [?ev]\<rparr>\<rparr>"
      have "solve_stage E S m (HasTxid txid) (with_ark s a) = (HasEvent ?ev, ?s)"
        using n Inr by (simp add: solve_stage_def publish_def next_stage_def bindI_def onFulfill_def retI_def Let_def)
      moreover have "solve_stage E S m (HasEvent ?ev) ?s = (Over (Settled (Some ?ev)), store_event S ?ev ?s)"
        by (simp add: solve_stage_def)
      moreover have "s' = store_event S ?ev ?s"
        using assms f n w Inr \<open>q = Inr txid\<close>
        by (auto simp: daemon_Solve_def NewPlugin_eq Solve_def fulfill_def bindI_def onFulfill_def)
      ultimately show ?thesis
        using run1 solve_run.intros [of "HasTxid txid" E S m "with_ark s a"] solve_run.intros [of "HasEvent ?ev" E S m ?s]
        by (auto simp: over_def intro!: rtranclp.rtrancl_into_rtrancl)
    qed
  qed
qed

subsection \<open>A match\<close>

inductive match_run :: "('aid, 'pk, 'x, 'z, 'w) banco_env \<Rightarrow> 'w service_env \<Rightarrow> psbt \<Rightarrow>
    ('aid, 'pk) match_progress \<times> 'w daemon_world \<Rightarrow> ('aid, 'pk) match_progress \<times> 'w daemon_world \<Rightarrow> bool"
  for E S tx where
  "match_stage E S tx st s = (Inl st', s') \<Longrightarrow> match_run E S tx (st, s) (st', s')"

definition match_result :: "('t option \<times> report list) result \<Rightarrow> 't option" where
  "match_result q = (case q of Inl f \<Rightarrow> None | Inr (r, reports) \<Rightarrow> r)"

lemma validators_uninterrupted:
  assumes "NewPlugin (daemon_config E S (dw_db s)) = Inr p"
  shows "runValidators p vs m (dw_plugin s) = (q, w') \<Longrightarrow> p_validators p = us @ vs \<Longrightarrow>
    \<exists>st s1. (match_run E S tx)\<^sup>*\<^sup>* (Checking m (length us), s) (st, s1)
      \<and> match_stage E S tx st s1 = (Inr (match_result q), s\<lparr>dw_plugin := w'\<rparr>)"
  using assms
proof (induction vs arbitrary: us s)
  case Nil
  then have "match_stage E S tx (Checking m (length us)) s = (Inr (match_result q), s\<lparr>dw_plugin := w'\<rparr>)"
    by (auto simp: match_stage_def match_result_def)
  then show ?case by blast
next
  case (Cons v vs)
  obtain a w1 where v: "v m (dw_plugin s) = (a, w1)" by fastforce
  have i: "length us < length (p_validators p)" "p_validators p ! length us = v" using Cons.prems(2) by simp_all
  show ?case
  proof (cases "a = Inr True")
    case True
    then have "match_stage E S tx (Checking m (length us)) s = (Inl (Checking m (Suc (length us))), s\<lparr>dw_plugin := w1\<rparr>)"
      using v i Cons.prems(3) by (simp add: match_stage_def)
    then have "match_run E S tx (Checking m (length us), s) (Checking m (length (us @ [v])), s\<lparr>dw_plugin := w1\<rparr>)"
      by (simp add: match_run.intros)
    moreover have "runValidators p vs m (dw_plugin (s\<lparr>dw_plugin := w1\<rparr>)) = (q, w')" using Cons.prems(1) v True by simp
    note Cons.IH [OF this, of "us @ [v]"]
    ultimately show ?thesis
      using Cons.prems(2,3) by (auto intro: converse_rtranclp_into_rtranclp)
  next
    case False
    then have "match_stage E S tx (Checking m (length us)) s = (Inr (match_result q), s\<lparr>dw_plugin := w'\<rparr>)"
      using v i Cons.prems(1,3)
      by (auto simp: match_stage_def match_result_def split: sum.splits failure.splits)
    then show ?thesis by blast
  qed
qed

lemma daemon_Match_uninterrupted:
  assumes "safeMatch (daemon_plugin E S) tx s = (r, s')"
  shows "\<exists>st s1. (match_run E S tx)\<^sup>*\<^sup>* (Idle, s) (st, s1) \<and> match_stage E S tx st s1 = (Inr r, s')"
proof -
  obtain p where p: "NewPlugin (daemon_config E S (dw_db s)) = Inr p" by (simp add: NewPlugin_eq)
  obtain q w where m: "Match p (Some tx) (dw_plugin s) = (q, w)" by fastforce
  have r: "r = match_result q" "s' = s\<lparr>dw_plugin := w\<rparr>"
    using assms p m
    by (auto simp: safeMatch_def daemon_plugin_def daemon_Match_def match_result_def bindR_def split: sum.splits)
  obtain a w1 where d: "p_decode p (Some tx) (dw_plugin s) = (a, w1)" by fastforce
  show ?thesis
  proof (cases "\<exists>x. runFilters (p_filters p) (Some tx) \<and> a = Inr x")
    case True
    then obtain x where x: "runFilters (p_filters p) (Some tx)" "a = Inr x" by blast
    with p d have "match_run E S tx (Idle, s) (Checking x (length []), s\<lparr>dw_plugin := w1\<rparr>)"
      by (simp add: match_run.intros match_stage_def)
    moreover have "runValidators p (p_validators p) x (dw_plugin (s\<lparr>dw_plugin := w1\<rparr>)) = (q, w)"
      using m d x by (simp add: Match_def)
    note validators_uninterrupted [OF _ this, of E S "[]" tx]
    ultimately show ?thesis using p r by (auto intro: converse_rtranclp_into_rtranclp)
  next
    case False
    then have "match_stage E S tx Idle s = (Inr r, s')"
      using p m d r by (cases a) (auto simp: match_stage_def Match_def match_result_def split: if_splits failure.splits)
    then show ?thesis by blast
  qed
qed

end
