(* ===== verification/Interleaving.thy ===== *)
theory Interleaving
  imports Stages
begin

text \<open>
  The daemon with its goroutines interleaved. In \<open>System\<close> a Match and a Solve of the plugin are one action
  each; here each is the actions of \<open>Stages\<close>. Those of the solves, of Run, of the operator and of the world
  outside come in any order. Every run of \<open>System\<close> is one of these, with no goroutine interrupted, and
  every schedule ends after the shutdown.
\<close>

section \<open>The state and the actions\<close>

text \<open>The state of Run, with the stage of the Match it is in and of every solve it has started.\<close>

record ('aid, 'pk, 'z, 'w) fine_state =
  f_run :: "('w daemon_world, ('aid, 'pk) matched_offer) run_state"
  f_match :: "('aid, 'pk) match_progress"
  f_solves :: "(('aid, 'pk) matched_offer \<times> ('pk, 'z) solve_progress) list"

definition fine_start :: "('aid, 'pk, 'x, 'z, 'w) banco_env \<Rightarrow> 'w \<Rightarrow> ('aid, 'pk, 'z, 'w) fine_state" where
  "fine_start E u = \<lparr>f_run = daemon_start E u, f_match = Idle, f_solves = []\<rparr>"

definition after_solve :: "('aid, 'pk) matched_offer \<Rightarrow> ('pk, 'z) solve_progress \<Rightarrow> 'w daemon_world \<Rightarrow>
    ('w daemon_world, ('aid, 'pk) matched_offer) run_state \<Rightarrow>
    ('w daemon_world, ('aid, 'pk) matched_offer) run_state" where
  "after_solve m st w s = (if over st then end_solve 0 m w s else s\<lparr>rs_world := w\<rparr>)"

text \<open>Run has one plugin. Its actions that call no plugin are those of \<open>Solver\<close>.\<close>

inductive fine_own :: "('aid, 'pk, 'x, 'z, 'w) banco_env \<Rightarrow> 'w service_env \<Rightarrow>
    ('aid, 'pk, 'z, 'w) fine_state \<Rightarrow> ('aid, 'pk, 'z, 'w) fine_state \<Rightarrow> bool" for E S where
  loop: "own_step [daemon_plugin E S] (f_run f) t \<Longrightarrow> rs_calls t = rs_calls (f_run f) \<Longrightarrow>
    rs_finished t = rs_finished (f_run f) \<Longrightarrow> fine_own E S f (f\<lparr>f_run := t\<rparr>)"
| examine: "rs_phase (f_run f) = Matching tx 0 \<Longrightarrow>
    match_stage E S tx (f_match f) (rs_world (f_run f)) = (Inl st, w) \<Longrightarrow>
    fine_own E S f (f\<lparr>f_match := st, f_run := (f_run f)\<lparr>rs_world := w\<rparr>\<rparr>)"
| decide: "rs_phase (f_run f) = Matching tx 0 \<Longrightarrow>
    match_stage E S tx (f_match f) (rs_world (f_run f)) = (Inr r, w) \<Longrightarrow>
    fine_own E S f \<lparr>f_run = end_match tx 0 r w (f_run f), f_match = Idle,
      f_solves = f_solves f @ (case r of None \<Rightarrow> [] | Some m \<Rightarrow> [(m, Begin)])\<rparr>"
| solve: "i < length (f_solves f) \<Longrightarrow> f_solves f ! i = (m, st) \<Longrightarrow> \<not> over st \<Longrightarrow>
    solve_stage E S m st (rs_world (f_run f)) = (st', w) \<Longrightarrow>
    fine_own E S f (f\<lparr>f_solves := (f_solves f)[i := (m, st')], f_run := after_solve m st' w (f_run f)\<rparr>)"

inductive fine_env :: "'w service_env \<Rightarrow> ('aid, 'pk, 'z, 'w) fine_state \<Rightarrow> ('aid, 'pk, 'z, 'w) fine_state \<Rightarrow> bool"
  for S where
  callers: "env_step (f_run f) t \<Longrightarrow> fine_env S f (f\<lparr>f_run := t\<rparr>)"
| operate: "operator_step S (dw_service (rs_world (f_run f))) v \<Longrightarrow>
    fine_env S f (f\<lparr>f_run := (f_run f)\<lparr>rs_world := set_service v (rs_world (f_run f))\<rparr>\<rparr>)"

definition fine_step :: "('aid, 'pk, 'x, 'z, 'w) banco_env \<Rightarrow> 'w service_env \<Rightarrow>
    ('aid, 'pk, 'z, 'w) fine_state \<Rightarrow> ('aid, 'pk, 'z, 'w) fine_state \<Rightarrow> bool" where
  "fine_step E S f g \<longleftrightarrow> fine_own E S f g \<or> fine_env S f g"

section \<open>The goroutines in flight\<close>

text \<open>An element of a list and the others.\<close>

lemma mset_at:
  assumes "i < length xs"
  obtains M where "mset xs = add_mset (xs ! i) M" and "\<And>y. mset (xs[i := y]) = add_mset y M"
proof
  show "mset xs = add_mset (xs ! i) (mset xs - {#xs ! i#})" using assms by simp
  show "mset (xs[i := y]) = add_mset y (mset xs - {#xs ! i#})" for y using assms by (rule mset_update)
qed

definition in_flight :: "(('aid, 'pk) matched_offer \<times> ('pk, 'z) solve_progress) list \<Rightarrow>
    (nat \<times> ('aid, 'pk) matched_offer) multiset" where
  "in_flight ts = image_mset (\<lambda>(m, st). (0, m)) (filter_mset (\<lambda>(m, st). \<not> over st) (mset ts))"

definition solves_inv :: "('aid, 'pk, 'z, 'w) fine_state \<Rightarrow> bool" where
  "solves_inv f \<longleftrightarrow> run_inv 1 (f_run f) \<and> rs_started (f_run f) = map (\<lambda>(m, st). (0, m)) (f_solves f)
     \<and> rs_inflight (f_run f) = in_flight (f_solves f)"

lemma loop_keeps:
  assumes "own_step ps s t" and "rs_calls t = rs_calls s" and "rs_finished t = rs_finished s"
  shows "rs_started t = rs_started s \<and> rs_inflight t = rs_inflight s \<and> rs_world t = rs_world s"
  using assms by cases (auto simp: do_match_def split: prod.splits)

lemma in_flight_at:
  assumes "i < length ts" and "ts ! i = (m, st)" and "\<not> over st"
  shows "(0, m) \<in># in_flight ts"
    and "in_flight (ts[i := (m, st')]) = (if over st' then in_flight ts - {#(0, m)#} else in_flight ts)"
proof -
  from mset_at [OF assms(1)] obtain M where "mset ts = add_mset (m, st) M"
    "\<And>y. mset (ts[i := y]) = add_mset y M" using assms(2) by metis
  with assms(3) show "(0, m) \<in># in_flight ts"
    "in_flight (ts[i := (m, st')]) = (if over st' then in_flight ts - {#(0, m)#} else in_flight ts)"
    by (auto simp: in_flight_def)
qed

lemma started_at: "i < length ts \<Longrightarrow> ts ! i = (m, st) \<Longrightarrow>
    map (\<lambda>(m, st). (0 :: nat, m)) (ts[i := (m, st')]) = map (\<lambda>(m, st). (0, m)) ts"
  by (rule nth_equalityI) (auto simp: nth_list_update split: prod.split)

lemma solves_inv_own:
  assumes "solves_inv f" and "fine_own E S f g"
  shows "solves_inv g"
  using assms(2)
proof cases
  case (loop t)
  with assms(1) loop_keeps [OF loop(2-4)] run_inv_own [OF _ loop(2)] show ?thesis
    by (simp add: solves_inv_def)
next
  case (decide tx r w)
  with assms(1) run_inv_end_match [of 1 "f_run f" tx 0 r w] show ?thesis
    by (auto simp: solves_inv_def end_match_def Let_def in_flight_def over_def split: option.split)
next
  case (solve i m st st' w)
  note t = in_flight_at [OF solve(2-4)] started_at [OF solve(2,3)]
  with assms(1) run_inv_end_solve [of 1 "f_run f" 0 m w] show ?thesis
    unfolding solve(1) by (auto simp: solves_inv_def after_solve_def)
qed (use assms(1) in \<open>simp_all add: solves_inv_def\<close>)

lemma solves_inv_env:
  assumes "solves_inv f" and "fine_env S f g"
  shows "solves_inv g"
  using assms(2)
proof cases
  case (callers t)
  from callers(2) have "rs_started t = rs_started (f_run f) \<and> rs_inflight t = rs_inflight (f_run f)"
    by (auto elim!: env_stepE)
  with assms(1) callers(1) run_inv_env [OF _ callers(2)] show ?thesis by (simp add: solves_inv_def)
qed (use assms(1) in \<open>simp add: solves_inv_def\<close>)

lemma solves_inv_start: "solves_inv (fine_start E u)"
  using run_inv_start by (simp add: solves_inv_def fine_start_def daemon_start_def run_start_def in_flight_def)

interpretation goroutines: invariant_system "\<lambda>f. \<exists>u. f = fine_start E u" "fine_step E S" solves_inv for E S
  by unfold_locales (auto simp: fine_step_def solves_inv_start intro: solves_inv_own solves_inv_env)

section \<open>Every run of atomic actions is a run of these\<close>

definition between :: "('aid, 'pk, 'z, 'w) fine_state \<Rightarrow> bool" where
  "between f \<longleftrightarrow> f_match f = Idle \<and> (\<forall>(m, st) \<in> set (f_solves f). st = Begin \<or> over st)"

definition atomic_view :: "('aid, 'pk, 'z, 'w) fine_state \<Rightarrow>
    ('w daemon_world, ('aid, 'pk) matched_offer) run_state \<Rightarrow> bool" where
  "atomic_view f s \<longleftrightarrow> f_run f = s \<and> between f \<and> solves_inv f"

lemma match_run_own:
  assumes "(match_run E S tx)\<^sup>*\<^sup>* (st, s) (st', s')" and "rs_phase (f_run f) = Matching tx 0"
  shows "(fine_own E S)\<^sup>*\<^sup>* (f\<lparr>f_match := st, f_run := (f_run f)\<lparr>rs_world := s\<rparr>\<rparr>)
    (f\<lparr>f_match := st', f_run := (f_run f)\<lparr>rs_world := s'\<rparr>\<rparr>)"
  using assms(1)
proof (induction rule: rtranclp_induct2)
  case (step st1 s1 st2 s2)
  from step(2) have "match_stage E S tx st1 s1 = (Inl st2, s2)" by (auto elim: match_run.cases)
  with fine_own.examine [of "f\<lparr>f_match := st1, f_run := (f_run f)\<lparr>rs_world := s1\<rparr>\<rparr>" tx E S st2 s2] assms(2)
  have "fine_own E S (f\<lparr>f_match := st1, f_run := (f_run f)\<lparr>rs_world := s1\<rparr>\<rparr>)
    (f\<lparr>f_match := st2, f_run := (f_run f)\<lparr>rs_world := s2\<rparr>\<rparr>)" by simp
  with step(3) show ?case by (rule rtranclp.rtrancl_into_rtrancl)
qed simp

lemma solve_run_own:
  assumes "(solve_run E S m)\<^sup>*\<^sup>* (st, s) (st', s')" and "i < length (f_solves f)" and "\<not> over st"
  shows "(fine_own E S)\<^sup>*\<^sup>* (f\<lparr>f_solves := (f_solves f)[i := (m, st)], f_run := after_solve m st s (f_run f)\<rparr>)
    (f\<lparr>f_solves := (f_solves f)[i := (m, st')], f_run := after_solve m st' s' (f_run f)\<rparr>)"
  using assms(1)
proof (induction rule: rtranclp_induct2)
  case (step st1 s1 st2 s2)
  let ?f = "\<lambda>st s. f\<lparr>f_solves := (f_solves f)[i := (m, st)], f_run := after_solve m st s (f_run f)\<rparr>"
  from step(2) have *: "\<not> over st1" "solve_stage E S m st1 s1 = (st2, s2)" by (auto elim: solve_run.cases)
  then have "rs_world (f_run (?f st1 s1)) = s1" by (simp add: after_solve_def)
  moreover have "after_solve m st2 s2 (f_run (?f st1 s1)) = after_solve m st2 s2 (f_run f)"
    using *(1) by (simp add: after_solve_def end_solve_def)
  ultimately have "fine_own E S (?f st1 s1) (?f st2 s2)"
    using fine_own.solve [of i "?f st1 s1" m st1 E S st2 s2] assms(2) * by simp
  with step(3) show ?case by (rule rtranclp.rtrancl_into_rtrancl)
qed simp

lemma atomic_match:
  assumes "atomic_view f s" and "rs_phase s = Matching tx 0"
  shows "\<exists>g. (fine_own E S)\<^sup>*\<^sup>* f g \<and> f_run g = do_match [daemon_plugin E S] tx 0 s \<and> between g"
proof -
  obtain r w where "safeMatch (daemon_plugin E S) tx (rs_world s) = (r, w)" by fastforce
  then have t: "do_match [daemon_plugin E S] tx 0 s = end_match tx 0 r w s" by (simp add: do_match_def)
  from daemon_Match_uninterrupted [OF \<open>safeMatch _ _ _ = _\<close>] obtain st s1 where
    run: "(match_run E S tx)\<^sup>*\<^sup>* (Idle, rs_world s) (st, s1)" "match_stage E S tx st s1 = (Inr r, w)" by blast
  from assms(1) have f: "f_run f = s" "f_match f = Idle" by (simp_all add: atomic_view_def between_def)
  let ?f1 = "f\<lparr>f_match := st, f_run := s\<lparr>rs_world := s1\<rparr>\<rparr>"
  let ?g = "\<lparr>f_run = end_match tx 0 r w s, f_match = Idle,
    f_solves = f_solves f @ (case r of None \<Rightarrow> [] | Some m \<Rightarrow> [(m, Begin)])\<rparr>"
  have "f\<lparr>f_match := Idle, f_run := s\<rparr> = f" using f by (cases f) simp
  with match_run_own [OF run(1), of f] f assms(2) have "(fine_own E S)\<^sup>*\<^sup>* f ?f1" by simp
  moreover have "end_match tx 0 r w (s\<lparr>rs_world := s1\<rparr>) = end_match tx 0 r w s"
    by (simp add: end_match_def Let_def split: option.split)
  with fine_own.decide [of ?f1 tx E S r w] run(2) assms(2) have "fine_own E S ?f1 ?g" by simp
  moreover have "between ?g" using assms(1) by (auto simp: atomic_view_def between_def split: option.split)
  ultimately show ?thesis using t by (intro exI [of _ ?g]) (auto intro: rtranclp.rtrancl_into_rtrancl)
qed

lemma atomic_solve:
  assumes "atomic_view f s" and "(n, m) \<in># rs_inflight s"
  shows "\<exists>g. (fine_own E S)\<^sup>*\<^sup>* f g \<and> f_run g = do_solve [daemon_plugin E S] n m s \<and> between g"
proof -
  from assms have f: "f_run f = s" "(n, m) \<in># in_flight (f_solves f)" and b: "between f"
    by (auto simp: atomic_view_def solves_inv_def)
  then obtain st where "(m, st) \<in> set (f_solves f)" "\<not> over st" "n = 0" by (auto simp: in_flight_def)
  with b obtain i where i: "i < length (f_solves f)" "f_solves f ! i = (m, Begin)"
    by (fastforce simp: between_def in_set_conv_nth)
  let ?w = "safeSolve (daemon_plugin E S) m (rs_world s)"
  obtain r where "daemon_Solve E S m (rs_world s) = (r, ?w)"
    by (cases "daemon_Solve E S m (rs_world s)") (auto simp: safeSolve_def daemon_plugin_def split: sum.split)
  from daemon_Solve_uninterrupted [OF this] obtain q where
    run: "(solve_run E S m)\<^sup>*\<^sup>* (Begin, rs_world s) (Over q, ?w)" by blast
  let ?g = "f\<lparr>f_solves := (f_solves f)[i := (m, Over q)], f_run := end_solve 0 m ?w s\<rparr>"
  have "f\<lparr>f_solves := (f_solves f)[i := (m, Begin)], f_run := s\<rparr> = f"
    using i f(1) list_update_id [of "f_solves f" i] by (cases f) simp
  with solve_run_own [OF run i(1)] f(1) have "(fine_own E S)\<^sup>*\<^sup>* f ?g"
    by (simp add: over_def after_solve_def)
  moreover have "f_run ?g = do_solve [daemon_plugin E S] n m s"
    using \<open>n = 0\<close> by (simp add: do_solve_def)
  moreover have "between ?g"
    using b set_update_subset_insert [of "f_solves f" i "(m, Over q)"] by (fastforce simp: between_def over_def)
  ultimately show ?thesis by blast
qed

lemma own_to_fine: "(fine_own E S)\<^sup>*\<^sup>* f g \<Longrightarrow> (fine_step E S)\<^sup>*\<^sup>* f g"
  by (erule rtranclp_mono [THEN predicate2D, rotated]) (auto simp: fine_step_def)

lemma atomic_own:
  assumes "atomic_view f s" and "own_step [daemon_plugin E S] s t"
  shows "\<exists>g. (fine_own E S)\<^sup>*\<^sup>* f g \<and> f_run g = t \<and> between g"
proof -
  from assms(1) have f: "f_run f = s" "between f" by (simp_all add: atomic_view_def)
  have loop: ?thesis if "rs_calls t = rs_calls s" "rs_finished t = rs_finished s"
    using fine_own.loop [of E S f t] assms(2) that f by (intro exI [of _ "f\<lparr>f_run := t\<rparr>"]) (auto simp: between_def)
  from assms(2) show ?thesis
  proof cases
    case (match tx n)
    with atomic_match [OF assms(1), of tx] show ?thesis by simp
  next
    case (solve n m)
    with atomic_solve [OF assms(1)] show ?thesis by simp
  qed ((rule loop, simp, simp)+)
qed

lemma atomic_step:
  assumes "atomic_view f s" and "daemon_step E S s t"
  shows "\<exists>g. (fine_step E S)\<^sup>*\<^sup>* f g \<and> atomic_view g t"
proof -
  from assms(1) have f: "f_run f = s" "between f" "solves_inv f" by (simp_all add: atomic_view_def)
  have "\<exists>g. (fine_step E S)\<^sup>*\<^sup>* f g \<and> f_run g = t \<and> between g"
    using assms(2)
  proof cases
    case run
    then consider "own_step [daemon_plugin E S] s t" | "env_step s t" by (auto simp: run_step_def)
    then show ?thesis
    proof cases
      case 1
      from atomic_own [OF assms(1) this] show ?thesis by (blast intro: own_to_fine)
    next
      case 2
      with f(1,2) fine_env.callers [of f t S] show ?thesis
        by (intro exI [of _ "f\<lparr>f_run := t\<rparr>"]) (auto simp: fine_step_def between_def)
    qed
  next
    case (operate v)
    with f(1,2) fine_env.operate [of S f v] show ?thesis
      by (intro exI [of _ "f\<lparr>f_run := t\<rparr>"]) (auto simp: fine_step_def between_def)
  qed
  with goroutines.inv_steps [OF f(3)] show ?thesis unfolding atomic_view_def by blast
qed

lemma atomic_runs:
  assumes "(daemon_step E S)\<^sup>*\<^sup>* (daemon_start E u) s"
  shows "\<exists>f. (fine_step E S)\<^sup>*\<^sup>* (fine_start E u) f \<and> atomic_view f s"
  using assms
proof (induction rule: rtranclp_induct)
  case base
  have "atomic_view (fine_start E u) (daemon_start E u)"
    using solves_inv_start by (simp add: atomic_view_def between_def) (simp add: fine_start_def)
  then show ?case by blast
next
  case (step s t)
  then obtain f where "(fine_step E S)\<^sup>*\<^sup>* (fine_start E u) f" "atomic_view f s" by blast
  with atomic_step [OF this(2) step(2)] show ?case by (meson rtranclp_trans)
qed

section \<open>Every schedule ends\<close>

text \<open>The loop goes first, then the Match it is in, then the solves: an action lowers the first of these
  that it changes.\<close>

definition loop_measure :: "('w, 'i) run_state \<Rightarrow> nat" where
  "loop_measure s = run_measure 1 s - size (rs_inflight s)"

definition match_measure :: "('aid, 'pk) match_progress \<Rightarrow> nat" where
  "match_measure st = (case st of Idle \<Rightarrow> 5 | Checking m i \<Rightarrow> 4 - i)"

fun solve_measure :: "('pk, 'z) solve_progress \<Rightarrow> nat \<times> nat" where
  "solve_measure Begin = (9, 0)"
| "solve_measure (HasContract c) = (8, 0)"
| "solve_measure (HasSwap c v) = (7, 0)"
| "solve_measure (HasCoins c v vs) = (6, 0)"
| "solve_measure (HasTakers c v tvs) = (5, 0)"
| "solve_measure (HasPlan p) = (4, 0)"
| "solve_measure (Signing tx cps bs) = (3, length cps)"
| "solve_measure (HasTxid txid) = (2, 0)"
| "solve_measure (HasEvent ev) = (1, 0)"
| "solve_measure (Over r) = (0, 0)"

definition fine_measure :: "('aid, 'pk, 'z, 'w) fine_state \<Rightarrow> nat \<times> nat \<times> (nat \<times> nat) multiset" where
  "fine_measure f = (loop_measure (f_run f), match_measure (f_match f),
     image_mset (\<lambda>(m, st). solve_measure st) (mset (f_solves f)))"

abbreviation fine_less :: "((nat \<times> nat \<times> (nat \<times> nat) multiset) \<times> nat \<times> nat \<times> (nat \<times> nat) multiset) set" where
  "fine_less \<equiv> less_than <*lex*> less_than <*lex*> mult (less_than <*lex*> less_than)"

lemma taker_stage_measure:
  "taker_stage T o' st w = (st', w') \<Longrightarrow> \<not> over st \<Longrightarrow> \<not> sent st \<Longrightarrow>
   (solve_measure st', solve_measure st) \<in> less_than <*lex*> less_than"
  by (cases "(T, o', st, w)" rule: taker_stage.cases)
    (auto simp: next_stage_def progress_defs split: prod.splits sum.splits)

lemma solve_stage_measure:
  assumes "solve_stage E S m st s = (st', s')" and "\<not> over st"
  shows "(solve_measure st', solve_measure st) \<in> less_than <*lex*> less_than"
proof (cases "sent st")
  case True
  with assms show ?thesis
    by (cases st) (auto simp: solve_stage_def next_stage_def progress_defs Let_def split: if_splits prod.splits sum.splits)
next
  case False
  with assms show ?thesis
    using taker_stage_measure [of "env_taker E" "bo_Offer (mo_Offer m)" st "pw_ark (dw_plugin s)"]
    by (cases st) (auto simp: solve_stage_def progress_defs split: prod.splits)
qed

lemma mult_less_at:
  assumes "i < length xs" and "(f y, f (xs ! i)) \<in> r"
  shows "(image_mset f (mset (xs[i := y])), image_mset f (mset xs)) \<in> mult r"
proof -
  from mset_at [OF assms(1)] obtain M where "mset xs = add_mset (xs ! i) M" "mset (xs[i := y]) = add_mset y M" by metis
  moreover have "(image_mset f M + {#f y#}, image_mset f M + {#f (xs ! i)#}) \<in> mult r"
    by (rule one_step_implies_mult) (use assms(2) in auto)
  ultimately show ?thesis by simp
qed

lemma fine_own_measure:
  assumes "fine_own E S f g"
  shows "(fine_measure g, fine_measure f) \<in> fine_less"
  using assms
proof cases
  case (loop t)
  from own_step_measure [OF loop(2)] loop_keeps [OF loop(2-4)] show ?thesis
    by (simp add: loop(1) fine_measure_def loop_measure_def run_measure_def)
next
  case (examine tx st w)
  then have "match_measure st < match_measure (f_match f)"
    by (auto simp: match_stage_def NewPlugin_eq match_measure_def split: match_progress.splits if_splits prod.splits sum.splits)
  then show ?thesis by (simp add: examine(1) fine_measure_def loop_measure_def run_measure_def)
next
  case (decide tx r w)
  then show ?thesis by (simp add: fine_measure_def loop_measure_def run_measure_def)
next
  case (solve i m st st' w)
  have "loop_measure (f_run g) = loop_measure (f_run f)"
    by (simp add: solve(1) loop_measure_def run_measure_def after_solve_def)
  moreover have "(solve_measure st', solve_measure st) \<in> less_than <*lex*> less_than"
    by (rule solve_stage_measure [OF solve(5,4)])
  with mult_less_at [OF solve(2), of "\<lambda>(m, st). solve_measure st" "(m, st')"] solve(3) have
    "(image_mset (\<lambda>(m, st). solve_measure st) (mset (f_solves g)), image_mset (\<lambda>(m, st). solve_measure st) (mset (f_solves f)))
      \<in> mult (less_than <*lex*> less_than)" by (simp add: solve(1))
  ultimately show ?thesis by (simp add: fine_measure_def) (simp add: solve(1))
qed

lemma wf_fine_own: "wf {(g, f). fine_own E S f g}"
  by (rule wf_subset [of "inv_image fine_less fine_measure"])
    (auto intro!: wf_inv_image wf_lex_prod wf_mult fine_own_measure)

lemma fine_progress:
  assumes "solves_inv f" and "shut_down (f_run f)" and "\<not> returned (f_run f)"
  shows "\<exists>g. fine_own E S f g"
proof -
  from assms(1) have "run_inv (length [daemon_plugin E S]) (f_run f)" by (simp add: solves_inv_def)
  from progress [OF this assms(2,3)] obtain t where t: "own_step [daemon_plugin E S] (f_run f) t" by blast
  then show ?thesis
  proof cases
    case (match tx n)
    then have "rs_phase (f_run f) = Matching tx 0" by simp
    then show ?thesis
      using fine_own.examine fine_own.decide by (metis surj_pair sum.exhaust)
  next
    case (solve n m)
    with assms(1) have "(n, m) \<in># in_flight (f_solves f)" by (simp add: solves_inv_def)
    then obtain i st where "i < length (f_solves f)" "f_solves f ! i = (m, st)" "\<not> over st"
      by (auto simp: in_flight_def in_set_conv_nth)
    then show ?thesis using fine_own.solve by (metis surj_pair)
  qed (use t fine_own.loop in \<open>fastforce\<close>)+
qed

lemma fine_own_shut_down: "fine_own E S f g \<Longrightarrow> shut_down (f_run f) \<Longrightarrow> shut_down (f_run g)"
  by (auto elim!: fine_own.cases simp: shut_down_def after_solve_def dest: own_step_shut_down [unfolded shut_down_def]
      split: if_splits)

lemma solves_inv_returned:
  assumes "solves_inv f" and "returned (f_run f)" and "(m, st) \<in> set (f_solves f)"
  shows "over st"
proof -
  from assms(1,2) have "in_flight (f_solves f) = {#}"
    by (auto simp: solves_inv_def run_inv_def phase_ok_def returned_def split: phase.splits option.splits)
  with assms(3) show ?thesis by (auto simp: in_flight_def filter_mset_eq_conv)
qed

section \<open>A sample day, interrupted\<close>

text \<open>The day of \<open>System\<close>, and a day on which the callers close the channel after one transaction.\<close>

lemma sample_fine_day:
  "\<exists>f. (fine_step sample_env sample_dservice)\<^sup>*\<^sup>* (fine_start sample_env ()) f
    \<and> length (db_trades (dw_db (rs_world (f_run f)))) = 1"
proof -
  obtain s where "(daemon_step sample_env sample_dservice)\<^sup>*\<^sup>* (daemon_start sample_env ()) s"
    "length (db_trades (dw_db (rs_world s))) = 1" using sample_day by blast
  with atomic_runs [OF this(1)] show ?thesis by (auto simp: atomic_view_def)
qed

section \<open>Properties\<close>



text \<open>C7. The daemon shuts down: once the context is canceled or the channel closed, if the callers do
  nothing more, no schedule of the goroutines is endless and none gets stuck before Run has returned, so
  Run returns; and then every solve it started is over.\<close>

theorem interleaved_returns:
  assumes "(fine_step E S)\<^sup>*\<^sup>* (fine_start E u) f" and "shut_down (f_run f)"
  shows "(\<nexists>F. F 0 = f \<and> (\<forall>i. fine_own E S (F i) (F (Suc i))))
    \<and> (\<forall>g. (fine_own E S)\<^sup>*\<^sup>* f g \<longrightarrow> (if returned (f_run g) then \<forall>(m, st) \<in> set (f_solves g). over st
         else \<exists>h. fine_own E S g h))
    \<and> (\<exists>g. (fine_own E S)\<^sup>*\<^sup>* f g \<and> returned (f_run g))"
proof -
  have inv: "solves_inv f" by (rule goroutines.inv_reachable [OF _ assms(1)]) blast
  have own: "solves_inv g \<and> shut_down (f_run g)" if "(fine_own E S)\<^sup>*\<^sup>* f g" for g
    using that by (induction rule: rtranclp_induct) (auto simp: inv assms(2) intro: solves_inv_own fine_own_shut_down)
  have "\<exists>h. (fine_own E S)\<^sup>*\<^sup>* g h \<and> returned (f_run h)" if "(fine_own E S)\<^sup>*\<^sup>* f g" for g
    using that
  proof (induction g rule: wf_induct_rule [OF wf_fine_own [of E S], case_names less])
    case (less g)
    show ?case
    proof (cases "returned (f_run g)")
      case False
      with fine_progress own [OF less.prems] obtain h where h: "fine_own E S g h" by blast
      with less.IH [of h] less.prems show ?thesis
        by (meson CollectI case_prodI converse_rtranclp_into_rtranclp rtranclp.rtrancl_into_rtrancl)
    qed blast
  qed
  moreover have "\<nexists>F. F 0 = f \<and> (\<forall>i. fine_own E S (F i) (F (Suc i)))"
    using wf_fine_own [of E S] unfolding wf_iff_no_infinite_down_chain by blast
  ultimately show ?thesis using own fine_progress solves_inv_returned by (auto split: if_splits) blast+
qed

theorem interleaved_returns_witness:
  "\<exists>f g. (fine_step sample_env sample_dservice)\<^sup>*\<^sup>* (fine_start sample_env ()) f
    \<and> rs_chan (f_run f) = [Some sample_psbt] \<and> (fine_own sample_env sample_dservice)\<^sup>*\<^sup>* f g \<and> returned (f_run g)"
proof -
  let ?f0 = "fine_start sample_env ()" and ?step = "fine_step sample_env sample_dservice"
  let ?s = "(f_run ?f0)\<lparr>rs_chan := [Some sample_psbt], rs_sent := [Some sample_psbt]\<rparr>"
  have start: "rs_chan (f_run ?f0) = []" "rs_sent (f_run ?f0) = []" "\<not> rs_closed (f_run ?f0)"
    by (simp_all add: fine_start_def daemon_start_def run_start_def)
  then have "env_step (f_run ?f0) ?s" using env_step.send [of "f_run ?f0" "Some sample_psbt"] by simp
  from fine_env.callers [OF this] have 1: "?step ?f0 (?f0\<lparr>f_run := ?s\<rparr>)" by (simp add: fine_step_def)
  have "env_step ?s (?s\<lparr>rs_closed := True\<rparr>)" by (rule env_step.close) (simp add: start)
  from fine_env.callers [of "?f0\<lparr>f_run := ?s\<rparr>", simplified, OF this]
  have 2: "?step (?f0\<lparr>f_run := ?s\<rparr>) (?f0\<lparr>f_run := ?s\<lparr>rs_closed := True\<rparr>\<rparr>)" by (simp add: fine_step_def)
  from 1 2 have reach: "?step\<^sup>*\<^sup>* ?f0 (?f0\<lparr>f_run := ?s\<lparr>rs_closed := True\<rparr>\<rparr>)" by (meson converse_rtranclp_into_rtranclp rtranclp.rtrancl_refl)
  from interleaved_returns [OF this] obtain g where
    "(fine_own sample_env sample_dservice)\<^sup>*\<^sup>* (?f0\<lparr>f_run := ?s\<lparr>rs_closed := True\<rparr>\<rparr>) g" "returned (f_run g)"
    by (auto simp: shut_down_def)
  with reach show ?thesis
    by (intro exI [of _ "?f0\<lparr>f_run := ?s\<lparr>rs_closed := True\<rparr>\<rparr>"] exI [of _ g]) simp
qed

end
