(* ===== verification/Ledger.thy ===== *)
theory Ledger
  imports Interleaving
begin

text \<open>
  What the interleaved daemon of \<open>Interleaving\<close> has asked for, published and stored, against the stages of
  its solves: submissions, events and trades are those of the solves that have come that far. And the
  prices of the offers it solves, against what the feed has replied.
\<close>

section \<open>The ledger\<close>

subsection \<open>Requests\<close>

text \<open>Only the last call of a fulfilment submits.\<close>

abbreviation unsent :: "('w world, 'a) io \<Rightarrow> bool" where
  "unsent \<equiv> moves (\<lambda>w w'. submits (rpcs w') = submits (rpcs w))"

interpretation signs: io_preorder "\<lambda>w w'. submits (rpcs w') = submits (rpcs w)"
  by unfold_locales auto

lemma unsent_quiet: "quiet m \<Longrightarrow> unsent m"
  unfolding moves_def emits_def by (auto split: prod.splits)

lemma unsent_ext: "unsent (extI m)"
  by (rule unsent_quiet [OF quiet_extI])

lemma unsent_signI: "unsent (signI T b)"
  unfolding signI_def
  by (rule signs.moves_bindI [OF _ unsent_ext]) (simp add: moves_def logI_def submits_def is_sign_def)

lemma unsent_calls:
  "unsent (fulfill_contract T o')" "unsent (fulfill_swapVtxo T pk)" "unsent (fulfill_spendable T)"
  "unsent (fulfill_addressed T c vs)" "unsent (fulfill_planned T o' ci v tvs)" "unsent (signArkTx T p)"
  "unsent (signCheckpoint T cp)"
  unfolding fulfill_contract_def fulfill_swapVtxo_def fulfill_spendable_def fulfill_addressed_def
    fulfill_planned_def fulfill_takerScript_def signArkTx_def signCheckpoint_def
  by (auto intro!: signs.moves_bindI signs.moves_wrapI signs.moves_basic unsent_signI unsent_ext
      split: list.split prod.split)

lemma submitSigned_submits: "submits (rpcs (snd (submitSigned T tx cps w))) = Suc (submits (rpcs w))"
proof -
  have "unsent (bindI (wrapI ''introspector submission failed'' (extI (SubmitTx T tx cps))) (\<lambda>final.
     bindI (liftI (wrapR ''failed to decode finalized ark tx'' (psbt_NewFromRawBytes T final))) (\<lambda>ptx.
       retI (TxHash_String T ptx))))"
    by (auto intro!: signs.moves_bindI signs.moves_wrapI signs.moves_basic unsent_ext)
  then show ?thesis by (simp add: submitSigned_def bindI_def logI_def moves_def)
qed

lemma next_stage_effect:
  assumes "next_stage ok NotSent (m w) = (st', w')" and "unsent m"
    and "\<And>x. \<not> sent (ok x) \<and> published (ok x) = {#} \<and> \<not> over (ok x)"
  shows "submits (rpcs w') = submits (rpcs w) \<and> \<not> sent st' \<and> published st' = {#}
    \<and> (past_contract st' \<longrightarrow> (\<exists>x. m w = (Inr x, w')))"
proof (cases "m w")
  case (Pair r w1)
  with signs.moved [OF assms(2) Pair] assms(1,3) show ?thesis
    by (cases r) (auto simp: next_stage_def progress_defs)
qed

lemma taker_stage_effect:
  assumes "taker_stage T o' st w = (st', w')" and "\<not> over st" and "\<not> sent st"
  shows "submits (rpcs w') = submits (rpcs w) + (if sent st' then 1 else 0) \<and> published st' = {#}
    \<and> (past_contract st' \<and> \<not> past_contract st \<longrightarrow> contract_matches T o')"
proof -
  note effect = next_stage_effect [OF _ unsent_calls(1)] next_stage_effect [OF _ unsent_calls(2)]
    next_stage_effect [OF _ unsent_calls(3)] next_stage_effect [OF _ unsent_calls(4)]
    next_stage_effect [OF _ unsent_calls(5)] next_stage_effect [OF _ unsent_calls(6)]
    next_stage_effect [OF _ unsent_calls(7)]
  show ?thesis
  proof (cases "\<exists>tx bs. st = Signing tx [] bs")
    case True
    then obtain tx bs where st: "st = Signing tx [] bs" by blast
    with assms(1) submitSigned_submits [of T tx bs w] show ?thesis
      by (cases "submitSigned T tx bs w") (auto simp: next_stage_def progress_defs split: sum.splits)
  next
    case False
    have "submits (rpcs w') = submits (rpcs w) \<and> \<not> sent st' \<and> published st' = {#}
      \<and> (past_contract st' \<and> st = Begin \<longrightarrow> (\<exists>c. fulfill_contract T o' w = (Inr c, w')))"
      using assms False
      by (cases "(T, o', st, w)" rule: taker_stage.cases)
        (force dest!: effect simp: sent_def published_def over_def split: prod.splits)+
    then show ?thesis
      using assms(2,3) by (auto simp: past_contract_def sent_def over_def dest: fulfill_contract_matches
          split: solve_progress.splits outcome.splits)
  qed
qed

subsection \<open>The calls of a goroutine\<close>

definition trade_body :: "trade_row \<Rightarrow> trade" where
  "trade_body r = (toTrade r)\<lparr>t_ID := 0\<rparr>"

definition event_trade :: "fulfillment_event \<Rightarrow> trade" where
  "event_trade ev = stored (tradeOf ev) 0"

definition solve_ok :: "('aid, 'pk, 'x, 'z, 'w) banco_env \<Rightarrow> ('aid, 'pk) matched_offer \<Rightarrow>
    ('pk, 'z) solve_progress \<Rightarrow> bool" where
  "solve_ok E m st \<longleftrightarrow> gated m \<and> (past_contract st \<longrightarrow> contract_matches (env_taker E) (bo_Offer (mo_Offer m)))
     \<and> (\<forall>ev \<in># published st. \<exists>txid now. ev = fulfillmentEvent (base_lib (env_lib E)) m txid now)"

abbreviation world_submits :: "'w daemon_world \<Rightarrow> nat" where
  "world_submits s \<equiv> submits (rpcs (pw_ark (dw_plugin s)))"

abbreviation world_events :: "'w daemon_world \<Rightarrow> fulfillment_event list" where
  "world_events s \<equiv> pw_events (dw_plugin s)"

abbreviation world_trades :: "'w daemon_world \<Rightarrow> trade multiset" where
  "world_trades s \<equiv> image_mset trade_body (mset (db_trades (dw_db s)))"

text \<open>One action of a solve moves the three books as the stage moves.\<close>

definition books :: "('pk, 'z) solve_progress \<Rightarrow> 'w daemon_world \<Rightarrow> ('pk, 'z) solve_progress \<Rightarrow>
    'w daemon_world \<Rightarrow> bool" where
  "books st s st' s' \<longleftrightarrow> service_inv (dw_service s')
     \<and> world_submits s' + (if sent st then 1 else 0) = world_submits s + (if sent st' then 1 else 0)
     \<and> mset (world_events s') + published st = mset (world_events s) + published st'
     \<and> world_trades s' \<subseteq># world_trades s + image_mset event_trade (filed st')"

lemma service_inv_plugin [simp]: "service_inv (dw_service (s\<lparr>dw_plugin := w\<rparr>)) = service_inv (dw_service s)"
  by (simp add: dw_service_def service_inv_def)

lemma publish_effect:
  assumes "next_stage HasEvent (\<lambda>_. Settled None) (publish D m txid w) = (st', w')"
  shows "rpcs (pw_ark w') = rpcs (pw_ark w) \<and> sent st' \<and> past_contract st' \<and> filed st' = {#}
    \<and> mset (pw_events w') = mset (pw_events w) + published st'
    \<and> (\<forall>ev \<in># published st'. \<exists>now. ev = fulfillmentEvent (base_lib (env_lib D)) m txid now)"
  using assms
  by (auto simp: next_stage_def publish_def bindI_def arkI_def extI_def onFulfill_def retI_def Let_def progress_defs
      split: prod.splits sum.splits)

lemma store_effect:
  assumes "service_inv (dw_service s)"
  shows "books (HasEvent ev) s (Over (Settled (Some ev))) (store_event S ev s)"
proof -
  from assms have "service_inv (dw_service (store_event S ev s))"
    using service_inv_step [OF _ service_step.intros(6)] by (simp add: store_event_def)
  moreover from OnFulfill_trades [of S ev "dw_service s"]
  have "world_trades (store_event S ev s) \<subseteq># add_mset (event_trade ev) (world_trades s)"
    by (auto simp: store_event_def dw_service_def trade_body_def event_trade_def stored_def)
  ultimately show ?thesis by (simp add: books_def progress_defs) (simp add: store_event_def)
qed

lemma solve_stage_effect:
  assumes "solve_stage E S m st s = (st', s')" and "\<not> over st" and "solve_ok E m st"
    and "service_inv (dw_service s)"
  shows "books st s st' s' \<and> solve_ok E m st'"
proof -
  consider txid where "st = HasTxid txid" | ev where "st = HasEvent ev" | "\<not> sent st"
    using assms(2) by (cases st) (auto simp: progress_defs)
  then show ?thesis
  proof cases
    case 1
    obtain w where w: "next_stage HasEvent (\<lambda>_. Settled None) (publish (daemon_config E S (dw_db s)) m txid (dw_plugin s))
        = (st', w)" "s' = s\<lparr>dw_plugin := w\<rparr>"
      using assms(1) 1 by (auto simp: solve_stage_def Let_def split: prod.splits)
    have "sent st \<and> past_contract st \<and> published st = {#}" by (simp add: 1 progress_defs)
    with publish_effect [OF w(1)] assms(3,4) w(2) show ?thesis
      by (auto simp: books_def solve_ok_def) blast
  next
    case 2
    with assms(1) have *: "st' = Over (Settled (Some ev))" "s' = store_event S ev s" by (auto simp: solve_stage_def)
    from assms(3) 2 have "solve_ok E m st'" by (auto simp: solve_ok_def *(1) progress_defs)
    with store_effect [OF assms(4), of ev S] 2 * show ?thesis by simp
  next
    case 3
    have "solve_stage E S m st s = (case taker_stage (env_taker E) (bo_Offer (mo_Offer m)) st (pw_ark (dw_plugin s)) of
        (st', a) \<Rightarrow> (st', with_ark s a))"
      using 3 assms(2) by (cases st) (simp_all add: solve_stage_def progress_defs)
    with assms(1) obtain a where a: "taker_stage (env_taker E) (bo_Offer (mo_Offer m)) st (pw_ark (dw_plugin s)) = (st', a)"
      "s' = with_ark s a" by (auto split: prod.splits)
    have "published st = {#}" using 3 by (cases st) (auto simp: progress_defs split: outcome.splits)
    with taker_stage_effect [OF a(1) assms(2) 3] 3 assms(3,4) a(2) show ?thesis
      by (auto simp: books_def solve_ok_def)
  qed
qed

text \<open>A match reads, and lets through what is gated.\<close>

definition checking_ok :: "('aid, 'pk) match_progress \<Rightarrow> bool" where
  "checking_ok st \<longleftrightarrow> (case st of Idle \<Rightarrow> True | Checking m i \<Rightarrow> valid_pair (mo_Pair m)
     \<and> WantAsset (bo_Offer (mo_Offer m)) \<noteq> None
     \<and> (0 < i \<longrightarrow> MinAmount (mo_Pair m) \<le> WantAmount (bo_Offer (mo_Offer m))
          \<and> WantAmount (bo_Offer (mo_Offer m)) \<le> MaxAmount (mo_Pair m)))"

lemma match_stage_silent:
  assumes "match_stage E S tx st s = (q, s')"
  shows "dw_db s' = dw_db s \<and> rpcs (pw_ark (dw_plugin s')) = rpcs (pw_ark (dw_plugin s)) \<and> world_events s' = world_events s"
proof -
  let ?D = "WithDefault (daemon_config E S (dw_db s))"
  have d: "silent (extensionDecode (env_lib E) (decode ?D) (Some tx))"
    by (rule silent_extensionDecode) (rule silent_stages)
  show ?thesis
  proof (cases st)
    case Idle
    with assms silentD [OF d] show ?thesis
      by (auto simp: match_stage_def NewPlugin_eq split: if_splits prod.splits sum.splits)
  next
    case (Checking m i)
    let ?vs = "[checkAmountInRange, checkPriceTolerance ?D, checkBTCBalance ?D]"
    have "silent ((?vs ! i) m)" if "i < 3"
      using that silent_stages by (auto simp: numeral_3_eq_3 less_Suc_eq)
    from silentD [OF this] assms Checking show ?thesis
      by (cases "(?vs ! i) m (dw_plugin s)")
        (auto simp: match_stage_def NewPlugin_eq split: if_splits sum.splits)
  qed
qed

lemma match_stage_ok:
  assumes "match_stage E S tx st s = (q, s')" and "checking_ok st" and "service_inv (dw_service s)"
    and "\<forall>u. reorders (svc_scan S u)"
  shows "case q of Inl st' \<Rightarrow> checking_ok st' | Inr r \<Rightarrow> (\<forall>m. r = Some m \<longrightarrow> gated m)"
proof (cases st)
  case Idle
  have db: "pairs_inv (dw_db s)" "ran (pairs_view (dw_db s)) \<subseteq> Collect valid_pair"
    using assms(3) by (simp_all add: service_inv_def dw_service_def)
  from assms(1) Idle show ?thesis
    by (auto simp: match_stage_def NewPlugin_eq checking_ok_def dest!: decode_valid [OF db assms(4)]
        split: if_splits prod.splits sum.splits)
next
  case (Checking m i)
  with assms(1,2) show ?thesis
    by (cases i) (auto simp: match_stage_def NewPlugin_eq checking_ok_def gated_def checkAmountInRange_def retI_def
        not_less split: if_splits prod.splits sum.splits)
qed

subsection \<open>The invariant\<close>

definition ledger :: "(('aid, 'pk) matched_offer \<times> ('pk, 'z) solve_progress) list \<Rightarrow> 'w daemon_world \<Rightarrow> bool" where
  "ledger ts s \<longleftrightarrow> service_inv (dw_service s)
     \<and> world_submits s = size (filter_mset (\<lambda>(m, st). sent st) (mset ts))
     \<and> mset (world_events s) = (\<Sum>(m, st) \<in># mset ts. published st)
     \<and> world_trades s \<subseteq># image_mset event_trade (\<Sum>(m, st) \<in># mset ts. filed st)"

definition fine_inv :: "('aid, 'pk, 'x, 'z, 'w) banco_env \<Rightarrow> ('aid, 'pk, 'z, 'w) fine_state \<Rightarrow> bool" where
  "fine_inv E f \<longleftrightarrow> ledger (f_solves f) (rs_world (f_run f)) \<and> checking_ok (f_match f)
     \<and> (\<forall>(m, st) \<in> set (f_solves f). solve_ok E m st)"

lemma ledger_same:
  "service_inv (dw_service s') \<Longrightarrow> world_submits s' = world_submits s \<Longrightarrow> world_events s' = world_events s \<Longrightarrow>
   db_trades (dw_db s') = db_trades (dw_db s) \<Longrightarrow> ledger ts s \<Longrightarrow> ledger ts s'"
  by (simp add: ledger_def)

lemma ledger_begin: "ledger ts s \<Longrightarrow> ledger (ts @ [(m, Begin)]) s"
  by (simp add: ledger_def progress_defs)

lemma ledger_solve:
  assumes "ledger ts s" and "i < length ts" and "ts ! i = (m, st)" and "\<not> over st" and "books st s st' s'"
  shows "ledger (ts[i := (m, st')]) s'"
proof -
  from mset_at [OF assms(2)] obtain M where M: "mset ts = add_mset (m, st) M"
    "mset (ts[i := (m, st')]) = add_mset (m, st') M" using assms(3) by metis
  have f: "filed st = {#}" using assms(4) by (cases st) (simp_all add: progress_defs)
  from assms(1) have l: "world_submits s = (if sent st then 1 else 0) + size (filter_mset (\<lambda>(m, st). sent st) M)"
    "mset (world_events s) = published st + (\<Sum>(m, st) \<in># M. published st)"
    "world_trades s \<subseteq># image_mset event_trade (\<Sum>(m, st) \<in># M. filed st)"
    by (simp_all add: ledger_def M(1) f)
  from assms(5) have b: "service_inv (dw_service s')"
    "world_submits s' + (if sent st then 1 else 0) = world_submits s + (if sent st' then 1 else 0)"
    "mset (world_events s') + published st = mset (world_events s) + published st'"
    "world_trades s' \<subseteq># world_trades s + image_mset event_trade (filed st')"
    by (simp_all add: books_def)
  have "mset (world_events s') = published st' + (\<Sum>(m, st) \<in># M. published st)"
    using b(3) unfolding l(2) by (simp add: ac_simps)
  moreover have "world_trades s' \<subseteq># image_mset event_trade (filed st' + (\<Sum>(m, st) \<in># M. filed st))"
    using subset_mset.order_trans [OF b(4) subset_mset.add_right_mono [OF l(3)]] by (simp add: ac_simps)
  ultimately show ?thesis using b(1,2) l(1) by (simp add: ledger_def M(2))
qed

lemma fine_inv_service: "fine_inv E f \<Longrightarrow> service_inv (dw_service (rs_world (f_run f)))"
  by (simp add: fine_inv_def ledger_def)

lemma service_inv_db: "dw_db s' = dw_db s \<Longrightarrow> service_inv (dw_service s') = service_inv (dw_service s)"
  by (simp add: dw_service_def service_inv_def)

lemma fine_inv_own:
  assumes "fine_inv E f" and "\<forall>u. reorders (svc_scan S u)" and "fine_own E S f g"
  shows "fine_inv E g"
  using assms(3)
proof cases
  case (loop t)
  with assms(1) loop_keeps [OF loop(2-4)] show ?thesis by (simp add: fine_inv_def)
next
  case (examine tx st w)
  note match_stage_silent [OF examine(3)] match_stage_ok [OF examine(3) _ fine_inv_service [OF assms(1)] assms(2)]
  with assms(1) service_inv_db [of w "rs_world (f_run f)"] show ?thesis
    unfolding examine(1) by (auto simp: fine_inv_def ledger_def)
next
  case (decide tx r w)
  note match_stage_silent [OF decide(3)] match_stage_ok [OF decide(3) _ fine_inv_service [OF assms(1)] assms(2)]
  with assms(1) service_inv_db [of w "rs_world (f_run f)"]
  have "ledger (f_solves f) w" "\<forall>m. r = Some m \<longrightarrow> gated m" by (auto simp: fine_inv_def ledger_def)
  with assms(1) show ?thesis
    unfolding decide(1) by (auto simp: fine_inv_def checking_ok_def solve_ok_def progress_defs ledger_begin split: option.split)
next
  case (solve i m st st' w)
  have "(m, st) \<in> set (f_solves f)" using nth_mem [OF solve(2)] solve(3) by simp
  with assms(1) have "solve_ok E m st" by (auto simp: fine_inv_def)
  then have *: "books st (rs_world (f_run f)) st' w" "solve_ok E m st'"
    using solve_stage_effect [OF solve(5,4) _ fine_inv_service [OF assms(1)]] by simp_all
  from assms(1) have "ledger (f_solves f) (rs_world (f_run f))" by (simp add: fine_inv_def)
  from ledger_solve [OF this solve(2-4) *(1)] assms(1) *(2)
    set_update_subset_insert [of "f_solves f" i "(m, st')"] show ?thesis
    unfolding solve(1) by (auto simp: fine_inv_def after_solve_def)
qed

lemma fine_inv_env:
  assumes "fine_inv E f" and "fine_env S f g"
  shows "fine_inv E g"
  using assms(2)
proof cases
  case (callers t)
  from callers(2) have "rs_world t = rs_world (f_run f)" by (auto elim!: env_stepE)
  with assms(1) callers(1) show ?thesis by (simp add: fine_inv_def)
next
  case (operate v)
  let ?w = "rs_world (f_run f)"
  have "service_inv (dw_service (set_service v ?w))"
    using service_inv_step [OF fine_inv_service [OF assms(1)] operator_service [OF operate(2)]] by simp
  moreover have "db_trades (dw_db (set_service v ?w)) = db_trades (dw_db ?w)"
    using operator_trades [OF operate(2)] by (simp add: dw_service_def)
  moreover from assms(1) have "ledger (f_solves f) ?w" by (simp add: fine_inv_def)
  ultimately have "ledger (f_solves f) (set_service v ?w)" by (simp add: ledger_def)
  with assms(1) show ?thesis unfolding operate(1) by (simp add: fine_inv_def)
qed

lemma fine_inv_start: "fine_inv E (fine_start E u)"
proof -
  have "service_inv \<lparr>sw_out = u, sw_db = empty_db\<rparr>" by (rule service.inv_init) simp
  then show ?thesis
    by (simp add: fine_inv_def fine_start_def daemon_start_def run_start_def ledger_def dw_service_def initWorld_def
        checking_ok_def) (simp add: empty_db_def)
qed

text \<open>The invariant under the documented behaviour of the database: a query returns every row once.\<close>

interpretation fine: invariant_system "\<lambda>f. \<exists>u. f = fine_start E u"
  "\<lambda>f g. (\<forall>u. reorders (svc_scan S u)) \<and> fine_step E S f g" "fine_inv E" for E S
  by unfold_locales (auto simp: fine_step_def fine_inv_start intro: fine_inv_own fine_inv_env)

lemma fine_reachable:
  assumes "\<forall>u. reorders (svc_scan S u)" and "(fine_step E S)\<^sup>*\<^sup>* (fine_start E u) f"
  shows "fine_inv E f"
proof -
  have "(\<lambda>f g. (\<forall>u. reorders (svc_scan S u)) \<and> fine_step E S f g) = fine_step E S"
    using assms(1) by simp
  then show ?thesis using fine.inv_reachable [of "fine_start E u" E S f] assms(2) by auto
qed

section \<open>Prices\<close>

text \<open>\<open>Q key p\<close> stands for: the feed has replied with price \<open>p\<close> for \<open>key\<close>. The cache holds such prices
  only, and a solve is started only for an offer that was within the tolerance of one of them.\<close>

definition quotes :: "('aid, 'pk, 'x, 'z, 'w) banco_env \<Rightarrow> (string \<Rightarrow> f64 \<Rightarrow> bool) \<Rightarrow> bool" where
  "quotes E Q \<longleftrightarrow> (\<forall>key u p u'. env_Fetch E key u = (Inr p, u') \<longrightarrow> Q key p)"

definition priced :: "(string \<Rightarrow> f64 \<Rightarrow> bool) \<Rightarrow> ('aid, 'pk) matched_offer \<Rightarrow> bool" where
  "priced Q m \<longleftrightarrow> (\<exists>p e. Q (TrimSpace (PriceFeed (mo_Pair m))) p \<and> priceInTolerance m (p, e))"

abbreviation quoted :: "(string \<Rightarrow> f64 \<Rightarrow> bool) \<Rightarrow> 'w plugin_world \<Rightarrow> bool" where
  "quoted Q w \<equiv> reported (\<lambda>key t. Q key) (pw_cache w)"

lemma quotes_honest: "quotes E Q \<Longrightarrow> honest (\<lambda>key t. Q key) now (\<lambda>key. extI (env_Fetch E key))"
  by (auto simp: quotes_def honest_def extI_def split: prod.splits)

lemma getPrice_quoted:
  assumes "quotes E Q" and "quoted Q w" and "getPrice E url w = (r, w')"
  shows "quoted Q w' \<and> (\<forall>p e. r = Inr (p, e) \<longrightarrow> Q (TrimSpace url) p \<or> p = Zero False \<and> e \<noteq> None)"
proof (cases "arkI (env_Now E) w")
  case (Pair n w1)
  then have c: "pw_cache w1 = pw_cache w" by (auto simp: arkI_def extI_def split: prod.splits)
  show ?thesis
  proof (cases n)
    case (Inl f)
    with assms(2,3) Pair c show ?thesis by (auto simp: getPrice_def bindI_def)
  next
    case (Inr now)
    obtain q c' a where g: "get (\<lambda>key. extI (env_Fetch E key)) now url (pw_cache w) (pw_ark w1) = (q, c', a)"
      by (metis prod_cases3)
    with assms(3) Pair Inr c have w': "r = q" "w' = w1\<lparr>pw_cache := c', pw_ark := a\<rparr>"
      by (simp_all add: getPrice_def bindI_def)
    note h = quotes_honest [OF assms(1)]
    have "reported (\<lambda>key t. Q key) c'"
      using get_cache_step [OF g h] assms(2) by (auto intro: cache.inv_step)
    moreover have "Q (TrimSpace url) p \<or> p = Zero False \<and> e \<noteq> None" if "q = Inr (p, e)" for p e
    proof (cases e)
      case None
      with that g get_reported [OF assms(2) h] show ?thesis by blast
    next
      case (Some x)
      with g that have "get (\<lambda>key. extI (env_Fetch E key)) now url (pw_cache w) (pw_ark w1) = (Inr (p, Some x), c', a)" by simp
      from get_stale [OF assms(2) this] Some show ?thesis by blast
    qed
    ultimately show ?thesis using w' by simp
  qed
qed

lemma checkPriceTolerance_quoted:
  assumes "quotes E Q" and "quoted Q w" and "checkPriceTolerance E m w = (r, w')"
  shows "quoted Q w' \<and> (r = Inr True \<longrightarrow> priced Q m)"
proof -
  obtain q w1 where g: "getPrice E (PriceFeed (mo_Pair m)) w = (q, w1)" by fastforce
  with assms(3) have "w' = w1" "r = Inr True \<longrightarrow> (\<exists>p e. q = Inr (p, e) \<and> priceInTolerance m (p, e))"
    by (auto simp: checkPriceTolerance_def bindI_def retI_def split: sum.splits)
  moreover have "\<not> priceInTolerance m (Zero False, Some e)" for e by (simp add: priceInTolerance_def feq_def)
  ultimately show ?thesis using getPrice_quoted [OF assms(1,2) g] unfolding priced_def by blast
qed

definition pricing_ok :: "(string \<Rightarrow> f64 \<Rightarrow> bool) \<Rightarrow> ('aid, 'pk) match_progress \<Rightarrow> bool" where
  "pricing_ok Q st \<longleftrightarrow> (case st of Idle \<Rightarrow> True | Checking m i \<Rightarrow> 1 < i \<longrightarrow> priced Q m)"

text \<open>Nothing else touches the cache.\<close>

abbreviation uncached :: "('w plugin_world, 'a) io \<Rightarrow> bool" where
  "uncached \<equiv> moves (\<lambda>w w'. pw_cache w' = pw_cache w)"

interpretation caching: io_preorder "\<lambda>w w'. pw_cache w' = pw_cache w"
  by unfold_locales auto

lemma uncached_arkI: "uncached (arkI m)"
  by (simp add: moves_def arkI_def split: prod.split)

lemma uncached_decode: "uncached (extensionDecode B (decode E) tx)"
  unfolding extensionDecode_def decode_def
  by (auto intro!: caching.moves_bindI caching.moves_wrapI caching.moves_basic uncached_arkI
      split: option.split sum.split failure.split)

lemma uncached_checks: "uncached (checkAmountInRange m)" "uncached (checkBTCBalance E m)"
  unfolding checkAmountInRange_def checkBTCBalance_def
  by (auto intro!: caching.moves_bindI caching.moves_wrapI caching.moves_basic uncached_arkI)

lemma uncached_publish: "uncached (publish E m txid)"
  unfolding publish_def Let_def
  by (intro caching.moves_bindI caching.moves_basic uncached_arkI) (simp add: moves_def onFulfill_def)

lemma uncached_solve_stage:
  assumes "solve_stage E S m st s = (st', s')"
  shows "pw_cache (dw_plugin s') = pw_cache (dw_plugin s)"
proof (cases st)
  case (HasTxid txid)
  obtain r w where p: "publish (daemon_config E S (dw_db s)) m txid (dw_plugin s) = (r, w)" by fastforce
  from caching.moved [OF uncached_publish p] assms p show ?thesis
    by (auto simp: HasTxid solve_stage_def next_stage_def split: sum.splits)
qed (use assms in \<open>auto simp: solve_stage_def store_event_def set_service_def split: prod.splits\<close>)

lemma match_stage_quoted:
  assumes "quotes E Q" and "match_stage E S tx st s = (q, s')" and "quoted Q (dw_plugin s)" and "pricing_ok Q st"
  shows "quoted Q (dw_plugin s') \<and> (case q of Inl st' \<Rightarrow> pricing_ok Q st' | Inr r \<Rightarrow> (\<forall>m. r = Some m \<longrightarrow> priced Q m))"
proof (cases st)
  case Idle
  let ?D = "WithDefault (daemon_config E S (dw_db s))"
  obtain r w where d: "extensionDecode (env_lib E) (decode ?D) (Some tx) (dw_plugin s) = (r, w)" by fastforce
  from caching.moved [OF uncached_decode d] assms(2,3) Idle d show ?thesis
    by (auto simp: match_stage_def NewPlugin_eq pricing_ok_def split: if_splits sum.splits)
next
  case (Checking m i)
  let ?D = "WithDefault (daemon_config E S (dw_db s))"
  have D: "quotes ?D Q" using assms(1) by (simp add: quotes_def daemon_config_def)
  consider "i = 0" | "i = 1" | "i = 2" | "2 < i" by linarith
  then show ?thesis
  proof cases
    case 1
    obtain r w where "checkAmountInRange m (dw_plugin s) = (r, w)" by fastforce
    with caching.moved [OF uncached_checks(1) this] assms(2,3) 1 Checking show ?thesis
      by (auto simp: match_stage_def NewPlugin_eq pricing_ok_def split: if_splits sum.splits)
  next
    case 2
    obtain r w where "checkPriceTolerance ?D m (dw_plugin s) = (r, w)" by fastforce
    with checkPriceTolerance_quoted [OF D assms(3) this] assms(2) 2 Checking show ?thesis
      by (auto simp: match_stage_def NewPlugin_eq pricing_ok_def split: if_splits sum.splits)
  next
    case 3
    obtain r w where "checkBTCBalance ?D m (dw_plugin s) = (r, w)" by fastforce
    with caching.moved [OF uncached_checks(2) this] assms(2,3,4) 3 Checking show ?thesis
      by (auto simp: match_stage_def NewPlugin_eq pricing_ok_def split: if_splits sum.splits)
  next
    case 4
    with assms(2-4) Checking show ?thesis
      by (auto simp: match_stage_def NewPlugin_eq pricing_ok_def)
  qed
qed

definition priced_inv :: "(string \<Rightarrow> f64 \<Rightarrow> bool) \<Rightarrow> ('aid, 'pk, 'z, 'w) fine_state \<Rightarrow> bool" where
  "priced_inv Q f \<longleftrightarrow> quoted Q (dw_plugin (rs_world (f_run f))) \<and> pricing_ok Q (f_match f)
     \<and> (\<forall>(m, st) \<in> set (f_solves f). priced Q m)"

lemma priced_inv_own:
  assumes "quotes E Q" and "priced_inv Q f" and "fine_own E S f g"
  shows "priced_inv Q g"
  using assms(3)
proof cases
  case (loop t)
  with assms(2) loop_keeps [OF loop(2-4)] show ?thesis by (simp add: priced_inv_def)
next
  case (examine tx st w)
  with assms(2) match_stage_quoted [OF assms(1) examine(3)] show ?thesis by (simp add: priced_inv_def)
next
  case (decide tx r w)
  with assms(2) match_stage_quoted [OF assms(1) decide(3)] show ?thesis
    by (auto simp: priced_inv_def pricing_ok_def split: option.splits)
next
  case (solve i m st st' w)
  have "(m, st) \<in> set (f_solves f)" using nth_mem [OF solve(2)] solve(3) by simp
  with assms(2) uncached_solve_stage [OF solve(5)] set_update_subset_insert [of "f_solves f" i "(m, st')"]
  show ?thesis unfolding solve(1) by (auto simp: priced_inv_def after_solve_def)
qed

lemma priced_inv_env:
  assumes "priced_inv Q f" and "fine_env S f g"
  shows "priced_inv Q g"
  using assms(2)
proof cases
  case (callers t)
  from callers(2) have "rs_world t = rs_world (f_run f)" by (auto elim!: env_stepE)
  with assms(1) callers(1) show ?thesis by (simp add: priced_inv_def)
qed (use assms(1) in \<open>simp add: priced_inv_def set_service_def\<close>)

lemma priced_inv_start: "priced_inv Q (fine_start E u)"
  by (simp add: priced_inv_def fine_start_def daemon_start_def run_start_def initWorld_def newPriceCache_def
      reported_def pricing_ok_def)

interpretation prices: invariant_system "\<lambda>f. \<exists>u. f = fine_start E u"
  "\<lambda>f g. quotes E Q \<and> fine_step E S f g" "priced_inv Q" for E S Q
  by unfold_locales (auto simp: fine_step_def priced_inv_start intro: priced_inv_own priced_inv_env)

lemma priced_reachable:
  assumes "quotes E Q" and "(fine_step E S)\<^sup>*\<^sup>* (fine_start E u) f"
  shows "priced_inv Q f"
proof -
  have "(\<lambda>f g. quotes E Q \<and> fine_step E S f g) = fine_step E S" using assms(1) by simp
  then show ?thesis using prices.inv_reachable [of "fine_start E u" E Q S f] assms(2) by auto
qed

section \<open>Atomic actions\<close>

text \<open>What the ledger says of the daemon of \<open>System\<close>, read off the run that refines its own.\<close>

lemma over_counts: "between f \<Longrightarrow> solves_inv f \<Longrightarrow>
    size {#(m, st) \<in># mset (f_solves f). sent st#} \<le> length (rs_finished (f_run f))"
proof -
  assume b: "between f" and i: "solves_inv f"
  have "mset (rs_started (f_run f)) = in_flight (f_solves f) + mset (rs_finished (f_run f))"
    using i unfolding solves_inv_def run_inv_def by metis
  from arg_cong [OF this, of size]
  have "length (rs_started (f_run f)) = size (in_flight (f_solves f)) + length (rs_finished (f_run f))" by simp
  moreover have "size (mset (f_solves f)) = size {#(m, st) \<in># mset (f_solves f). \<not> over st#}
      + size {#(m, st) \<in># mset (f_solves f). over st#}"
    by (simp add: case_prod_unfold flip: size_union)
  ultimately have "length (rs_finished (f_run f)) = size {#(m, st) \<in># mset (f_solves f). over st#}"
    using i by (simp add: solves_inv_def in_flight_def)
  moreover have "{#(m, st) \<in># mset (f_solves f). sent st#} \<subseteq># {#(m, st) \<in># mset (f_solves f). over st#}"
    using b by (intro filter_mset_mono_strong) (auto simp: between_def sent_def)
  ultimately show ?thesis by (simp add: size_mset_mono)
qed

lemma published_sent: "size (published st) \<le> (if sent st then 1 else 0)"
  by (auto simp: progress_defs split: solve_progress.split outcome.split option.split)

lemma filed_published: "filed st \<subseteq># published st"
  by (auto simp: progress_defs split: solve_progress.split outcome.split option.split)

lemma published_counts: "size (\<Sum>(m, st) \<in># M. published st) \<le> size {#(m, st) \<in># M. sent st#}"
proof (induction M)
  case (add x M)
  with published_sent [of "snd x"] show ?case by (cases x) (simp split: if_splits)
qed simp

lemma all_filed_published: "(\<Sum>(m, st) \<in># M. filed st) \<subseteq># (\<Sum>(m, st) \<in># M. published st)"
  by (induction M) (auto intro!: subset_mset.add_mono filed_published)

lemma filed_some: "(\<Sum>(m, st) \<in># M. filed st) \<noteq> {#} \<Longrightarrow> \<exists>(m, st) \<in># M. filed st \<noteq> {#}"
  by (induction M) auto

lemma ledger_bounds:
  assumes "ledger ts s"
  shows "length (world_events s) \<le> world_submits s" and "length (db_trades (dw_db s)) \<le> length (world_events s)"
    and "r \<in> set (db_trades (dw_db s)) \<Longrightarrow> \<exists>ev \<in> set (world_events s). toTrade r = stored (tradeOf ev) (tr_id r)"
proof -
  from assms have l: "world_submits s = size {#(m, st) \<in># mset ts. sent st#}"
    "mset (world_events s) = (\<Sum>(m, st) \<in># mset ts. published st)"
    "world_trades s \<subseteq># image_mset event_trade (\<Sum>(m, st) \<in># mset ts. filed st)" by (simp_all add: ledger_def)
  show "length (world_events s) \<le> world_submits s"
    using published_counts [of "mset ts"] l(1,2) by (metis size_mset)
  have t: "world_trades s \<subseteq># image_mset event_trade (mset (world_events s))"
    unfolding l(2) by (rule subset_mset.order_trans [OF l(3) image_mset_subseteq_mono [OF all_filed_published]])
  from size_mset_mono [OF this] show "length (db_trades (dw_db s)) \<le> length (world_events s)" by simp
  assume "r \<in> set (db_trades (dw_db s))"
  then have "trade_body r \<in># world_trades s" by simp
  with t have "trade_body r \<in># image_mset event_trade (mset (world_events s))" by (rule mset_subset_eqD)
  then obtain ev where "ev \<in> set (world_events s)" "trade_body r = event_trade ev" by auto
  moreover have "toTrade r = (trade_body r)\<lparr>t_ID := tr_id r\<rparr>" by (simp add: trade_body_def toTrade_def)
  moreover have "(event_trade ev)\<lparr>t_ID := i\<rparr> = stored (tradeOf ev) i" for ev i
    by (simp add: event_trade_def stored_def tradeOf_def)
  ultimately show "\<exists>ev \<in> set (world_events s). toTrade r = stored (tradeOf ev) (tr_id r)" by auto
qed

theorem trades_are_fulfilled:
  assumes "\<forall>u. reorders (svc_scan S u)" and "(daemon_step E S)\<^sup>*\<^sup>* (daemon_start E u) s"
  shows "(\<forall>(n, m) \<in> set (rs_started s). gated m)
    \<and> submits (rpcs (pw_ark (dw_plugin (rs_world s)))) \<le> length (rs_finished s)
    \<and> length (pw_events (dw_plugin (rs_world s))) \<le> submits (rpcs (pw_ark (dw_plugin (rs_world s))))
    \<and> length (db_trades (dw_db (rs_world s))) \<le> length (pw_events (dw_plugin (rs_world s)))
    \<and> (\<forall>r \<in> set (db_trades (dw_db (rs_world s))). \<exists>ev \<in> set (pw_events (dw_plugin (rs_world s))).
         toTrade r = stored (tradeOf ev) (tr_id r))"
proof -
  from atomic_runs [OF assms(2)] obtain f where f: "(fine_step E S)\<^sup>*\<^sup>* (fine_start E u) f" "atomic_view f s" by blast
  then have v: "f_run f = s" "between f" "solves_inv f" by (simp_all add: atomic_view_def)
  from fine_reachable [OF assms(1) f(1)] v(1) have l: "ledger (f_solves f) (rs_world s)"
    "\<forall>(m, st) \<in> set (f_solves f). gated m" by (auto simp: fine_inv_def solve_ok_def)
  have "\<forall>(n, m) \<in> set (rs_started s). gated m" using v l(2) by (auto simp: solves_inv_def)
  with ledger_bounds [OF l(1)] over_counts [OF v(2,3)] l(1) v(1) show ?thesis by (simp add: ledger_def)
qed

section \<open>Property\<close>

text \<open>C5. From the transaction to the trade, with every goroutine interrupted between any two calls: every
  solve is for an offer of an asset, of a valid pair, within its limits and within the tolerance of a
  price the feed has replied for that pair, and goes past its first call only with a verified contract; the submissions are as many as the solves that have reached theirs;
  the published events are, as a multiset, those of the solves, each solve with at most one and of its own
  offer; and the trades in the database are, but for their ids, among those of the solves that are
  over, no event being stored twice.\<close>

theorem interleaved_trades:
  assumes "\<forall>u. reorders (svc_scan S u)" and "quotes E Q" and "(fine_step E S)\<^sup>*\<^sup>* (fine_start E u) f"
  shows "(\<forall>(m, st) \<in> set (f_solves f). gated m \<and> priced Q m
      \<and> (past_contract st \<longrightarrow> contract_matches (env_taker E) (bo_Offer (mo_Offer m)))
      \<and> (\<forall>ev \<in># published st. \<exists>txid now. ev = fulfillmentEvent (base_lib (env_lib E)) m txid now))
    \<and> world_submits (rs_world (f_run f)) = size {#(m, st) \<in># mset (f_solves f). sent st#}
    \<and> mset (world_events (rs_world (f_run f))) = (\<Sum>(m, st) \<in># mset (f_solves f). published st)
    \<and> world_trades (rs_world (f_run f)) \<subseteq># image_mset event_trade (\<Sum>(m, st) \<in># mset (f_solves f). filed st)"
  using fine_reachable [OF assms(1,3)] priced_reachable [OF assms(2,3)]
  by (auto simp: fine_inv_def ledger_def solve_ok_def priced_inv_def)

theorem interleaved_trades_witness:
  "\<exists>f. (fine_step sample_env sample_dservice)\<^sup>*\<^sup>* (fine_start sample_env ()) f
    \<and> 1 \<le> world_submits (rs_world (f_run f)) \<and> (\<exists>(m, st) \<in> set (f_solves f). gated m \<and> filed st \<noteq> {#}
      \<and> (\<exists>p e. (\<exists>u u'. env_Fetch sample_env (TrimSpace (PriceFeed (mo_Pair m))) u = (Inr p, u')) \<and> priceInTolerance m (p, e)))"
proof -
  obtain f where f: "(fine_step sample_env sample_dservice)\<^sup>*\<^sup>* (fine_start sample_env ()) f"
    "length (db_trades (dw_db (rs_world (f_run f)))) = 1" using sample_fine_day by blast
  have "\<forall>u. reorders (svc_scan sample_dservice u)"
    by (simp add: sample_dservice_def sample_service_def reorders_def)
  moreover have "quotes sample_env (\<lambda>key p. \<exists>u u'. env_Fetch sample_env key u = (Inr p, u'))" (is "quotes _ ?Q")
    by (auto simp: quotes_def)
  ultimately have t: "\<forall>(m, st) \<in> set (f_solves f). gated m \<and> priced ?Q m"
    "world_submits (rs_world (f_run f)) = size {#(m, st) \<in># mset (f_solves f). sent st#}"
    "world_trades (rs_world (f_run f)) \<subseteq># image_mset event_trade (\<Sum>(m, st) \<in># mset (f_solves f). filed st)"
    using interleaved_trades [OF _ _ f(1), of ?Q] by auto
  have "(\<Sum>(m, st) \<in># mset (f_solves f). filed st) \<noteq> {#}"
  proof
    assume "(\<Sum>(m, st) \<in># mset (f_solves f). filed st) = {#}"
    with t(3) have "world_trades (rs_world (f_run f)) = {#}" by (metis image_mset_empty subset_mset.le_zero_eq)
    with f(2) show False by simp
  qed
  then obtain m st where m: "(m, st) \<in> set (f_solves f)" "filed st \<noteq> {#}" using filed_some by fastforce
  then have "(m, st) \<in># {#(m, st) \<in># mset (f_solves f). sent st#}"
    by (auto simp: progress_defs split: solve_progress.splits outcome.splits)
  then have "size {#(m, st) \<in># mset (f_solves f). sent st#} \<noteq> 0"
    by (metis (no_types, lifting) empty_iff set_mset_empty size_eq_0_iff_empty)
  moreover have "gated m \<and> priced ?Q m" using t(1) m(1) by auto
  ultimately have "gated m \<and> priced ?Q m" "1 \<le> world_submits (rs_world (f_run f))" using t(2) by linarith+
  with f(1) m show ?thesis by (intro exI [of _ f] conjI bexI [of _ "(m, st)"]) (simp_all add: priced_def)
qed

end
