(* ===== verification/Shutdown.thy ===== *)
theory Shutdown
  imports Lifecycle Ledger
begin

text \<open>
  The daemon under the service that starts and stops it: the life cycle of \<open>Lifecycle\<close>
  (\<^verbatim>\<open>internal/core/application/service.go\<close>) around the interleaved daemon of \<open>Interleaving\<close>. The goroutine of
  Start is in \<^verbatim>\<open>solver.Run\<close> exactly while Run and its solves act, and goes on when Run has returned. The
  context of Run is canceled by Stop only; the channel is closed by its source at any time.
  \<^verbatim>\<open>cmd/bancod/main.go\<close> calls Start once.

  The composition projects to both components, which hands it their invariants.
\<close>

section \<open>The composition\<close>

record ('aid, 'pk, 'z, 'w) whole =
  wh_svc :: taker_service
  wh_fine :: "('aid, 'pk, 'z, 'w) fine_state"

definition whole_start :: "('aid, 'pk, 'x, 'z, 'w) banco_env \<Rightarrow> 'w \<Rightarrow> ('aid, 'pk, 'z, 'w) whole" where
  "whole_start E u = \<lparr>wh_svc = new_service, wh_fine = fine_start E u\<rparr>"

text \<open>Canceling a context again does nothing.\<close>

definition cancel_run :: "('aid, 'pk, 'z, 'w) fine_state \<Rightarrow> ('aid, 'pk, 'z, 'w) fine_state" where
  "cancel_run f = f\<lparr>f_run := (f_run f)\<lparr>rs_ctxErr := (case rs_ctxErr (f_run f) of None \<Rightarrow> Some Canceled | Some e \<Rightarrow> Some e)\<rparr>\<rparr>"

inductive whole_own :: "('aid, 'pk, 'x, 'z, 'w) banco_env \<Rightarrow> 'w service_env \<Rightarrow>
    ('aid, 'pk, 'z, 'w) whole \<Rightarrow> ('aid, 'pk, 'z, 'w) whole \<Rightarrow> bool" for E S where
  run: "ts_runs (wh_svc x) = [InRun c] \<Longrightarrow> fine_own E S (wh_fine x) f \<Longrightarrow> whole_own E S x (x\<lparr>wh_fine := f\<rparr>)"
| go: "go_step (wh_svc x) s \<Longrightarrow> (\<forall>c. ts_runs (wh_svc x) = [InRun c] \<longrightarrow> returned (f_run (wh_fine x))) \<Longrightarrow>
    whole_own E S x (x\<lparr>wh_svc := s\<rparr>)"

inductive whole_env :: "'w service_env \<Rightarrow> ('aid, 'pk, 'z, 'w) whole \<Rightarrow> ('aid, 'pk, 'z, 'w) whole \<Rightarrow> bool" for S where
  start: "ts_runs (wh_svc x) = [] \<Longrightarrow> whole_env S x (x\<lparr>wh_svc := Start (wh_svc x)\<rparr>)"
| stop: "\<not> ts_stopping (wh_svc x) \<Longrightarrow> whole_env S x (x\<lparr>wh_svc := Stop_begin (wh_svc x),
    wh_fine := (if ts_cancel (wh_svc x) = None then wh_fine x else cancel_run (wh_fine x))\<rparr>)"
| stopped: "ts_stopping (wh_svc x) \<Longrightarrow> Stop_can_return (wh_svc x) \<Longrightarrow>
    whole_env S x (x\<lparr>wh_svc := (wh_svc x)\<lparr>ts_stopping := False\<rparr>\<rparr>)"
| outside: "fine_env S (wh_fine x) f \<Longrightarrow> rs_ctxErr (f_run f) = rs_ctxErr (f_run (wh_fine x)) \<Longrightarrow>
    whole_env S x (x\<lparr>wh_fine := f\<rparr>)"

definition whole_step :: "('aid, 'pk, 'x, 'z, 'w) banco_env \<Rightarrow> 'w service_env \<Rightarrow>
    ('aid, 'pk, 'z, 'w) whole \<Rightarrow> ('aid, 'pk, 'z, 'w) whole \<Rightarrow> bool" where
  "whole_step E S x y \<longleftrightarrow> whole_own E S x y \<or> whole_env S x y"

section \<open>Its components\<close>

lemma cancel_run_step: "(fine_step E S)\<^sup>*\<^sup>* f (cancel_run f)"
proof (cases "rs_ctxErr (f_run f)")
  case None
  with fine_env.callers [OF env_step.cancel [OF None, of Canceled], of S]
  have "fine_step E S f (cancel_run f)" by (simp add: fine_step_def cancel_run_def)
  then show ?thesis by blast
next
  case (Some e)
  then have "(f_run f)\<lparr>rs_ctxErr := Some e\<rparr> = f_run f" by (cases "f_run f") simp
  with Some have "cancel_run f = f" by (simp add: cancel_run_def)
  then show ?thesis by simp
qed

lemma own_fine: "fine_own E S f g \<Longrightarrow> (fine_step E S)\<^sup>*\<^sup>* f g" and env_fine: "fine_env S f g \<Longrightarrow> (fine_step E S)\<^sup>*\<^sup>* f g"
  by (auto simp: fine_step_def)

lemma whole_fine: "whole_step E S x y \<Longrightarrow> (fine_step E S)\<^sup>*\<^sup>* (wh_fine x) (wh_fine y)"
  by (auto simp: whole_step_def intro: cancel_run_step own_fine env_fine elim!: whole_own.cases whole_env.cases)

lemma whole_life:
  assumes "whole_step E S x y" and "life_inv (wh_svc x)"
  shows "life_step all_exited (wh_svc x) (wh_svc y) \<or> wh_svc y = wh_svc x"
proof -
  have "\<not> ts_panicked (wh_svc x)" "ts_runs (wh_svc x) = [] \<Longrightarrow> \<not> ts_stopping (wh_svc x) \<and> all_exited (wh_svc x)"
    using assms(2) by (simp_all add: life_inv_def all_exited_def)
  with assms(1) show ?thesis
    by (auto simp: whole_step_def life_step_def intro: call_step.intros elim!: whole_own.cases whole_env.cases)
qed

text \<open>What ties them together.\<close>

definition coupled :: "('aid, 'pk, 'z, 'w) whole \<Rightarrow> bool" where
  "coupled x \<longleftrightarrow> life_inv (wh_svc x) \<and> solves_inv (wh_fine x) \<and> length (ts_runs (wh_svc x)) \<le> 1
     \<and> (ts_stopping (wh_svc x) \<longrightarrow> rs_ctxErr (f_run (wh_fine x)) \<noteq> None)
     \<and> (\<forall>g \<in> set (ts_runs (wh_svc x)). \<not> alive g \<longrightarrow> returned (f_run (wh_fine x)))"

lemma fine_env_returned: "fine_env S f g \<Longrightarrow> returned (f_run f) \<Longrightarrow> returned (f_run g)"
  by (auto simp: returned_def elim!: fine_env.cases env_stepE)

lemma fine_own_ctx: "fine_own E S f g \<Longrightarrow> rs_ctxErr (f_run g) = rs_ctxErr (f_run f)"
  by (auto simp: after_solve_def elim!: fine_own.cases own_stepE)

lemma Stop_begin_keeps [simp]: "ts_runs (Stop_begin s) = ts_runs s"
  by (simp add: Stop_begin_def split: option.split)

lemma cancel_run_keeps [simp]: "returned (f_run (cancel_run f)) = returned (f_run f)" "rs_ctxErr (f_run (cancel_run f)) \<noteq> None"
    "\<exists>e. rs_ctxErr (f_run (cancel_run f)) = Some e"
  by (simp_all add: cancel_run_def returned_def split: option.split)

lemma go_dead:
  assumes "life_inv s" and "go_step s t" and "length (ts_runs s) \<le> 1" and "\<forall>c. ts_runs s = [InRun c] \<longrightarrow> P"
    and "\<forall>g \<in> set (ts_runs s). \<not> alive g \<longrightarrow> P"
  shows "\<forall>g \<in> set (ts_runs t). \<not> alive g \<longrightarrow> P"
  using assms(2)
proof cases
  case (1 n)
  from life_inv_last [OF assms(1) 1(2,3)] obtain gs g where gs: "ts_runs s = gs @ [g]" "n = length gs"
    "ts_done s = Some n" "g \<in> {Spawned, InRun n, Cleared n}" by metis
  with assms(3) have "gs = []" by simp
  with gs have g: "ts_runs s = [g]" "n = 0" "ts_done s = Some 0" "g \<in> {Spawned, InRun 0, Cleared 0}" by simp_all
  with assms(4,5) show ?thesis unfolding 1(1)
    by (auto simp: advance_def alive_def setRunning_def close_done_def)
qed

lemma coupled_step:
  assumes "coupled x" and "whole_step E S x y"
  shows "coupled y"
proof -
  from assms(1) have x: "life_inv (wh_svc x)" "solves_inv (wh_fine x)" "length (ts_runs (wh_svc x)) \<le> 1"
    "ts_stopping (wh_svc x) \<longrightarrow> rs_ctxErr (f_run (wh_fine x)) \<noteq> None"
    "\<forall>g \<in> set (ts_runs (wh_svc x)). \<not> alive g \<longrightarrow> returned (f_run (wh_fine x))" by (simp_all add: coupled_def)
  have "life_inv (wh_svc y)"
    using whole_life [OF assms(2) x(1)] x(1) life.inv_step by metis
  moreover have "solves_inv (wh_fine y)" by (rule goroutines.inv_steps [OF x(2) whole_fine [OF assms(2)]])
  moreover have "length (ts_runs (wh_svc y)) \<le> 1 \<and> (ts_stopping (wh_svc y) \<longrightarrow> rs_ctxErr (f_run (wh_fine y)) \<noteq> None)
     \<and> (\<forall>g \<in> set (ts_runs (wh_svc y)). \<not> alive g \<longrightarrow> returned (f_run (wh_fine y)))"
    using assms(2) unfolding whole_step_def
  proof (elim disjE)
    assume "whole_own E S x y"
    then show ?thesis
    proof cases
      case (run c f)
      with x fine_own_ctx [OF run(3)] show ?thesis by (simp add: alive_def)
    next
      case (go s)
      with x go_step_keeps [OF go(2)] go_dead [OF x(1) go(2) x(3) go(3) x(5)] show ?thesis by simp
    qed
  next
    assume "whole_env S x y"
    then show ?thesis
    proof cases
      case start
      with x show ?thesis by (auto simp: Start_def setRunning_def Let_def alive_def life_inv_def)
    next
      case stop
      with x show ?thesis by (auto simp: Stop_begin_def)
    next
      case (outside f)
      with x fine_env_returned [OF outside(2)] show ?thesis by simp
    qed (use x in simp)
  qed
  ultimately show ?thesis by (simp add: coupled_def)
qed

lemma coupled_start: "coupled (whole_start E u)"
  using life.inv_init [OF refl] by (simp add: coupled_def whole_start_def solves_inv_start) (simp add: new_service_def)

interpretation whole: invariant_system "\<lambda>x. \<exists>u. x = whole_start E u" "whole_step E S" coupled for E S
  by unfold_locales (auto simp: coupled_start intro: coupled_step)

lemma whole_reaches_fine: "(whole_step E S)\<^sup>*\<^sup>* (whole_start E u) x \<Longrightarrow> (fine_step E S)\<^sup>*\<^sup>* (fine_start E u) (wh_fine x)"
  by (induction rule: rtranclp_induct) (auto simp: whole_start_def intro: rtranclp_trans whole_fine)

section \<open>Every schedule of the goroutines ends\<close>

lemma whole_own_measure:
  assumes "coupled x" and "whole_own E S x y"
  shows "((life_measure (wh_svc y), fine_measure (wh_fine y)), life_measure (wh_svc x), fine_measure (wh_fine x))
    \<in> less_than <*lex*> fine_less"
  using assms(2)
proof cases
  case (run c f)
  with fine_own_measure [OF run(3)] show ?thesis by simp
next
  case (go s)
  with go_step_measure [OF _ go(2)] assms(1) show ?thesis by (simp add: coupled_def)
qed

lemma wf_whole_own: "wf {(y, x). coupled x \<and> whole_own E S x y}"
  by (rule wf_subset [of "inv_image (less_than <*lex*> fine_less) (\<lambda>x. (life_measure (wh_svc x), fine_measure (wh_fine x)))"])
    (auto intro!: wf_inv_image wf_lex_prod wf_mult dest: whole_own_measure)

lemma whole_progress:
  assumes "coupled x" and "ts_stopping (wh_svc x)" and "\<not> Stop_can_return (wh_svc x)"
  shows "\<exists>y. whole_own E S x y"
proof -
  from assms(1) have x: "life_inv (wh_svc x)" "solves_inv (wh_fine x)" "rs_ctxErr (f_run (wh_fine x)) \<noteq> None"
    using assms(2) by (simp_all add: coupled_def)
  from stop_progress [OF x(1) assms(2,3)] obtain s where s: "go_step (wh_svc x) s" by blast
  show ?thesis
  proof (cases "\<exists>c. ts_runs (wh_svc x) = [InRun c] \<and> \<not> returned (f_run (wh_fine x))")
    case True
    with fine_progress [OF x(2), of E S] x(3) obtain f where "fine_own E S (wh_fine x) f" by (auto simp: shut_down_def)
    with True show ?thesis by (auto intro: whole_own.run)
  next
    case False
    with s show ?thesis by (auto intro: whole_own.go)
  qed
qed

lemma whole_own_keeps: "whole_own E S x y \<Longrightarrow> coupled x \<Longrightarrow> coupled y \<and> ts_stopping (wh_svc y) = ts_stopping (wh_svc x)"
  using coupled_step [of x E S y] by (auto simp: whole_step_def elim!: whole_own.cases dest: go_step_keeps)

lemma whole_stops:
  assumes "coupled x" and "ts_stopping (wh_svc x)"
  shows "\<exists>y. (whole_own E S)\<^sup>*\<^sup>* x y \<and> Stop_can_return (wh_svc y)"
  using assms
proof (induction x rule: wf_induct_rule [OF wf_whole_own [of E S], case_names less])
  case (less x)
  show ?case
  proof (cases "Stop_can_return (wh_svc x)")
    case False
    with whole_progress less.prems obtain y where y: "whole_own E S x y" by blast
    with less.IH [of y] less.prems whole_own_keeps [OF y] show ?thesis
      by (auto intro: converse_rtranclp_into_rtranclp)
  qed blast
qed

lemma whole_ends:
  assumes "coupled (F 0)"
  shows "\<exists>i. \<not> whole_own E S (F i) (F (Suc i))"
proof (rule ccontr)
  assume "\<not> ?thesis"
  then have own: "whole_own E S (F i) (F (Suc i))" for i by simp
  have "coupled (F i)" for i by (induction i) (use assms whole_own_keeps own in blast)+
  with own have "\<forall>i. (F (Suc i), F i) \<in> {(y, x). coupled x \<and> whole_own E S x y}" by simp
  with wf_whole_own [of E S] show False unfolding wf_iff_no_infinite_down_chain by blast
qed

section \<open>What Stop leaves\<close>

lemma over_filed: "over st \<Longrightarrow> published st = filed st"
  by (auto simp: progress_defs split: solve_progress.splits)

lemma all_over_filed:
  "(\<And>m st. (m, st) \<in># M \<Longrightarrow> over st) \<Longrightarrow> (\<Sum>(m, st) \<in># M. published st) = (\<Sum>(m, st) \<in># M. filed st)"
  by (induction M) (force simp: over_filed)+

lemma returned_stuck: "solves_inv f \<Longrightarrow> returned (f_run f) \<Longrightarrow> \<not> fine_own E S f g"
  using solves_inv_returned [of f]
  by (auto simp: returned_def do_match_def elim!: fine_own.cases own_stepE split: phase.splits) (metis nth_mem)

lemma finished_started:
  assumes "solves_inv f" and "returned (f_run f)"
  shows "mset (rs_finished (f_run f)) = mset (rs_started (f_run f))"
  using assms by (auto simp: solves_inv_def run_inv_def phase_ok_def returned_def split: phase.splits option.splits)

section \<open>A sample shutdown\<close>

text \<open>The service is started, its goroutine gets into Run, and it is stopped.\<close>

lemma sample_whole:
  "\<exists>x. (whole_step sample_env sample_dservice)\<^sup>*\<^sup>* (whole_start sample_env ()) x \<and> ts_stopping (wh_svc x)"
proof -
  let ?W = "whole_step sample_env sample_dservice" and ?x0 = "whole_start sample_env ()"
  let ?x1 = "?x0\<lparr>wh_svc := Start new_service\<rparr>"
  let ?x2 = "?x1\<lparr>wh_svc := advance 0 (Start new_service)\<rparr>"
  let ?x3 = "?x2\<lparr>wh_svc := sample_stopping, wh_fine := cancel_run (wh_fine ?x2)\<rparr>"
  have svc: "wh_svc ?x0 = new_service" by (simp add: whole_start_def)
  have runs: "ts_runs (Start new_service) = [Spawned]" "ts_stopping (Start new_service) = False"
    "ts_cancel (advance 0 (Start new_service)) = Some 0"
    by (simp_all add: Start_def new_service_def setRunning_def advance_def Let_def)
  have "ts_runs (wh_svc ?x0) = []" by (simp add: svc new_service_def)
  from whole_env.start [OF this] have 1: "?W ?x0 ?x1" by (simp add: whole_step_def svc)
  have "go_step (wh_svc ?x1) (advance 0 (Start new_service))"
    using go_step.intros [of 0 "wh_svc ?x1"] by (simp add: runs)
  from whole_own.go [OF this, of sample_env sample_dservice] have 2: "?W ?x1 ?x2" by (simp add: whole_step_def runs)
  have "\<not> ts_stopping (wh_svc ?x2)" by (simp add: runs)
  from whole_env.stop [OF this] have 3: "?W ?x2 ?x3" by (simp add: whole_step_def runs sample_stopping_def)
  from 1 2 3 have "?W\<^sup>*\<^sup>* ?x0 ?x3" by (meson converse_rtranclp_into_rtranclp rtranclp.rtrancl_refl)
  moreover have "ts_stopping (wh_svc ?x3)" by (simp add: sample_stopping_def Stop_begin_def runs)
  ultimately show ?thesis by blast
qed

section \<open>Property\<close>

text \<open>C8. The daemon under its service, with every goroutine interrupted between any two calls: no schedule
  of its goroutines is endless; a Stop that has begun always gets to return; and when it returns, Run
  has returned, the solves it started are exactly those that finished, each is over, every published
  event has been handed to the listener that stores it, and no goroutine of the solver acts any more, so
  that the database may be closed.\<close>

theorem daemon_stops:
  assumes "\<forall>u. reorders (svc_scan S u)" and "(whole_step E S)\<^sup>*\<^sup>* (whole_start E u) x"
  shows "(\<nexists>F. F 0 = x \<and> (\<forall>i. whole_own E S (F i) (F (Suc i))))
    \<and> (ts_stopping (wh_svc x) \<longrightarrow> (\<exists>y. (whole_own E S)\<^sup>*\<^sup>* x y \<and> Stop_can_return (wh_svc y)))
    \<and> (Stop_can_return (wh_svc x) \<longrightarrow> returned (f_run (wh_fine x))
        \<and> mset (rs_finished (f_run (wh_fine x))) = mset (rs_started (f_run (wh_fine x)))
        \<and> (\<forall>(m, st) \<in> set (f_solves (wh_fine x)). over st)
        \<and> mset (world_events (rs_world (f_run (wh_fine x)))) = (\<Sum>(m, st) \<in># mset (f_solves (wh_fine x)). filed st)
        \<and> (\<forall>g. \<not> fine_own E S (wh_fine x) g))"
proof -
  have c: "coupled x" by (rule whole.inv_reachable [OF _ assms(2)]) blast
  have ends: "\<nexists>F. F 0 = x \<and> (\<forall>i. whole_own E S (F i) (F (Suc i)))" using whole_ends c by blast
  from c have inv: "life_inv (wh_svc x)" "solves_inv (wh_fine x)" by (simp_all add: coupled_def)
  have "fine_inv E (wh_fine x)" by (rule fine_reachable [OF assms(1) whole_reaches_fine [OF assms(2)]])
  then have events: "mset (world_events (rs_world (f_run (wh_fine x)))) = (\<Sum>(m, st) \<in># mset (f_solves (wh_fine x)). published st)"
    by (simp add: fine_inv_def ledger_def)
  have after: "returned (f_run (wh_fine x))" if "Stop_can_return (wh_svc x)"
  proof -
    from that inv(1) have "ts_runs (wh_svc x) \<noteq> []" by (auto simp: Stop_can_return_def life_inv_def)
    with life_inv_stopped [OF inv(1) that] obtain g where "g \<in> set (ts_runs (wh_svc x))" "g = Exited"
      by (cases "ts_runs (wh_svc x)") (auto simp: all_exited_def)
    with c have "\<not> alive g \<longrightarrow> returned (f_run (wh_fine x))" unfolding coupled_def by blast
    with \<open>g = Exited\<close> show ?thesis by (simp add: alive_def)
  qed
  with events ends whole_stops [OF c, of E S] solves_inv_returned [OF inv(2)] finished_started [OF inv(2)]
    returned_stuck [OF inv(2), of E S] all_over_filed [of "mset (f_solves (wh_fine x))"] show ?thesis by auto
qed

theorem daemon_stops_witness:
  "\<exists>x y. (whole_step sample_env sample_dservice)\<^sup>*\<^sup>* (whole_start sample_env ()) x \<and> ts_stopping (wh_svc x)
    \<and> (whole_own sample_env sample_dservice)\<^sup>*\<^sup>* x y \<and> Stop_can_return (wh_svc y) \<and> returned (f_run (wh_fine y))"
proof -
  let ?W = "whole_step sample_env sample_dservice" and ?O = "whole_own sample_env sample_dservice"
  obtain x where x: "?W\<^sup>*\<^sup>* (whole_start sample_env ()) x" "ts_stopping (wh_svc x)" using sample_whole by blast
  have r: "\<forall>u. reorders (svc_scan sample_dservice u)"
    by (simp add: sample_dservice_def sample_service_def reorders_def)
  from daemon_stops [OF r x(1)] x(2) obtain y where y: "?O\<^sup>*\<^sup>* x y" "Stop_can_return (wh_svc y)" by blast
  from y(1) have "?W\<^sup>*\<^sup>* x y" by (rule rtranclp_mono [THEN predicate2D, rotated]) (auto simp: whole_step_def)
  with x(1) have "?W\<^sup>*\<^sup>* (whole_start sample_env ()) y" by (rule rtranclp_trans)
  from daemon_stops [OF r this] x y show ?thesis by blast
qed

end
