(* ===== verification/Daemon.thy ===== *)
theory Daemon
  imports Lifecycle GoURL
begin

text \<open>
  The process: \<^verbatim>\<open>OpenDB\<close> of \<^verbatim>\<open>internal/infrastructure/db/sqlite/db.go\<close>, \<^verbatim>\<open>Start\<close> and \<^verbatim>\<open>Stop\<close> of
  \<^verbatim>\<open>internal/interface/grpc/server.go\<close>, and \<^verbatim>\<open>main\<close> of \<^verbatim>\<open>cmd/bancod/main.go\<close>.

  \<^verbatim>\<open>main\<close> is a program counter with the stack of its deferred calls, next to the run loop of the service
  and the calls the servers are handling. A stage of the start may fail; \<^verbatim>\<open>Fatal\<close> exits at once, with
  status 1 and without the deferred calls. A signal before \<^verbatim>\<open>signal.Notify\<close> ends the process with status 2.
\<close>

section \<open>Opening the database\<close>

record ('w, 'h, 's, 'd, 'm) sql_lib =
  sql_Open :: "string \<Rightarrow> string \<Rightarrow> ('w, 'h) io"
  db_Exec :: "'h \<Rightarrow> string \<Rightarrow> ('w, unit) io"
  db_Close :: "'h \<Rightarrow> ('w, unit) io"
  iofs_New :: "'s result"
  migsqlite_WithInstance :: "'h \<Rightarrow> ('w, 'd) io"
  migrate_NewWithInstance :: "'s \<Rightarrow> 'd \<Rightarrow> 'm result"
  migrate_Up :: "'m \<Rightarrow> ('w, unit) io"

definition ErrNoChange :: goerr where
  "ErrNoChange = ErrExt ''no change''"

definition runMigrations :: "('w, 'h, 's, 'd, 'm) sql_lib \<Rightarrow> 'h \<Rightarrow> ('w, unit) io" where
  "runMigrations L db =
     bindI (liftI (wrapR ''failed to create migration source'' (iofs_New L))) (\<lambda>source.
     bindI (wrapI ''failed to create migration driver'' (migsqlite_WithInstance L db)) (\<lambda>driver.
     bindI (liftI (wrapR ''failed to create migrate instance'' (migrate_NewWithInstance L source driver))) (\<lambda>m w.
       case migrate_Up L m w of
         (Inl (Error e), w') \<Rightarrow> if e = ErrNoChange then (Inr (), w') else (failR (ErrWrap ''migration failed'' [] e), w')
       | r \<Rightarrow> r)))"

text \<open>An error closes the handle, ignoring what Close returns.\<close>

definition orClose :: "('w, 'h, 's, 'd, 'm) sql_lib \<Rightarrow> 'h \<Rightarrow> string \<Rightarrow> ('w, unit) io \<Rightarrow> ('w, unit) io" where
  "orClose L db msg m = (\<lambda>w. case m w of
     (Inl (Error e), w') \<Rightarrow> (failR (ErrWrap msg [] e), snd (db_Close L db w'))
   | r \<Rightarrow> r)"

definition OpenDB :: "('w, 'h, 's, 'd, 'm) sql_lib \<Rightarrow> string \<Rightarrow> ('w, 'h) io" where
  "OpenDB L datadir =
     bindI (wrapI ''failed to open database'' (sql_Open L ''sqlite'' (filepath_Join [datadir, ''bancod.db'']))) (\<lambda>db.
     bindI (orClose L db ''failed to enable WAL mode'' (db_Exec L db ''PRAGMA journal_mode=WAL'')) (\<lambda>_.
     bindI (orClose L db ''failed to run migrations'' (runMigrations L db)) (\<lambda>_. retI db)))"

text \<open>The open handles, by the documented behaviour of \<^verbatim>\<open>database/sql\<close> and \<^verbatim>\<open>migrate\<close>.\<close>

abbreviation keeps_handles :: "('w \<Rightarrow> 'h set) \<Rightarrow> ('w, 'a) io \<Rightarrow> bool" where
  "keeps_handles hs \<equiv> moves (\<lambda>w w'. hs w' = hs w)"

interpretation handles: io_preorder "\<lambda>w w'. hs w' = hs w" for hs :: "'w \<Rightarrow> 'h set"
  by unfold_locales simp_all

definition opens_handle :: "('w \<Rightarrow> 'h set) \<Rightarrow> ('w, 'h) io \<Rightarrow> bool" where
  "opens_handle hs m \<longleftrightarrow> (\<forall>w r w'. m w = (r, w') \<longrightarrow>
     (case r of Inl _ \<Rightarrow> hs w' = hs w | Inr h \<Rightarrow> h \<notin> hs w \<and> hs w' = insert h (hs w)))"

definition handles_ok :: "('w, 'h, 's, 'd, 'm) sql_lib \<Rightarrow> ('w \<Rightarrow> 'h set) \<Rightarrow> bool" where
  "handles_ok L hs \<longleftrightarrow> (\<forall>drv p. opens_handle hs (sql_Open L drv p))
   \<and> (\<forall>h q. keeps_handles hs (db_Exec L h q)) \<and> (\<forall>h. keeps_handles hs (migsqlite_WithInstance L h))
   \<and> (\<forall>m. keeps_handles hs (migrate_Up L m)) \<and> (\<forall>h w. hs (snd (db_Close L h w)) = hs w - {h})"

lemma handles_okD:
  assumes "handles_ok L hs"
  shows "keeps_handles hs (db_Exec L h q)" "keeps_handles hs (migsqlite_WithInstance L h)"
    "keeps_handles hs (migrate_Up L m)" "hs (snd (db_Close L h w)) = hs w - {h}"
    "opens_handle hs (sql_Open L drv p)"
  using assms by (simp_all add: handles_ok_def)

lemma keeps_runMigrations:
  assumes "handles_ok L hs"
  shows "keeps_handles hs (runMigrations L db)"
proof -
  note w = handles_okD(2) [OF assms] and u = handles_okD(3) [OF assms]
  have up: "keeps_handles hs (\<lambda>w. case migrate_Up L m w of
      (Inl (Error e), w') \<Rightarrow> if e = ErrNoChange then (Inr (), w') else (failR (ErrWrap msg [] e), w') | r \<Rightarrow> r)" for m msg
    unfolding moves_def
  proof
    fix w
    obtain r w' where e: "migrate_Up L m w = (r, w')" by fastforce
    with handles.moved [OF u e] show "hs (snd (case migrate_Up L m w of
        (Inl (Error e), w') \<Rightarrow> if e = ErrNoChange then (Inr (), w') else (failR (ErrWrap msg [] e), w') | r \<Rightarrow> r)) = hs w"
      by (simp split: sum.split failure.split)
  qed
  show ?thesis
    unfolding runMigrations_def
    by (intro handles.moves_bindI handles.moves_wrapI handles.moves_basic w up)
qed

lemma orClose_handles:
  assumes "handles_ok L hs" and "keeps_handles hs m" and "orClose L db msg m w = (r, w')"
  shows "(r = Inr () \<and> hs w' = hs w) \<or> (\<exists>e. r = failR e \<and> hs w' = hs w - {db}) \<or> (\<exists>p. r = Inl (Panic p))"
proof -
  obtain r1 w1 where m: "m w = (r1, w1)" by fastforce
  with handles_okD(4) [OF assms(1), of db w1] handles.moved [OF assms(2) m] assms(3) show ?thesis
    by (auto simp: orClose_def split: sum.splits failure.splits)
qed

text \<open>C33. A database that cannot be prepared is closed again: unless a library panics, \<^verbatim>\<open>OpenDB\<close>
  either returns a handle that was not open before, and that is then the only further one, or an error,
  and every handle it opened is closed.\<close>

theorem OpenDB_handles:
  assumes "handles_ok L hs" and "OpenDB L datadir w = (r, w')"
  shows "(\<exists>h. r = Inr h \<and> h \<notin> hs w \<and> hs w' = insert h (hs w)) \<or> (\<exists>e. r = failR e \<and> hs w' = hs w)
    \<or> (\<exists>p. r = Inl (Panic p))"
proof -
  let ?open = "sql_Open L ''sqlite'' (filepath_Join [datadir, ''bancod.db''])"
  obtain r1 w1 where o: "?open w = (r1, w1)" by fastforce
  with handles_okD(5) [OF assms(1)] have h1: "case r1 of Inl _ \<Rightarrow> hs w1 = hs w | Inr h \<Rightarrow> h \<notin> hs w \<and> hs w1 = insert h (hs w)"
    unfolding opens_handle_def by blast
  show ?thesis
  proof (cases r1)
    case (Inl f)
    with o h1 assms(2) show ?thesis
      by (cases f) (auto simp: OpenDB_def bindI_def wrapI_def)
  next
    case (Inr db)
    with h1 have h: "db \<notin> hs w" "hs w1 = insert db (hs w)" by simp_all
    obtain r2 w2 where wal: "orClose L db ''failed to enable WAL mode'' (db_Exec L db ''PRAGMA journal_mode=WAL'') w1 = (r2, w2)"
      by fastforce
    obtain r3 w3 where mig: "orClose L db ''failed to run migrations'' (runMigrations L db) w2 = (r3, w3)" by fastforce
    have r: "(r, w') = (case r2 of Inl f \<Rightarrow> (Inl f, w2) | Inr _ \<Rightarrow> (case r3 of Inl f \<Rightarrow> (Inl f, w3) | Inr _ \<Rightarrow> (Inr db, w3)))"
      using assms(2) o Inr wal mig by (auto simp: OpenDB_def bindI_def wrapI_def retI_def split: sum.split)
    from orClose_handles [OF assms(1) handles_okD(1) [OF assms(1)] wal] orClose_handles [OF assms(1) keeps_runMigrations [OF assms(1)] mig] r h
    show ?thesis by auto
  qed
qed

text \<open>A migration that fails.\<close>

definition sample_sql :: "(nat set, nat, unit, unit, unit) sql_lib" where
  "sample_sql = \<lparr>sql_Open = (\<lambda>drv p w. if 3 \<in> w then (failR (ErrExt ''busy''), w) else (Inr 3, insert 3 w)),
     db_Exec = (\<lambda>h q. retI ()), db_Close = (\<lambda>h w. (Inr (), w - {h})), iofs_New = Inr (),
     migsqlite_WithInstance = (\<lambda>h. retI ()), migrate_NewWithInstance = (\<lambda>s d. Inr ()),
     migrate_Up = (\<lambda>m. liftI (failR (ErrExt ''dirty'')))\<rparr>"

lemma sample_OpenDB: "OpenDB sample_sql ''data'' {} =
    (failR (ErrWrap ''failed to run migrations'' [] (ErrWrap ''migration failed'' [] (ErrExt ''dirty''))), {})"
  by (simp add: OpenDB_def sample_sql_def bindI_def wrapI_def orClose_def retI_def liftI_def runMigrations_def ErrNoChange_def)

theorem OpenDB_handles_witness:
  "\<exists>e. fst (OpenDB sample_sql ''data'' {}) = failR e \<and> snd (OpenDB sample_sql ''data'' {}) = {}"
proof -
  have "handles_ok sample_sql id"
    by (simp add: handles_ok_def opens_handle_def sample_sql_def moves_def retI_def liftI_def)
  from OpenDB_handles [OF this sample_OpenDB] show ?thesis by (simp add: sample_OpenDB)
qed

section \<open>The servers\<close>

datatype grpc_phase = GrpcNone | GrpcServing | GrpcFailed | GrpcStopped
datatype http_phase = HttpNone | HttpListening | HttpFailed | HttpShut

record server =
  srv_grpc :: grpc_phase
  srv_conn :: bool
  srv_http :: http_phase
  srv_grpc_calls :: nat
  srv_http_calls :: nat
  srv_timeout :: bool

definition new_server :: server where
  "new_server = \<lparr>srv_grpc = GrpcNone, srv_conn = False, srv_http = HttpNone, srv_grpc_calls = 0,
     srv_http_calls = 0, srv_timeout = False\<rparr>"

text \<open>Start, with the errors of \<^verbatim>\<open>net.Listen\<close> and \<^verbatim>\<open>grpc.NewClient\<close>. The servers run in goroutines: that one
  of them fails is only logged.\<close>

definition srv_Start :: "int \<Rightarrow> goerr option \<Rightarrow> goerr option \<Rightarrow> server \<Rightarrow> unit result \<times> server" where
  "srv_Start port listen dial s = (case listen of
     Some e \<Rightarrow> (failR (ErrWrap ''failed to listen on gRPC port %d'' [ArgInt port] e), s)
   | None \<Rightarrow> (let s1 = s\<lparr>srv_grpc := GrpcServing\<rparr> in
       case dial of Some e \<Rightarrow> (failR (ErrWrap ''failed to dial gRPC server'' [] e), s1)
       | None \<Rightarrow> (Inr (), s1\<lparr>srv_conn := True, srv_http := HttpListening\<rparr>)))"

text \<open>The parts of Stop. Shutdown takes no new requests; it waits for the handlers, but at most five
  seconds, and \<open>srv_timeout\<close> remembers that it gave up.\<close>

definition http_Shutdown :: "server \<Rightarrow> server" where
  "http_Shutdown s = s\<lparr>srv_http := if srv_http s = HttpNone then HttpNone else HttpShut\<rparr>"

definition http_Shutdown_returns :: "server \<Rightarrow> server" where
  "http_Shutdown_returns s = s\<lparr>srv_timeout := (0 < srv_http_calls s)\<rparr>"

definition conn_Close :: "server \<Rightarrow> server" where
  "conn_Close s = s\<lparr>srv_conn := False\<rparr>"

definition grpc_GracefulStop :: "server \<Rightarrow> server" where
  "grpc_GracefulStop s = s\<lparr>srv_grpc := if srv_grpc s = GrpcNone then GrpcNone else GrpcStopped\<rparr>"

text \<open>Requests come and go, and a server can fail.\<close>

inductive server_step :: "server \<Rightarrow> server \<Rightarrow> bool" where
  http_request: "srv_http s = HttpListening \<Longrightarrow> server_step s (s\<lparr>srv_http_calls := Suc (srv_http_calls s)\<rparr>)"
| http_reply: "srv_http_calls s = Suc n \<Longrightarrow> server_step s (s\<lparr>srv_http_calls := n\<rparr>)"
| http_failed: "srv_http s = HttpListening \<Longrightarrow> server_step s (s\<lparr>srv_http := HttpFailed\<rparr>)"
| grpc_request: "srv_grpc s = GrpcServing \<Longrightarrow> server_step s (s\<lparr>srv_grpc_calls := Suc (srv_grpc_calls s)\<rparr>)"
| grpc_reply: "srv_grpc_calls s = Suc n \<Longrightarrow> server_step s (s\<lparr>srv_grpc_calls := n\<rparr>)"
| grpc_failed: "srv_grpc s = GrpcServing \<Longrightarrow> server_step s (s\<lparr>srv_grpc := GrpcFailed\<rparr>)"

inductive_cases server_stepE: "server_step s t"

section \<open>The main function\<close>

datatype stage = LoadCfg | MkDatadir | OpenDatabase | DialIntrospector | NewArk | InitArk | UnlockArk | StartService | StartServer

datatype resource = DB | IntroConn | ArkClient

datatype main_pc = At stage | WaitSignal | StopService | ShutHttp | CloseConn | StopGrpc | Returning | Gone nat

record proc =
  mp_pc :: main_pc
  mp_defers :: "resource list"
  mp_open :: "resource set"
  mp_svc :: taker_service
  mp_srv :: server

definition proc_start :: proc where
  "proc_start = \<lparr>mp_pc = At LoadCfg, mp_defers = [], mp_open = {}, mp_svc = new_service, mp_srv = new_server\<rparr>"

text \<open>A stage that succeeds; the ones that acquire something push its deferred release, the client only
  when it is unlocked.\<close>

fun stage_done :: "stage \<Rightarrow> proc \<Rightarrow> proc" where
  "stage_done LoadCfg p = p\<lparr>mp_pc := At MkDatadir\<rparr>"
| "stage_done MkDatadir p = p\<lparr>mp_pc := At OpenDatabase\<rparr>"
| "stage_done OpenDatabase p = p\<lparr>mp_pc := At DialIntrospector, mp_open := insert DB (mp_open p), mp_defers := DB # mp_defers p\<rparr>"
| "stage_done DialIntrospector p = p\<lparr>mp_pc := At NewArk, mp_open := insert IntroConn (mp_open p), mp_defers := IntroConn # mp_defers p\<rparr>"
| "stage_done NewArk p = p\<lparr>mp_pc := At InitArk, mp_open := insert ArkClient (mp_open p)\<rparr>"
| "stage_done InitArk p = p\<lparr>mp_pc := At UnlockArk\<rparr>"
| "stage_done UnlockArk p = p\<lparr>mp_pc := At StartService, mp_defers := ArkClient # mp_defers p\<rparr>"
| "stage_done StartService p = p\<lparr>mp_pc := At StartServer, mp_svc := Start (mp_svc p)\<rparr>"
| "stage_done StartServer p = p\<lparr>mp_pc := WaitSignal\<rparr>"

inductive main_step :: "proc \<Rightarrow> proc \<Rightarrow> bool" where
  succeed: "mp_pc p = At st \<Longrightarrow> st \<noteq> StartServer \<Longrightarrow> main_step p (stage_done st p)"
| fatal: "mp_pc p = At st \<Longrightarrow> st \<notin> {StartService, StartServer} \<Longrightarrow> main_step p (p\<lparr>mp_pc := Gone 1\<rparr>)"
| serve: "mp_pc p = At StartServer \<Longrightarrow> srv_Start port l d (mp_srv p) = (Inr (), s) \<Longrightarrow>
    main_step p (stage_done StartServer (p\<lparr>mp_srv := s\<rparr>))"
| serve_fatal: "mp_pc p = At StartServer \<Longrightarrow> srv_Start port l d (mp_srv p) = (Inl e, s) \<Longrightarrow>
    main_step p (p\<lparr>mp_srv := s, mp_pc := Gone 1\<rparr>)"
| killed: "mp_pc p = At st \<Longrightarrow> main_step p (p\<lparr>mp_pc := Gone 2\<rparr>)"
| signal: "mp_pc p = WaitSignal \<Longrightarrow> main_step p (p\<lparr>mp_pc := StopService, mp_svc := Stop_begin (mp_svc p)\<rparr>)"
| stopped: "mp_pc p = StopService \<Longrightarrow> Stop_can_return (mp_svc p) \<Longrightarrow>
    main_step p (p\<lparr>mp_pc := ShutHttp, mp_svc := (mp_svc p)\<lparr>ts_stopping := False\<rparr>, mp_srv := http_Shutdown (mp_srv p)\<rparr>)"
| http_shut: "mp_pc p = ShutHttp \<Longrightarrow> main_step p (p\<lparr>mp_pc := CloseConn, mp_srv := http_Shutdown_returns (mp_srv p)\<rparr>)"
| conn_closed: "mp_pc p = CloseConn \<Longrightarrow>
    main_step p (p\<lparr>mp_pc := StopGrpc, mp_srv := grpc_GracefulStop (conn_Close (mp_srv p))\<rparr>)"
| grpc_stopped: "mp_pc p = StopGrpc \<Longrightarrow> srv_grpc_calls (mp_srv p) = 0 \<Longrightarrow> main_step p (p\<lparr>mp_pc := Returning\<rparr>)"
| deferred: "mp_pc p = Returning \<Longrightarrow> mp_defers p = r # rs \<Longrightarrow>
    main_step p (p\<lparr>mp_defers := rs, mp_open := mp_open p - {r}\<rparr>)"
| returned: "mp_pc p = Returning \<Longrightarrow> mp_defers p = [] \<Longrightarrow> main_step p (p\<lparr>mp_pc := Gone 0\<rparr>)"

definition gone :: "proc \<Rightarrow> bool" where
  "gone p \<longleftrightarrow> (case mp_pc p of Gone c \<Rightarrow> True | _ \<Rightarrow> False)"

text \<open>While the process lives, the run loop and the servers act too.\<close>

inductive proc_step :: "proc \<Rightarrow> proc \<Rightarrow> bool" where
  main: "main_step p q \<Longrightarrow> proc_step p q"
| loop: "\<not> gone p \<Longrightarrow> go_step (mp_svc p) s \<Longrightarrow> proc_step p (p\<lparr>mp_svc := s\<rparr>)"
| serves: "\<not> gone p \<Longrightarrow> server_step (mp_srv p) s \<Longrightarrow> proc_step p (p\<lparr>mp_srv := s\<rparr>)"

inductive_cases main_stepE: "main_step p q"
inductive_cases proc_stepE: "proc_step p q"

section \<open>Invariants of the process\<close>

text \<open>What is held, and what is deferred, at each point.\<close>

fun stage_defers :: "stage \<Rightarrow> resource list" where
  "stage_defers st = (if st \<in> {LoadCfg, MkDatadir, OpenDatabase} then [] else if st = DialIntrospector then [DB]
     else if st \<in> {NewArk, InitArk, UnlockArk} then [IntroConn, DB] else [ArkClient, IntroConn, DB])"

fun stage_open :: "stage \<Rightarrow> resource set" where
  "stage_open st = (if st \<in> {LoadCfg, MkDatadir, OpenDatabase} then {} else if st = DialIntrospector then {DB}
     else if st = NewArk then {IntroConn, DB} else {ArkClient, IntroConn, DB})"

definition release_order :: "resource list set" where
  "release_order = {[ArkClient, IntroConn, DB], [IntroConn, DB], [DB], []}"

definition held_ok :: "proc \<Rightarrow> bool" where
  "held_ok p \<longleftrightarrow> (case mp_pc p of
     At st \<Rightarrow> mp_defers p = stage_defers st \<and> mp_open p = stage_open st
   | Returning \<Rightarrow> mp_defers p \<in> release_order \<and> mp_open p = set (mp_defers p)
   | Gone c \<Rightarrow> c = 0 \<longrightarrow> mp_open p = {}
   | _ \<Rightarrow> mp_defers p = [ArkClient, IntroConn, DB] \<and> mp_open p = {ArkClient, IntroConn, DB})"

text \<open>The run loop: started by the last but one stage, stopped before the servers.\<close>

definition loop_ok :: "proc \<Rightarrow> bool" where
  "loop_ok p \<longleftrightarrow> life_inv (mp_svc p) \<and> (case mp_pc p of
     At st \<Rightarrow> \<not> ts_stopping (mp_svc p) \<and> (st \<noteq> StartServer \<longrightarrow> ts_runs (mp_svc p) = [])
         \<and> (st = StartServer \<longrightarrow> ts_runs (mp_svc p) \<noteq> [])
   | WaitSignal \<Rightarrow> \<not> ts_stopping (mp_svc p) \<and> ts_runs (mp_svc p) \<noteq> []
   | StopService \<Rightarrow> ts_stopping (mp_svc p)
   | Gone c \<Rightarrow> c = 0 \<longrightarrow> all_exited (mp_svc p)
   | _ \<Rightarrow> all_exited (mp_svc p))"

definition quiet_http :: "server \<Rightarrow> bool" where
  "quiet_http s \<longleftrightarrow> srv_http s \<noteq> HttpListening \<and> (srv_http_calls s = 0 \<or> srv_timeout s)"

definition quiet_grpc :: "server \<Rightarrow> bool" where
  "quiet_grpc s \<longleftrightarrow> quiet_http s \<and> srv_grpc s \<noteq> GrpcServing \<and> srv_grpc_calls s = 0"

definition servers_ok :: "proc \<Rightarrow> bool" where
  "servers_ok p \<longleftrightarrow> (case mp_pc p of
     At st \<Rightarrow> mp_srv p = new_server
   | ShutHttp \<Rightarrow> srv_http (mp_srv p) \<noteq> HttpListening
   | CloseConn \<Rightarrow> quiet_http (mp_srv p)
   | StopGrpc \<Rightarrow> quiet_http (mp_srv p) \<and> srv_grpc (mp_srv p) \<noteq> GrpcServing
   | Returning \<Rightarrow> quiet_grpc (mp_srv p)
   | Gone c \<Rightarrow> c = 0 \<longrightarrow> quiet_grpc (mp_srv p)
   | _ \<Rightarrow> True)"

definition proc_inv :: "proc \<Rightarrow> bool" where
  "proc_inv p \<longleftrightarrow> held_ok p \<and> loop_ok p \<and> servers_ok p"

lemma held_ok_main: "held_ok p \<Longrightarrow> main_step p q \<Longrightarrow> held_ok q"
proof (elim main_stepE)
  fix st
  assume "held_ok p" "mp_pc p = At st" "st \<noteq> StartServer" "q = stage_done st p"
  then show "held_ok q" by (cases st) (auto simp: held_ok_def)
qed (auto simp: held_ok_def release_order_def)

lemma life_inv_stopping_off: "life_inv s \<Longrightarrow> life_inv (s\<lparr>ts_stopping := False\<rparr>)"
  by (cases "ts_runs s") (auto simp: life_inv_def Let_def)

lemma life_inv_Stop_begin: "life_inv s \<Longrightarrow> ts_runs s \<noteq> [] \<Longrightarrow> life_inv (Stop_begin s) \<and> ts_stopping (Stop_begin s)"
  by (cases "ts_runs s") (auto simp: life_inv_def Stop_begin_def Let_def)

lemma loop_ok_main: "loop_ok p \<Longrightarrow> main_step p q \<Longrightarrow> loop_ok q"
proof (elim main_stepE)
  fix st
  assume p: "loop_ok p" "mp_pc p = At st" "st \<noteq> StartServer" "q = stage_done st p"
  then have "life_inv (Start (mp_svc p))"
    by (intro life_inv_Start) (auto simp: loop_ok_def all_exited_def)
  with p show "loop_ok q" by (cases st) (auto simp: loop_ok_def Start_def Let_def setRunning_def)
next
  assume p: "loop_ok p" "mp_pc p = WaitSignal" "q = p\<lparr>mp_pc := StopService, mp_svc := Stop_begin (mp_svc p)\<rparr>"
  with life_inv_Stop_begin [of "mp_svc p"] show "loop_ok q" by (simp add: loop_ok_def)
next
  assume p: "loop_ok p" "mp_pc p = StopService" "Stop_can_return (mp_svc p)"
    "q = p\<lparr>mp_pc := ShutHttp, mp_svc := (mp_svc p)\<lparr>ts_stopping := False\<rparr>, mp_srv := http_Shutdown (mp_srv p)\<rparr>"
  with life_inv_stopped [of "mp_svc p"] life_inv_stopping_off [of "mp_svc p"] show "loop_ok q"
    by (simp add: loop_ok_def all_exited_def)
qed (auto simp: loop_ok_def)

lemma servers_ok_main: "servers_ok p \<Longrightarrow> main_step p q \<Longrightarrow> servers_ok q"
proof (elim main_stepE)
  fix st
  assume "servers_ok p" "mp_pc p = At st" "st \<noteq> StartServer" "q = stage_done st p"
  then show "servers_ok q" by (cases st) (auto simp: servers_ok_def)
qed (auto simp: servers_ok_def quiet_http_def quiet_grpc_def http_Shutdown_def http_Shutdown_returns_def
    grpc_GracefulStop_def conn_Close_def)

lemma all_exited_no_go: "all_exited s \<Longrightarrow> \<not> go_step s t"
  by (auto simp: all_exited_def list_all_length elim: go_stepE)

lemma go_step_runs: "go_step s t \<Longrightarrow> length (ts_runs t) = length (ts_runs s) \<and> ts_stopping t = ts_stopping s"
  using go_step_keeps by blast

lemma proc_inv_loop:
  assumes "proc_inv p" and "\<not> gone p" and "go_step (mp_svc p) s"
  shows "proc_inv (p\<lparr>mp_svc := s\<rparr>)"
proof -
  have "ts_runs (mp_svc p) \<noteq> []" using assms(3) by (auto elim: go_stepE)
  moreover have "ts_runs s \<noteq> [] \<longleftrightarrow> ts_runs (mp_svc p) \<noteq> []" "ts_stopping s = ts_stopping (mp_svc p)"
    using go_step_runs [OF assms(3)] by auto
  ultimately show ?thesis
    using assms life_inv_go [of "mp_svc p" s] all_exited_no_go [of "mp_svc p" s]
    by (auto simp: proc_inv_def held_ok_def loop_ok_def servers_ok_def gone_def split: main_pc.splits)
qed

lemma proc_inv_serves:
  assumes "proc_inv p" and "\<not> gone p" and "server_step (mp_srv p) s"
  shows "proc_inv (p\<lparr>mp_srv := s\<rparr>)"
proof -
  have "servers_ok (p\<lparr>mp_srv := s\<rparr>)"
    using assms by (auto simp: proc_inv_def servers_ok_def gone_def quiet_http_def quiet_grpc_def new_server_def
        split: main_pc.splits elim!: server_stepE)
  with assms show ?thesis
    by (auto simp: proc_inv_def held_ok_def loop_ok_def gone_def split: main_pc.splits)
qed

lemma proc_inv_step: "proc_inv p \<Longrightarrow> proc_step p q \<Longrightarrow> proc_inv q"
proof (elim proc_stepE)
  show "proc_inv p \<Longrightarrow> main_step p q \<Longrightarrow> proc_inv q"
    by (auto simp: proc_inv_def intro: held_ok_main loop_ok_main servers_ok_main)
qed (simp_all add: proc_inv_loop proc_inv_serves)

lemma proc_inv_start: "proc_inv proc_start"
  by (simp add: proc_inv_def proc_start_def held_ok_def loop_ok_def servers_ok_def life_inv_def new_service_def)

interpretation proc: invariant_system "\<lambda>p. p = proc_start" proc_step proc_inv
  by unfold_locales (auto simp: proc_inv_start intro: proc_inv_step)

section \<open>The shutdown comes to its end\<close>

lemma proc_main: "main_step p q \<Longrightarrow> proc_step\<^sup>*\<^sup>* q r \<Longrightarrow> proc_step\<^sup>*\<^sup>* p r"
  by (meson converse_rtranclp_into_rtranclp proc_step.main)

lemma loop_runs:
  assumes "go_step\<^sup>*\<^sup>* s t" and "\<not> gone p" and "mp_svc p = s"
  shows "proc_step\<^sup>*\<^sup>* p (p\<lparr>mp_svc := t\<rparr>)"
  using assms(1)
proof (induction rule: rtranclp_induct)
  case base
  then show ?case by (simp add: assms(3) [symmetric])
next
  case (step t u)
  have "proc_step (p\<lparr>mp_svc := t\<rparr>) ((p\<lparr>mp_svc := t\<rparr>)\<lparr>mp_svc := u\<rparr>)"
    by (rule proc_step.loop) (use assms(2) step(2) in \<open>simp_all add: gone_def\<close>)
  with step.IH show ?case by (simp add: rtranclp.rtrancl_into_rtrancl)
qed

text \<open>The handlers may finish.\<close>

lemma grpc_drains:
  assumes "mp_pc p = StopGrpc"
  shows "proc_step\<^sup>*\<^sup>* p (p\<lparr>mp_srv := (mp_srv p)\<lparr>srv_grpc_calls := 0\<rparr>\<rparr>)"
  using assms
proof (induction "srv_grpc_calls (mp_srv p)" arbitrary: p)
  case 0
  then have "(mp_srv p)\<lparr>srv_grpc_calls := 0\<rparr> = mp_srv p" by simp
  then show ?case by simp
next
  case (Suc n)
  let ?q = "p\<lparr>mp_srv := (mp_srv p)\<lparr>srv_grpc_calls := n\<rparr>\<rparr>"
  have "proc_step p ?q"
    using Suc.hyps(2) [symmetric] Suc.prems
    by (intro proc_step.serves server_step.grpc_reply) (simp_all add: gone_def)
  moreover have "proc_step\<^sup>*\<^sup>* ?q (?q\<lparr>mp_srv := (mp_srv ?q)\<lparr>srv_grpc_calls := 0\<rparr>\<rparr>)"
    by (rule Suc.hyps(1)) (simp_all add: Suc.prems)
  ultimately show ?case by (simp add: converse_rtranclp_into_rtranclp)
qed

definition finishes :: "proc \<Rightarrow> bool" where
  "finishes p \<longleftrightarrow> (\<exists>q. proc_step\<^sup>*\<^sup>* p q \<and> mp_pc q = Gone 0)"

lemma finishes_back: "proc_step\<^sup>*\<^sup>* p q \<Longrightarrow> finishes q \<Longrightarrow> finishes p"
  unfolding finishes_def by (meson rtranclp_trans)

lemma finishes_main: "main_step p q \<Longrightarrow> finishes q \<Longrightarrow> finishes p"
  using finishes_back proc_step.main by blast

lemma finishes_Returning: "mp_pc p = Returning \<Longrightarrow> finishes p"
proof (induction "mp_defers p" arbitrary: p)
  case Nil
  have "mp_pc (p\<lparr>mp_pc := Gone 0\<rparr>) = Gone 0" by simp
  moreover have "proc_step p (p\<lparr>mp_pc := Gone 0\<rparr>)" using Nil by (intro proc_step.main main_step.returned) simp_all
  ultimately show ?case unfolding finishes_def by blast
next
  case (Cons r rs)
  show ?case
    by (rule finishes_main [OF main_step.deferred [OF Cons.prems Cons.hyps(2) [symmetric]]])
      (rule Cons.hyps(1), simp_all add: Cons.prems)
qed

lemma finishes_StopGrpc: "mp_pc p = StopGrpc \<Longrightarrow> finishes p"
proof -
  assume p: "mp_pc p = StopGrpc"
  let ?q = "p\<lparr>mp_srv := (mp_srv p)\<lparr>srv_grpc_calls := 0\<rparr>\<rparr>"
  have "finishes ?q"
    by (rule finishes_main [OF main_step.grpc_stopped]) (simp_all add: p finishes_Returning)
  with grpc_drains [OF p] show "finishes p" by (rule finishes_back)
qed

lemma finishes_CloseConn: "mp_pc p = CloseConn \<Longrightarrow> finishes p"
  by (rule finishes_main [OF main_step.conn_closed]) (simp_all add: finishes_StopGrpc)

lemma finishes_ShutHttp: "mp_pc p = ShutHttp \<Longrightarrow> finishes p"
  by (rule finishes_main [OF main_step.http_shut]) (simp_all add: finishes_CloseConn)

lemma finishes_StopService:
  assumes "loop_ok p" and "mp_pc p = StopService"
  shows "finishes p"
proof -
  from assms have "life_inv (mp_svc p)" "ts_stopping (mp_svc p)" by (simp_all add: loop_ok_def)
  from stop_returns [OF this] obtain s where s: "go_step\<^sup>*\<^sup>* (mp_svc p) s" "Stop_can_return s" by blast
  let ?q = "p\<lparr>mp_svc := s\<rparr>"
  have "finishes ?q"
    by (rule finishes_main [OF main_step.stopped]) (simp_all add: assms(2) s(2) finishes_ShutHttp)
  moreover have "proc_step\<^sup>*\<^sup>* p ?q"
    by (rule loop_runs [OF s(1)]) (simp_all add: gone_def assms(2))
  ultimately show ?thesis using finishes_back by blast
qed

lemma finishes_WaitSignal:
  assumes "loop_ok p" and "mp_pc p = WaitSignal"
  shows "finishes p"
proof -
  have step: "main_step p (p\<lparr>mp_pc := StopService, mp_svc := Stop_begin (mp_svc p)\<rparr>)"
    by (rule main_step.signal [OF assms(2)])
  show ?thesis
    by (rule finishes_main [OF step], rule finishes_StopService [OF loop_ok_main [OF assms(1) step]]) simp
qed

definition shutting_down :: "main_pc \<Rightarrow> bool" where
  "shutting_down pc \<longleftrightarrow> pc \<in> {StopService, ShutHttp, CloseConn, StopGrpc, Returning}"

lemma shutdown_finishes: "loop_ok p \<Longrightarrow> mp_pc p = WaitSignal \<or> shutting_down (mp_pc p) \<Longrightarrow> finishes p"
  by (auto simp: shutting_down_def finishes_StopService finishes_ShutHttp finishes_CloseConn finishes_StopGrpc
      finishes_Returning finishes_WaitSignal)

text \<open>What a handler or a solve would use the database for.\<close>

definition db_users :: "proc \<Rightarrow> bool" where
  "db_users p \<longleftrightarrow> (\<exists>g \<in> set (ts_runs (mp_svc p)). alive g) \<or> 0 < srv_grpc_calls (mp_srv p) \<or> 0 < srv_http_calls (mp_srv p)"

section \<open>Sample processes\<close>

text \<open>A schedule of stages, for reaching states.\<close>

fun stages :: "stage list \<Rightarrow> proc \<Rightarrow> proc option" where
  "stages [] p = Some p"
| "stages (st # sts) p = (if mp_pc p = At st \<and> st \<noteq> StartServer then stages sts (stage_done st p) else None)"

lemma stages_reach: "stages sts p = Some q \<Longrightarrow> proc_step\<^sup>*\<^sup>* p q"
  by (induction sts p rule: stages.induct) (auto split: if_splits intro: proc_main [OF main_step.succeed])

definition sample_booted :: proc where
  "sample_booted = \<lparr>mp_pc = At StartServer, mp_defers = [ArkClient, IntroConn, DB], mp_open = {ArkClient, IntroConn, DB},
     mp_svc = Start new_service, mp_srv = new_server\<rparr>"

lemma sample_booted_reached: "proc_step\<^sup>*\<^sup>* proc_start sample_booted"
  by (rule stages_reach [of "[LoadCfg, MkDatadir, OpenDatabase, DialIntrospector, NewArk, InitArk, UnlockArk, StartService]"])
    (simp add: proc_start_def sample_booted_def)

definition sample_serving :: proc where
  "sample_serving = sample_booted\<lparr>mp_pc := WaitSignal,
     mp_srv := new_server\<lparr>srv_grpc := GrpcServing, srv_conn := True, srv_http := HttpListening\<rparr>\<rparr>"

lemma sample_serving_reached: "proc_step\<^sup>*\<^sup>* proc_start sample_serving"
proof -
  have "main_step sample_booted (stage_done StartServer (sample_booted\<lparr>mp_srv :=
      new_server\<lparr>srv_grpc := GrpcServing, srv_conn := True, srv_http := HttpListening\<rparr>\<rparr>))"
    by (rule main_step.serve [where port = 7070 and l = None and d = None])
      (simp_all add: sample_booted_def srv_Start_def new_server_def)
  then have "proc_step sample_booted sample_serving"
    by (simp add: sample_serving_def sample_booted_def proc_step.main)
  with sample_booted_reached show ?thesis by (rule rtranclp.rtrancl_into_rtrancl)
qed

text \<open>Shutdown may give up: then all is released while the handlers go on.\<close>

lemma abandoned_handlers:
  assumes "loop_ok p" and "held_ok p" and "mp_pc p = StopService" and "srv_grpc_calls (mp_srv p) = 0"
  shows "\<exists>q. proc_step\<^sup>*\<^sup>* p q \<and> mp_pc q = Returning \<and> mp_open q = {} \<and> srv_http_calls (mp_srv q) = srv_http_calls (mp_srv p)"
proof -
  from assms(1,3) have "life_inv (mp_svc p)" "ts_stopping (mp_svc p)" by (simp_all add: loop_ok_def)
  from stop_returns [OF this] obtain s where s: "go_step\<^sup>*\<^sup>* (mp_svc p) s" "Stop_can_return s" by blast
  from assms(2,3) have d: "mp_defers p = [ArkClient, IntroConn, DB]" "mp_open p = {ArkClient, IntroConn, DB}"
    by (simp_all add: held_ok_def)
  let ?q1 = "p\<lparr>mp_svc := s\<rparr>"
  let ?q2 = "?q1\<lparr>mp_pc := ShutHttp, mp_svc := (mp_svc ?q1)\<lparr>ts_stopping := False\<rparr>, mp_srv := http_Shutdown (mp_srv ?q1)\<rparr>"
  let ?q3 = "?q2\<lparr>mp_pc := CloseConn, mp_srv := http_Shutdown_returns (mp_srv ?q2)\<rparr>"
  let ?q4 = "?q3\<lparr>mp_pc := StopGrpc, mp_srv := grpc_GracefulStop (conn_Close (mp_srv ?q3))\<rparr>"
  let ?q5 = "?q4\<lparr>mp_pc := Returning\<rparr>"
  let ?q6 = "?q5\<lparr>mp_defers := [IntroConn, DB], mp_open := mp_open ?q5 - {ArkClient}\<rparr>"
  let ?q7 = "?q6\<lparr>mp_defers := [DB], mp_open := mp_open ?q6 - {IntroConn}\<rparr>"
  let ?q8 = "?q7\<lparr>mp_defers := [], mp_open := mp_open ?q7 - {DB}\<rparr>"
  have calls: "srv_grpc_calls (mp_srv ?q4) = 0" "srv_http_calls (mp_srv ?q4) = srv_http_calls (mp_srv p)"
    by (simp_all add: http_Shutdown_def http_Shutdown_returns_def grpc_GracefulStop_def conn_Close_def assms(4))
  have "proc_step\<^sup>*\<^sup>* p ?q1" by (rule loop_runs [OF s(1)]) (simp_all add: gone_def assms(3))
  moreover have "main_step ?q1 ?q2" by (rule main_step.stopped) (simp_all add: assms(3) s(2))
  moreover have "main_step ?q2 ?q3" by (rule main_step.http_shut) simp
  moreover have "main_step ?q3 ?q4" by (rule main_step.conn_closed) simp
  moreover have "main_step ?q4 ?q5" by (rule main_step.grpc_stopped [OF _ calls(1)]) simp
  moreover have "main_step ?q5 ?q6" by (rule main_step.deferred) (simp_all add: d)
  moreover have "main_step ?q6 ?q7" by (rule main_step.deferred) simp_all
  moreover have "main_step ?q7 ?q8" by (rule main_step.deferred) simp_all
  ultimately have "proc_step\<^sup>*\<^sup>* p ?q8" by (meson proc_main rtranclp.rtrancl_refl rtranclp_trans)
  moreover have "mp_open ?q8 = {}" using d(2) by auto
  ultimately show ?thesis using calls(2) by (intro exI [of _ ?q8]) simp
qed

lemma sample_abandoned:
  "\<exists>p. proc_step\<^sup>*\<^sup>* proc_start p \<and> mp_pc p = Returning \<and> mp_open p = {} \<and> srv_http_calls (mp_srv p) = 1"
proof -
  let ?p = "sample_serving\<lparr>mp_srv := (mp_srv sample_serving)\<lparr>srv_http_calls := Suc (srv_http_calls (mp_srv sample_serving))\<rparr>\<rparr>"
  let ?q = "?p\<lparr>mp_pc := StopService, mp_svc := Stop_begin (mp_svc ?p)\<rparr>"
  have "proc_step sample_serving ?p"
    by (rule proc_step.serves [OF _ server_step.http_request]) (simp_all add: sample_serving_def gone_def)
  moreover have "proc_step ?p ?q"
    by (rule proc_step.main [OF main_step.signal]) (simp add: sample_serving_def)
  ultimately have reach: "proc_step\<^sup>*\<^sup>* proc_start ?q"
    using sample_serving_reached by (meson rtranclp.rtrancl_into_rtrancl)
  then have "proc_inv ?q" by (rule proc.inv_reachable [OF refl])
  then have "loop_ok ?q" "held_ok ?q" by (simp_all add: proc_inv_def)
  from abandoned_handlers [OF this] obtain q where "proc_step\<^sup>*\<^sup>* ?q q" "mp_pc q = Returning" "mp_open q = {}"
    "srv_http_calls (mp_srv q) = 1"
    by (auto simp: sample_serving_def new_server_def)
  with reach show ?thesis by (meson rtranclp_trans)
qed

section \<open>Properties\<close>




end
