(* ===== verification/Spec2Isabelle.thy ===== *)
theory Spec2Isabelle
  imports Offer AssetPacket Taker Maker Banco Price Txmatch Builder Plugin Solver Repo Service
    Lifecycle Api Config System PriceFeed GoURL Cli Web Concurrency Stages Interleaving
    Ledger Shutdown Daemon
begin

text \<open>
  Verification of bancod, a daemon that takes swap offers on an Ark server.

  \<^bold>\<open>The program.\<close> A maker announces an offer (\<^verbatim>\<open>pkg/contract/maker.go\<close>) in an extension output of the
  transaction that funds it. The daemon (\<^verbatim>\<open>cmd/bancod/main.go\<close>) subscribes to the transactions of the
  server (\<^verbatim>\<open>pkg/solver/arkdsource\<close>) and runs its plugins on them (\<^verbatim>\<open>pkg/solver/solver.go\<close>). Its one
  plugin (\<^verbatim>\<open>pkg/banco/plugin.go\<close>), assembled by \<^verbatim>\<open>pkg/solver/builder\<close> with predicates of
  \<^verbatim>\<open>pkg/solver/txmatch\<close>, detects the offer (\<^verbatim>\<open>pkg/banco/offer.go\<close>), looks for a configured pair, checks
  the amount, the price against a cached feed (\<^verbatim>\<open>pkg/banco/price.go\<close>) and the balance, and fulfils the
  offer (\<^verbatim>\<open>pkg/contract/taker.go\<close>). A listener stores the trade. The operator configures the pairs
  through an HTTP or gRPC interface (\<^verbatim>\<open>internal/interface/grpc\<close>) of a service
  (\<^verbatim>\<open>internal/core/application\<close>) over SQLite repositories (\<^verbatim>\<open>internal/infrastructure/db/sqlite\<close>).

  \<^bold>\<open>Theories.\<close>
  \<^item> \<open>Prelude\<close>: words, Go errors, results, computations over an outside world, the locales
    \<open>io_preorder\<close> (what sequencing preserves) and \<open>invariant_system\<close>. \<open>GoLib\<close>: the functions of the Go library the program computes with, the locale
    \<open>byte_codec\<close> with its interpretations. \<open>GoURL\<close>: clean paths, escaped segments
    and the segments the mux matches. \<open>Float64\<close>: binary64 arithmetic, exact, over the rationals.
  \<^item> \<open>Offer\<close> (\<^verbatim>\<open>pkg/contract/offer.go\<close>): the offer, its encoding and decoding, the scripts of the swap.
  \<^item> \<open>Tx\<close>: transactions. \<open>AssetPacket\<close>, \<open>Taker\<close> (\<^verbatim>\<open>pkg/contract/taker.go\<close>): the routing of assets and
    the fulfilment, whose requests to sign and submit are kept in a log. \<open>Maker\<close>
    (\<^verbatim>\<open>pkg/contract/maker.go\<close>): creation and status of offers.
  \<^item> \<open>Banco\<close>, \<open>Price\<close>, \<open>Plugin\<close> (\<^verbatim>\<open>pkg/banco\<close>): detected offers and pairs, the price cache and the
    tolerance, the plugin. \<open>Txmatch\<close>, \<open>Builder\<close> (\<^verbatim>\<open>pkg/solver/txmatch\<close>, \<^verbatim>\<open>pkg/solver/builder\<close>).
  \<^item> \<open>Solver\<close> (\<^verbatim>\<open>pkg/solver/solver.go\<close>, \<^verbatim>\<open>pkg/solver/arkdsource\<close>): Run as a step relation over a
    record of the channel, the solves in flight and the shared world, and the subscription.
  \<^item> \<open>Repo\<close> (\<^verbatim>\<open>internal/infrastructure/db/sqlite\<close>): tables as lists of rows, the queries, the
    repositories, and the locale \<open>pair_repository\<close>, the contract of \<^verbatim>\<open>ports.PairRepository\<close> over maps,
    interpreted on them. \<open>Service\<close>, \<open>Lifecycle\<close> (\<^verbatim>\<open>internal/core/application\<close>): the operations, and the
    goroutine started by Start and stopped by Stop. \<open>Api\<close> (\<^verbatim>\<open>internal/interface/grpc\<close>): handlers and
    routes. \<open>Cli\<close> (\<^verbatim>\<open>cmd/banco\<close>): the commands of the client and what they do at the gateway.
    \<open>Web\<close> (\<^verbatim>\<open>internal/interface/web\<close>): the dashboard next to the gateway.
    \<open>Config\<close> (\<^verbatim>\<open>internal/config\<close>). \<open>PriceFeed\<close> (\<^verbatim>\<open>internal/infrastructure/pricefeed\<close>).
  \<^item> \<open>System\<close> (\<^verbatim>\<open>cmd/bancod/main.go\<close>): solver, plugin, repositories, listener and operator together, a Match or a
    Solve in one action. \<open>Concurrency\<close>: solves whose preparation and submission interleave.
    \<open>Stages\<close>: a Match and a Solve as machines that make one call of a service at a time. \<open>Interleaving\<close>: the
    daemon of \<open>System\<close> with a switch between goroutines possible at each of these calls, as a state of Run
    with the stage of the Match it is in and of every Solve it has started. \<open>Ledger\<close>: its requests, events,
    trades and prices. \<open>Shutdown\<close>: that daemon under the service which starts and stops it.
    \<open>Daemon\<close>: the process, with \<^verbatim>\<open>OpenDB\<close>, the
    servers, the stages of \<^verbatim>\<open>main\<close>, its deferred calls and its shutdown, around the run loop of
    \<open>Lifecycle\<close>.

  \<^bold>\<open>How code is modelled.\<close> A function that returns an error is a function into \<open>failure + 'a\<close>; panics are
  failures of their own. A function that calls services is a state transformer on the world those
  services act on. Goroutines are step relations (\<open>own_step\<close>, \<open>go_step\<close>, \<open>daemon_step\<close>, \<open>fine_step\<close>, \<open>whole_step\<close>, \<open>proc_step\<close>); a Match
  or a Solve of a plugin is one step of \<open>own_step\<close>, two steps of \<open>solve_step\<close> and a step for each call of a
  service in \<open>fine_step\<close>. Map iteration, and the row order of a query without ORDER BY, are
  arguments of the definitions: the theorems hold for every order. Amounts are 64-bit words and wrap.
  Recursion is structural or has a termination proof; there is no fuel.

  \<^bold>\<open>What is shown.\<close>
  \<^item> Offers: encoding and decoding are inverse, the accepted payloads are characterised, the fulfil
    script commits to amount, maker and asset, and a created offer is accepted by the taker and
    detected by the solver.
  \<^item> Fulfilment: nothing is signed before the contract is verified, at most one submission, the
    outputs balance, the asset packet routes and conserves; and where it does not (shortages, amounts
    of \<open>2 ^ 63\<close> and more).
  \<^item> Plugin: what a match implies, the price tolerance in exact arithmetic, the prices a fetch can return
    and the age of cached ones, the builder's gates, the predicates against their specifications.
  \<^item> Solver and life cycle: clean and certain return of Run, delivery of the subscription, Stop; and
    what a second Start breaks.
  \<^item> Repositories, service and interface: refinement of a map, newest trades first, validity of every
    stored pair, all or nothing, the unique choice of a pair, the replies to an added pair; and that
    an offer which wants bitcoin can never match a pair added through the service.
  \<^item> System: with every goroutine interrupted between any two calls, the submissions are those of the
    solves that reached theirs, the events those of their solves and the trades among those of the
    events, and each solve is for an offer within a valid pair and the tolerance of a price of the feed,
    whose contract was verified; every schedule ends after the shutdown, Stop returns, and then every
    solve is over and every event stored or its storing has failed; and the runs with atomic matches and
    solves are among these runs.
    But the output that is spent need not be the deposit that was matched.
  \<^item> Concurrency: interleaved solves submit only what was verified and at most once each; two that are
    planned at the same time spend the same outputs of the wallet.
  \<^item> Process and client: the database outlives its users (unless Shutdown gives up), the shutdown comes
    to its end, \<^verbatim>\<open>OpenDB\<close> leaks no handle, the exit status of a client's command tells what it did,
    and every pair name but three reaches its route.

  \<^bold>\<open>Hypotheses.\<close> Asset identifiers and keys survive encoding and decoding where a round trip needs it;
  a query returns every row of the table once (\<open>reorders\<close>); \<open>quotes\<close> names the prices the feed replies; a
  wallet that is only queried loses no coins (\<open>wallet_queries\<close>, \<open>gains\<close>); the network carries requests and responses (\<open>delivers\<close>) and JSON text is read
  back (\<open>decodes\<close>); opening and closing a handle is what it says (\<open>handles_ok\<close>); \<open>map_order1\<close> and \<open>map_order2\<close> are orders of
  the keys of a map. Each property with hypotheses is applied to a sample next to it.

  \<^bold>\<open>Not modelled.\<close> The generated protocol code (its gateway is not used: the one of
  \<^verbatim>\<open>internal/interface/grpc\<close> is written by hand), JSON text, the parsing of the command line, the
  contents of the static files, the migrations themselves, sockets and log lines. The libraries for scripts,
  keys, assets, extensions and PSBTs, the Ark client, the introspector and the indexer are parameters.
  A call of a service, a query of the database and the price lookup of a Match (clock, cache and feed) are
  one action each; a data race on the fields of the service is not modelled.
\<close>

end
